(* ===== verification/Aufs_Prelude.thy ===== *)
theory Aufs_Prelude
  imports Main "HOL-Library.Word"
begin

text \<open>
  Shared vocabulary of the development: the machine types of the C and C++ sources, the
  faults a C program can run into, the error numbers the kernel module returns, byte
  buffers with in-place writes (\<open>blit\<close>), the big-endian and little-endian codecs of the
  on-disk structures, and the rounding function both programs use for alignment.
\<close>

unbundle bit_operations_syntax

named_theorems codec_simps \<open>reading back what a codec wrote, and lengths of encodings\<close>
named_theorems layout_defs \<open>layout constants and layout functions of the disk format\<close>

subsection \<open>Types\<close>

type_synonym u8 = "8 word"
type_synonym u16 = "16 word"
type_synonym u32 = "32 word"
type_synonym u64 = "64 word"
type_synonym bytes = "u8 list"

text \<open>
  Undefined behaviour and kernel oopses are values: \<open>Inl\<close> of a fault means that the C code
  dereferences a null pointer, accesses memory out of bounds, and so on.
\<close>

datatype c_fault = NullDeref | OutOfBounds | UseAfterFree | DivByZero | BugOn | Terminate

type_synonym 'a cres = "c_fault + 'a"

abbreviation Fault :: "c_fault \<Rightarrow> 'a cres" where "Fault \<equiv> Inl"
abbreviation Ret :: "'a \<Rightarrow> 'a cres" where "Ret \<equiv> Inr"

text \<open>The error numbers of the kernel interface, as the positive constants the code negates.\<close>

abbreviation EIO :: int where "EIO \<equiv> 5"
abbreviation ENOMEM :: int where "ENOMEM \<equiv> 12"
abbreviation EEXIST :: int where "EEXIST \<equiv> 17"
abbreviation EINVAL :: int where "EINVAL \<equiv> 22"
abbreviation ENOSPC :: int where "ENOSPC \<equiv> 28"
abbreviation ENAMETOOLONG :: int where "ENAMETOOLONG \<equiv> 36"

subsection \<open>Byte buffers\<close>

definition blit :: "nat \<Rightarrow> 'a list \<Rightarrow> 'a list \<Rightarrow> 'a list" where
  "blit off src dst = take off dst @ src @ drop (off + length src) dst"

definition slice :: "nat \<Rightarrow> nat \<Rightarrow> 'a list \<Rightarrow> 'a list" where
  "slice off n xs = take n (drop off xs)"

text \<open>Big-endian and little-endian storage of the fixed-width integers.\<close>

definition be32_enc :: "u32 \<Rightarrow> bytes" where
  "be32_enc w = [ucast (drop_bit 24 w), ucast (drop_bit 16 w), ucast (drop_bit 8 w), ucast w]"

definition le32_enc :: "u32 \<Rightarrow> bytes" where
  "le32_enc w = [ucast w, ucast (drop_bit 8 w), ucast (drop_bit 16 w), ucast (drop_bit 24 w)]"

definition be64_enc :: "u64 \<Rightarrow> bytes" where
  "be64_enc w = be32_enc (ucast (drop_bit 32 w)) @ be32_enc (ucast w)"

definition word32_of_bytes :: "u8 \<Rightarrow> u8 \<Rightarrow> u8 \<Rightarrow> u8 \<Rightarrow> u32" where
  "word32_of_bytes b3 b2 b1 b0 =
     push_bit 24 (ucast b3) OR push_bit 16 (ucast b2) OR push_bit 8 (ucast b1) OR ucast b0"

definition be32_at :: "bytes \<Rightarrow> nat \<Rightarrow> u32" where
  "be32_at d off = word32_of_bytes (d ! off) (d ! (off + 1)) (d ! (off + 2)) (d ! (off + 3))"

definition le32_at :: "bytes \<Rightarrow> nat \<Rightarrow> u32" where
  "le32_at d off = word32_of_bytes (d ! (off + 3)) (d ! (off + 2)) (d ! (off + 1)) (d ! off)"

definition be64_at :: "bytes \<Rightarrow> nat \<Rightarrow> u64" where
  "be64_at d off = push_bit 32 (ucast (be32_at d off)) OR ucast (be32_at d (off + 4))"

text \<open>The least multiple of \<open>a\<close> that is at least \<open>x\<close>.\<close>

definition align_up :: "nat \<Rightarrow> nat \<Rightarrow> nat" where
  "align_up x a = (x + a - 1) div a * a"

subsection \<open>Facts on buffers\<close>

lemma length_blit [simp]: "off + length src \<le> length dst \<Longrightarrow> length (blit off src dst) = length dst"
  by (simp add: blit_def)

lemma nth_blit:
  "off + length src \<le> length dst \<Longrightarrow> i < length dst \<Longrightarrow>
     blit off src dst ! i =
       (if off \<le> i \<and> i < off + length src then src ! (i - off) else dst ! i)"
  by (auto simp: blit_def nth_append min_def)

lemma nth_blit_same:
  "off + length src \<le> length dst \<Longrightarrow> k < length src \<Longrightarrow> blit off src dst ! (off + k) = src ! k"
  by (simp add: nth_blit)

lemma nth_blit_other:
  "off + length src \<le> length dst \<Longrightarrow> i < off \<or> off + length src \<le> i \<Longrightarrow> i < length dst \<Longrightarrow>
     blit off src dst ! i = dst ! i"
  by (auto simp: nth_blit)

lemma length_slice [simp]: "off + n \<le> length xs \<Longrightarrow> length (slice off n xs) = n"
  by (simp add: slice_def)

lemma nth_slice [simp]: "off + n \<le> length xs \<Longrightarrow> k < n \<Longrightarrow> slice off n xs ! k = xs ! (off + k)"
  by (simp add: slice_def)

lemma slice_eqI:
  "off + n \<le> length xs \<Longrightarrow> off + n \<le> length ys \<Longrightarrow>
     (\<And>k. k < n \<Longrightarrow> xs ! (off + k) = ys ! (off + k)) \<Longrightarrow> slice off n xs = slice off n ys"
  by (rule nth_equalityI) auto

lemma slice_blit_same:
  "off + length src \<le> length dst \<Longrightarrow> slice off (length src) (blit off src dst) = src"
  by (rule nth_equalityI) (auto simp: nth_blit)

lemma slice_blit_other:
  "off + length src \<le> length dst \<Longrightarrow> o2 + n \<le> length dst \<Longrightarrow>
     o2 + n \<le> off \<or> off + length src \<le> o2 \<Longrightarrow> slice o2 n (blit off src dst) = slice o2 n dst"
  by (rule nth_equalityI) (auto simp: nth_blit)

subsection \<open>Round trips of the codecs\<close>

lemma length_be32_enc [simp, codec_simps]: "length (be32_enc w) = 4"
  by (simp add: be32_enc_def)

lemma length_le32_enc [simp, codec_simps]: "length (le32_enc w) = 4"
  by (simp add: le32_enc_def)

lemma length_be64_enc [simp, codec_simps]: "length (be64_enc w) = 8"
  by (simp add: be64_enc_def)

lemma word32_of_bytes_split:
  "word32_of_bytes (ucast (drop_bit 24 w)) (ucast (drop_bit 16 w)) (ucast (drop_bit 8 w)) (ucast w) = w"
  unfolding word32_of_bytes_def
proof (rule bit_word_eqI)
  fix n
  assume "n < LENGTH(32)"
  then consider "n < 8" | "8 \<le> n" "n < 16" | "16 \<le> n" "n < 24" | "24 \<le> n" "n < 32"
    by fastforce
  then show "bit ((push_bit 24 (ucast (ucast (drop_bit 24 w) :: u8)) :: u32)
      OR push_bit 16 (ucast (ucast (drop_bit 16 w) :: u8))
      OR push_bit 8 (ucast (ucast (drop_bit 8 w) :: u8)) OR ucast (ucast w :: u8)) n = bit w n"
    by cases (auto simp: bit_simps)
qed

lemma be32_at_enc: "be32_at (be32_enc w) 0 = w"
  by (simp add: be32_at_def be32_enc_def word32_of_bytes_split numeral_2_eq_2 numeral_3_eq_3)

lemma be32_at_blit [codec_simps]:
  "off + 4 \<le> length d \<Longrightarrow> be32_at (blit off (be32_enc w) d) off = w"
  using nth_blit_same [of off "be32_enc w" d 0] nth_blit_same [of off "be32_enc w" d 1]
    nth_blit_same [of off "be32_enc w" d 2] nth_blit_same [of off "be32_enc w" d 3]
  by (simp add: be32_at_def be32_enc_def word32_of_bytes_split)

lemma le32_at_blit [codec_simps]:
  "off + 4 \<le> length d \<Longrightarrow> le32_at (blit off (le32_enc w) d) off = w"
  using nth_blit_same [of off "le32_enc w" d 0] nth_blit_same [of off "le32_enc w" d 1]
    nth_blit_same [of off "le32_enc w" d 2] nth_blit_same [of off "le32_enc w" d 3]
  by (simp add: le32_at_def le32_enc_def word32_of_bytes_split)

lemma be32_at_blit_other:
  "off + length src \<le> length d \<Longrightarrow> o2 + 4 \<le> length d \<Longrightarrow>
     o2 + 4 \<le> off \<or> off + length src \<le> o2 \<Longrightarrow> be32_at (blit off src d) o2 = be32_at d o2"
  by (auto simp: be32_at_def nth_blit)

lemma be32_at_blit_frame:
  assumes "off + length src \<le> length d" and "o2 + 4 \<le> off \<or> off + length src \<le> o2"
  shows "be32_at (blit off src d) o2 = be32_at d o2"
proof -
  have "blit off src d ! i = d ! i" if "i < off \<or> off + length src \<le> i" for i
    using assms(1) that by (cases src) (auto simp: blit_def nth_append min_def)
  then show ?thesis using assms(2) by (auto simp: be32_at_def)
qed

lemma le32_at_blit_other:
  "off + length src \<le> length d \<Longrightarrow> o2 + 4 \<le> length d \<Longrightarrow>
     o2 + 4 \<le> off \<or> off + length src \<le> o2 \<Longrightarrow> le32_at (blit off src d) o2 = le32_at d o2"
  by (auto simp: le32_at_def nth_blit)

lemma be64_at_blit_other:
  "off + length src \<le> length d \<Longrightarrow> o2 + 8 \<le> length d \<Longrightarrow>
     o2 + 8 \<le> off \<or> off + length src \<le> o2 \<Longrightarrow> be64_at (blit off src d) o2 = be64_at d o2"
  by (auto simp: be64_at_def be32_at_blit_other)

lemma word64_of_halves:
  "push_bit 32 (ucast (ucast (drop_bit 32 w) :: u32)) OR ucast (ucast w :: u32) = (w :: u64)"
  by (rule bit_word_eqI) (auto simp: bit_simps)

lemma blit_append:
  "off + length xs + length ys \<le> length d \<Longrightarrow>
     blit off (xs @ ys) d = blit off xs (blit (off + length xs) ys d)"
  by (rule nth_equalityI) (auto simp: nth_blit nth_append)

lemma be64_at_blit [codec_simps]:
  assumes "off + 8 \<le> length d"
  shows "be64_at (blit off (be64_enc w) d) off = w"
proof -
  let ?lo = "blit (off + 4) (be32_enc (ucast w)) d"
  have split: "blit off (be64_enc w) d = blit off (be32_enc (ucast (drop_bit 32 w))) ?lo"
    using assms by (simp add: be64_enc_def blit_append)
  have "be32_at (blit off (be32_enc (ucast (drop_bit 32 w))) ?lo) off = ucast (drop_bit 32 w)"
    using assms by (simp add: be32_at_blit)
  moreover have "be32_at (blit off (be32_enc (ucast (drop_bit 32 w))) ?lo) (off + 4) = ucast w"
    using assms by (simp add: be32_at_blit be32_at_blit_other)
  ultimately show ?thesis
    by (simp add: be64_at_def split word64_of_halves)
qed

text \<open>Reading inside a written record, and inside a concatenation of fields.\<close>

lemma be32_at_blit_inside:
  "off + length src \<le> length d \<Longrightarrow> k + 4 \<le> length src \<Longrightarrow>
     be32_at (blit off src d) (off + k) = be32_at src k"
  by (simp add: be32_at_def nth_blit add.assoc)

lemma be64_at_blit_inside:
  "off + length src \<le> length d \<Longrightarrow> k + 8 \<le> length src \<Longrightarrow>
     be64_at (blit off src d) (off + k) = be64_at src k"
  using be32_at_blit_inside [of off src d k] be32_at_blit_inside [of off src d "k + 4"]
  by (simp add: be64_at_def add.assoc)

lemma be32_at_append [codec_simps]:
  "length xs \<le> n \<Longrightarrow> be32_at (xs @ ys) n = be32_at ys (n - length xs)"
  by (simp add: be32_at_def nth_append Suc_diff_le)

lemma be64_at_append [codec_simps]:
  "length xs \<le> n \<Longrightarrow> be64_at (xs @ ys) n = be64_at ys (n - length xs)"
  by (simp add: be64_at_def be32_at_append)

lemma be32_at_enc_append [codec_simps]: "be32_at (be32_enc w @ ys) 0 = w"
  by (simp add: be32_at_def be32_enc_def word32_of_bytes_split numeral_2_eq_2 numeral_3_eq_3)

lemma be64_at_enc [codec_simps]: "be64_at (be64_enc w) 0 = w"
  by (simp add: be64_at_def be64_enc_def be32_at_enc_append be32_at_append be32_at_enc
      word64_of_halves)

subsection \<open>Words as numbers\<close>

lemma unat_u32_less: "unat (w :: u32) < 4294967296"
proof -
  have "unat w < 2 ^ LENGTH(32)" by (rule unsigned_less)
  then show ?thesis by simp
qed

lemma unat_u64_less: "unat (w :: u64) < 18446744073709551616"
proof -
  have "unat w < 2 ^ LENGTH(64)" by (rule unsigned_less)
  then show ?thesis by simp
qed

lemma unat_add_no_wrap:
  "unat a + unat b < 2 ^ LENGTH('a) \<Longrightarrow> unat (a + b :: 'a::len word) = unat a + unat b"
  by (simp add: unat_word_ariths)

lemma unat_mult_no_wrap:
  "unat a * unat b < 2 ^ LENGTH('a) \<Longrightarrow> unat (a * b :: 'a::len word) = unat a * unat b"
  by (simp add: unat_word_ariths)

lemma unat_of_nat_small: "n < 2 ^ LENGTH('a) \<Longrightarrow> unat (of_nat n :: 'a::len word) = n"
  by (simp add: unsigned_of_nat take_bit_nat_eq_self)

lemma unat_drop_bit_u32: "unat (drop_bit n (w :: u32)) = unat w div 2 ^ n"
  unfolding unsigned_drop_bit_eq
  using unat_u32_less [of w] by (simp add: drop_bit_eq_div take_bit_nat_eq_self)

lemma unat_drop_bit_u64: "unat (drop_bit n (w :: u64)) = unat w div 2 ^ n"
  unfolding unsigned_drop_bit_eq
  using unat_u64_less [of w] by (simp add: drop_bit_eq_div take_bit_nat_eq_self)

lemma unat_ucast_u32_u64 [simp]: "unat (ucast (w :: u32) :: u64) = unat w"
  using unat_u32_less [of w] by (simp add: unsigned_ucast_eq take_bit_nat_eq_self_iff)

lemma ucast_ucast_u64_small: "unat (w :: u64) < 4294967296 \<Longrightarrow> ucast (ucast w :: u32) = w"
  by (rule word_unat_eq_iff [THEN iffD2])
    (simp add: unsigned_ucast_eq unsigned_take_bit_eq take_bit_nat_eq_self)

lemma unat_ucast_u64_u32: "unat (ucast (w :: u64) :: u32) = unat w mod 4294967296"
  by (simp add: unsigned_ucast_eq take_bit_eq_mod)

text \<open>Signed readings of words that stay below the sign bit.\<close>

lemma sint_u32_small:
  assumes "unat (w :: u32) < 2147483648"
  shows "sint w = int (unat w)"
proof -
  have "uint w = int (unat w)" by simp
  then have "- 2147483648 \<le> uint w" and "uint w < 2147483648" using assms by linarith+
  then have "signed_take_bit 31 (uint w) = uint w"
    by (intro signed_take_bit_int_eq_self) simp_all
  then show ?thesis by (simp add: sint_uint)
qed

lemma scast_u32_small: "unat (w :: u32) < 2147483648 \<Longrightarrow> (scast w :: u64) = of_nat (unat w)"
  by (simp add: scast_eq sint_u32_small)

lemma ucast_u64_u32_of_nat: "(ucast (of_nat n :: u64) :: u32) = of_nat n"
  by (rule bit_word_eqI) (simp add: bit_simps)

subsection \<open>Alignment\<close>

lemma align_up_ge: "0 < a \<Longrightarrow> x \<le> align_up x a"
proof -
  assume "0 < a"
  moreover have "(x + a - 1) div a * a + (x + a - 1) mod a = x + a - 1" by (rule div_mult_mod_eq)
  moreover have "(x + a - 1) mod a < a" using \<open>0 < a\<close> by simp
  ultimately show ?thesis unfolding align_up_def by linarith
qed

lemma align_up_less: "0 < a \<Longrightarrow> align_up x a < x + a"
  unfolding align_up_def by (metis One_nat_def add_gr_0 diff_Suc_less div_times_less_eq_dividend le_less_trans)

lemma align_up_dvd: "a dvd align_up x a"
  by (simp add: align_up_def)

lemma align_up_mono: "x \<le> y \<Longrightarrow> align_up x a \<le> align_up y a"
  by (simp add: align_up_def div_le_mono)

lemma align_up_least:
  assumes "0 < a" and "x \<le> m" and "a dvd m"
  shows "align_up x a \<le> m"
proof -
  obtain q where q: "m = a * q" using assms(3) by (rule dvdE)
  have "(x + a - 1) div a < q + 1"
    using assms(1,2) q by (intro less_mult_imp_div_less) (simp add: algebra_simps)
  then show ?thesis using q by (simp add: align_up_def)
qed

subsection \<open>Searching lists\<close>

lemma find_map: "List.find P (map f xs) = map_option f (List.find (\<lambda>x. P (f x)) xs)"
  by (induction xs) auto

lemma find_append: "List.find P (xs @ ys) = (case List.find P xs of None \<Rightarrow> List.find P ys | r \<Rightarrow> r)"
  by (induction xs) auto

lemma find_cong: "(\<And>x. x \<in> set xs \<Longrightarrow> P x = Q x) \<Longrightarrow> List.find P xs = List.find Q xs"
  by (induction xs) auto

lemma map_of_find: "map_of (map (\<lambda>i. (f i, g i)) xs) k = map_option g (List.find (\<lambda>i. f i = k) xs)"
  by (induction xs) auto

lemma takeWhile_eq_prefix:
  assumes "0 \<notin> set name" and "length name \<le> length ys"
  shows "takeWhile (\<lambda>b. b \<noteq> 0) ys = name \<longleftrightarrow>
    take (length name) ys = name \<and> (length name < length ys \<longrightarrow> ys ! length name = (0 :: u8))"
proof
  assume tw: "takeWhile (\<lambda>b. b \<noteq> 0) ys = name"
  then have "take (length name) ys = name" by (metis takeWhile_eq_take)
  moreover have "length name < length ys \<longrightarrow> ys ! length name = 0"
    using tw nth_length_takeWhile by fastforce
  ultimately show "take (length name) ys = name \<and> (length name < length ys \<longrightarrow> ys ! length name = 0)" by simp
next
  assume r: "take (length name) ys = name \<and> (length name < length ys \<longrightarrow> ys ! length name = 0)"
  show "takeWhile (\<lambda>b. b \<noteq> 0) ys = name"
  proof (cases "length name < length ys")
    case True
    define zs where "zs = drop (Suc (length name)) ys"
    have "take (length name) ys @ ys ! length name # drop (Suc (length name)) ys = name @ 0 # zs"
      using r True by (simp add: zs_def)
    then have ys: "ys = name @ 0 # zs" by (rule trans [OF id_take_nth_drop [OF True]])
    show ?thesis unfolding ys using assms(1) by (subst takeWhile_append2) auto
  next
    case False
    then have "take (length name) ys = ys" by simp
    then have "ys = name" using r by (metis (no_types))
    then show ?thesis using assms(1) by (auto simp: takeWhile_eq_all_conv)
  qed
qed

lemma map_of_snoc_fresh:
  "name \<notin> fst ` set es \<Longrightarrow> map_of (es @ [(name, i)]) m = (if m = name then Some i else map_of es m)"
  by (induction es) auto

subsection \<open>Runs\<close>

text \<open>
  A run is a sequence of states. When every step keeps a property or is an exception, a run keeps the
  property up to its first exception.
\<close>

lemma run_keeps_or_excepts:
  assumes "\<And>s s'. P s \<Longrightarrow> R s s' \<Longrightarrow> P s' \<or> X s s'" and "P (run 0)" and "\<forall>i < n. R (run i) (run (Suc i))"
  shows "P (run n) \<or> (\<exists>i < n. P (run i) \<and> X (run i) (run (Suc i)))"
  using assms(3)
proof (induction n)
  case 0
  then show ?case using assms(2) by simp
next
  case (Suc n)
  then have "P (run n) \<or> (\<exists>i < n. P (run i) \<and> X (run i) (run (Suc i)))" and "R (run n) (run (Suc n))" by simp_all
  then show ?case using assms(1) less_Suc_eq by metis
qed

end
