(* ===== verification/Minix_Bitops.thy ===== *)
theory Minix_Bitops
  imports Aufs_Prelude
begin

text \<open>
  The bitmap macros of \<^verbatim>\<open>kern/minix.h\<close>. The header selects one of three families by the
  kernel configuration: kernel bit operations on native words, 16-bit indexed bitmaps on
  big-endian machines (whose search and test routines are written out in the header), and
  the kernel's little-endian bit operations. The rest of the module only uses the macro
  names, so the family is a record \<open>bitops\<close> and what the module relies on is the locale
  \<open>minix_bitmap\<close>. The locale holds for the routines of the 16-bit branch, over the
  kernel's word operations (locale \<open>long_bitops\<close>), for the native family (locale
  \<open>native_words\<close>) on little-endian and big-endian words, and for the little-endian family.
\<close>

subsection \<open>The macro family\<close>

record bitops =
  find_first_zero :: "bytes \<Rightarrow> nat \<Rightarrow> nat"
  set_map_bit :: "nat \<Rightarrow> bytes \<Rightarrow> bytes"
  test_and_set :: "nat \<Rightarrow> bytes \<Rightarrow> bool \<times> bytes"
  test_and_clear :: "nat \<Rightarrow> bytes \<Rightarrow> bool \<times> bytes"
  test_map_bit :: "bytes \<Rightarrow> nat \<Rightarrow> bool"

text \<open>A bitmap buffer is a non-empty block of whole 32-bit words, at most a page long.\<close>

definition map_ok :: "bytes \<Rightarrow> bool" where
  "map_ok d \<longleftrightarrow> 0 < length d \<and> 4 dvd length d \<and> length d \<le> 4096"

subsection \<open>The big-endian 16-bit indexed family\<close>

text \<open>The \<open>i\<close>-th unsigned short of a buffer on a big-endian machine.\<close>

definition be16_at :: "bytes \<Rightarrow> nat \<Rightarrow> u16" where
  "be16_at d i = push_bit 8 (ucast (d ! (2 * i))) OR ucast (d ! (2 * i + 1))"

text \<open>
  The scan loop of \<^verbatim>\<open>minix_find_first_zero_bit\<close>: \<open>p\<close> is the index of the next short,
  \<open>sz\<close> the unsigned count of shorts left; reading past the buffer is a fault. The
  kernel's \<open>ffz\<close> is a parameter.
\<close>

function be16_scan :: "(u16 \<Rightarrow> nat) \<Rightarrow> bytes \<Rightarrow> nat \<Rightarrow> u32 \<Rightarrow> nat cres" where
  "be16_scan ffz d p sz =
     (if length d < 2 * p + 2 then Fault OutOfBounds
      else if be16_at d p = 0xffff then
        (if sz - 1 = 0 then Ret ((p + 1) * 16) else be16_scan ffz d (p + 1) (sz - 1))
      else Ret (p * 16 + ffz (be16_at d p)))"
  by pat_completeness auto
termination
  by (relation "measure (\<lambda>(ffz, d, p, sz). length d - 2 * p)") auto

declare be16_scan.simps [simp del]

definition minix_find_first_zero_bit :: "(u16 \<Rightarrow> nat) \<Rightarrow> bytes \<Rightarrow> u32 \<Rightarrow> nat cres" where
  "minix_find_first_zero_bit ffz d sz =
     (if sz = 0 then Ret 0 else be16_scan ffz d 0 (drop_bit 4 sz))"

definition minix_test_bit :: "nat \<Rightarrow> bytes \<Rightarrow> bool" where
  "minix_test_bit nr d = (be16_at d (nr div 16) AND push_bit (nr mod 16) 1 \<noteq> 0)"

text \<open>The remaining macros of the family hand \<open>nr XOR 16\<close> to the kernel's word operations.\<close>

definition minix_set_bit :: "(nat \<Rightarrow> bytes \<Rightarrow> bytes) \<Rightarrow> nat \<Rightarrow> bytes \<Rightarrow> bytes" where
  "minix_set_bit kset nr d = kset (nr XOR 16) d"

definition minix_test_and_set_bit ::
    "(nat \<Rightarrow> bytes \<Rightarrow> bool \<times> bytes) \<Rightarrow> nat \<Rightarrow> bytes \<Rightarrow> bool \<times> bytes" where
  "minix_test_and_set_bit ktas nr d = ktas (nr XOR 16) d"

definition minix_test_and_clear_bit ::
    "(nat \<Rightarrow> bytes \<Rightarrow> bool \<times> bytes) \<Rightarrow> nat \<Rightarrow> bytes \<Rightarrow> bool \<times> bytes" where
  "minix_test_and_clear_bit ktac nr d = ktac (nr XOR 16) d"

definition be16_bitops ::
    "(u16 \<Rightarrow> nat) \<Rightarrow> (nat \<Rightarrow> bytes \<Rightarrow> bytes) \<Rightarrow> (nat \<Rightarrow> bytes \<Rightarrow> bool \<times> bytes) \<Rightarrow>
     (nat \<Rightarrow> bytes \<Rightarrow> bool \<times> bytes) \<Rightarrow> bitops" where
  "be16_bitops ffz kset ktas ktac =
     \<lparr>find_first_zero = (\<lambda>d n. projr (minix_find_first_zero_bit ffz d (of_nat n))),
      set_map_bit = minix_set_bit kset,
      test_and_set = minix_test_and_set_bit ktas,
      test_and_clear = minix_test_and_clear_bit ktac,
      test_map_bit = (\<lambda>d nr. minix_test_bit nr d)\<rparr>"

text \<open>
  Bit \<open>nr\<close> of an array of big-endian 32-bit words, as the kernel numbers it: \<open>long_index\<close>
  is the byte that holds it.
\<close>

definition long_index :: "nat \<Rightarrow> nat" where
  "long_index nr = 4 * (nr div 32) + (3 - nr mod 32 div 8)"

definition long_bit :: "bytes \<Rightarrow> nat \<Rightarrow> bool" where
  "long_bit d nr = bit (d ! long_index nr) (nr mod 8)"

definition long_assign_bit :: "bool \<Rightarrow> nat \<Rightarrow> bytes \<Rightarrow> bytes" where
  "long_assign_bit v nr d =
     (let i = long_index nr
      in d[i := (if v then d ! i OR push_bit (nr mod 8) 1
                 else d ! i AND NOT (push_bit (nr mod 8) 1))])"

definition low_zero16 :: "u16 \<Rightarrow> nat" where
  "low_zero16 w = length (takeWhile (bit w) [0..<16])"

subsection \<open>The native family\<close>

text \<open>
  The macros of the native configuration hand their arguments to the kernel's bit operations on words of the machine's
  own byte order. The kernel's operations are parameters.
\<close>

definition native_bitops ::
    "(bytes \<Rightarrow> nat \<Rightarrow> nat) \<Rightarrow> (nat \<Rightarrow> bytes \<Rightarrow> bytes) \<Rightarrow> (nat \<Rightarrow> bytes \<Rightarrow> bool \<times> bytes) \<Rightarrow>
     (nat \<Rightarrow> bytes \<Rightarrow> bool \<times> bytes) \<Rightarrow> (nat \<Rightarrow> bytes \<Rightarrow> bool) \<Rightarrow> bitops" where
  "native_bitops kfind kset ktas ktac ktest =
     \<lparr>find_first_zero = (\<lambda>d n. kfind d n),
      set_map_bit = (\<lambda>nr d. kset nr d),
      test_and_set = (\<lambda>nr d. ktas nr d),
      test_and_clear = (\<lambda>nr d. ktac nr d),
      test_map_bit = (\<lambda>d nr. ktest nr d)\<rparr>"

subsection \<open>The little-endian family\<close>

definition le_test_bit :: "bytes \<Rightarrow> nat \<Rightarrow> bool" where
  "le_test_bit d nr = bit (d ! (nr div 8)) (nr mod 8)"

definition le_assign_bit :: "bool \<Rightarrow> nat \<Rightarrow> bytes \<Rightarrow> bytes" where
  "le_assign_bit v nr d =
     d[nr div 8 := (if v then d ! (nr div 8) OR push_bit (nr mod 8) 1
                    else d ! (nr div 8) AND NOT (push_bit (nr mod 8) 1))]"

definition le_find_zero :: "bytes \<Rightarrow> nat \<Rightarrow> nat" where
  "le_find_zero d n = length (takeWhile (le_test_bit d) [0..<n])"

definition le_bitops :: bitops where
  "le_bitops =
     \<lparr>find_first_zero = le_find_zero,
      set_map_bit = le_assign_bit True,
      test_and_set = (\<lambda>nr d. (le_test_bit d nr, le_assign_bit True nr d)),
      test_and_clear = (\<lambda>nr d. (le_test_bit d nr, le_assign_bit False nr d)),
      test_map_bit = le_test_bit\<rparr>"

subsection \<open>The contract of a family\<close>

locale minix_bitmap =
  fixes bo :: bitops
  assumes ffz_le: "map_ok d \<Longrightarrow> find_first_zero bo d (8 * length d) \<le> 8 * length d"
    and ffz_clear:
      "map_ok d \<Longrightarrow> find_first_zero bo d (8 * length d) < 8 * length d \<Longrightarrow>
         \<not> test_map_bit bo d (find_first_zero bo d (8 * length d))"
    and ffz_least:
      "map_ok d \<Longrightarrow> m < find_first_zero bo d (8 * length d) \<Longrightarrow> m < 8 * length d \<Longrightarrow>
         test_map_bit bo d m"
    and test_set:
      "map_ok d \<Longrightarrow> k < 8 * length d \<Longrightarrow> m < 8 * length d \<Longrightarrow>
         test_map_bit bo (set_map_bit bo k d) m \<longleftrightarrow> m = k \<or> test_map_bit bo d m"
    and length_set: "map_ok d \<Longrightarrow> k < 8 * length d \<Longrightarrow> length (set_map_bit bo k d) = length d"
    and test_and_set_eq:
      "map_ok d \<Longrightarrow> k < 8 * length d \<Longrightarrow>
         test_and_set bo k d = (test_map_bit bo d k, set_map_bit bo k d)"
    and test_and_clear_fst:
      "map_ok d \<Longrightarrow> k < 8 * length d \<Longrightarrow> fst (test_and_clear bo k d) = test_map_bit bo d k"
    and test_clear:
      "map_ok d \<Longrightarrow> k < 8 * length d \<Longrightarrow> m < 8 * length d \<Longrightarrow>
         test_map_bit bo (snd (test_and_clear bo k d)) m \<longleftrightarrow> m \<noteq> k \<and> test_map_bit bo d m"
begin

lemma ffz_full:
  assumes "map_ok d" and "8 * length d \<le> find_first_zero bo d (8 * length d)" and "m < 8 * length d"
  shows "test_map_bit bo d m"
  using ffz_least [OF assms(1) _ assms(3)] assms(2,3) by simp

lemma ffz_some:
  assumes "map_ok d" and "m < 8 * length d" and "\<not> test_map_bit bo d m"
  shows "find_first_zero bo d (8 * length d) \<le> m"
  using ffz_least [OF assms(1) _ assms(2)] assms(3) by (meson not_le)

lemma map_ok_set [simp]: "map_ok d \<Longrightarrow> k < 8 * length d \<Longrightarrow> map_ok (set_map_bit bo k d)"
  by (simp add: map_ok_def length_set)

text \<open>Marking the first zero bit adds exactly that bit to the set of used bits.\<close>

lemma alloc_bit_used:
  assumes "map_ok d" and k: "k = find_first_zero bo d (8 * length d)" and "k < 8 * length d"
  shows "{m. m < 8 * length d \<and> test_map_bit bo (set_map_bit bo k d) m} =
           insert k {m. m < 8 * length d \<and> test_map_bit bo d m}"
    and "k \<notin> {m. m < 8 * length d \<and> test_map_bit bo d m}"
  using assms ffz_clear by (auto simp: test_set)

end

subsection \<open>The little-endian family meets the contract\<close>

lemma bit_set_mask: "bit ((w :: u8) OR 2 ^ k) n \<longleftrightarrow> bit w n \<or> (n = k \<and> k < 8)"
  by (auto simp: bit_simps)

lemma bit_clear_mask: "k < 8 \<Longrightarrow> bit ((w :: u8) AND NOT (2 ^ k)) n \<longleftrightarrow> bit w n \<and> n \<noteq> k"
  using bit_imp_le_length [of w n] by (auto simp: bit_simps)

lemma div_mod_8_eq: "n div 8 = m div 8 \<Longrightarrow> n mod 8 = m mod 8 \<longleftrightarrow> n = (m::nat)"
  by (metis div_mult_mod_eq)

lemma le_test_assign:
  assumes "k < 8 * length d" and "m < 8 * length d"
  shows "le_test_bit (le_assign_bit v k d) m = (if m = k then v else le_test_bit d m)"
proof (cases "m div 8 = k div 8")
  case True
  have "k div 8 < length d" using assms by auto
  with True div_mod_8_eq [OF True] show ?thesis
    by (auto simp: le_test_bit_def le_assign_bit_def bit_set_mask bit_clear_mask)
next
  case False
  then have "m \<noteq> k" by auto
  with False show ?thesis by (simp add: le_test_bit_def le_assign_bit_def)
qed

lemma length_le_assign_bit [simp]: "length (le_assign_bit v k d) = length d"
  by (simp add: le_assign_bit_def)

lemma takeWhile_upt_less:
  "m < length (takeWhile P [0..<n]) \<Longrightarrow> P m"
  by (metis add.left_neutral length_takeWhile_le length_upt less_le_trans minus_nat.diff_0
      nth_mem nth_upt set_takeWhileD takeWhile_nth)

lemma takeWhile_upt_stop:
  "length (takeWhile P [0..<n]) < n \<Longrightarrow> \<not> P (length (takeWhile P [0..<n]))"
  using nth_length_takeWhile [of P "[0..<n]"] by simp

interpretation le_map: minix_bitmap le_bitops
proof (unfold_locales, goal_cases)
  case (1 d) then show ?case
    using length_takeWhile_le [of "le_test_bit d" "[0..<8 * length d]"]
    by (simp add: le_bitops_def le_find_zero_def)
next
  case (2 d) then show ?case
    by (auto simp: le_bitops_def le_find_zero_def dest: takeWhile_upt_stop)
next
  case (3 d m) then show ?case
    by (auto simp: le_bitops_def le_find_zero_def dest: takeWhile_upt_less)
qed (auto simp: le_bitops_def le_test_assign)

subsection \<open>The native family meets the contract\<close>

text \<open>
  What the header takes from the kernel: the operations read and change bits of words, in whatever order \<open>wbit\<close> says
  the machine numbers them, and the search returns the least clear bit or the size.
\<close>

locale native_words =
  fixes wbit :: "bytes \<Rightarrow> nat \<Rightarrow> bool" and kfind :: "bytes \<Rightarrow> nat \<Rightarrow> nat"
    and kset :: "nat \<Rightarrow> bytes \<Rightarrow> bytes" and ktas ktac :: "nat \<Rightarrow> bytes \<Rightarrow> bool \<times> bytes" and ktest :: "nat \<Rightarrow> bytes \<Rightarrow> bool"
  assumes kfind_first: "map_ok d \<Longrightarrow> kfind d (8 * length d) = length (takeWhile (wbit d) [0..<8 * length d])"
    and ktest_bit: "map_ok d \<Longrightarrow> k < 8 * length d \<Longrightarrow> ktest k d = wbit d k"
    and kset_bit: "map_ok d \<Longrightarrow> k < 8 * length d \<Longrightarrow> m < 8 * length d \<Longrightarrow> wbit (kset k d) m \<longleftrightarrow> m = k \<or> wbit d m"
    and kset_length: "map_ok d \<Longrightarrow> k < 8 * length d \<Longrightarrow> length (kset k d) = length d"
    and ktas_eq: "map_ok d \<Longrightarrow> k < 8 * length d \<Longrightarrow> ktas k d = (wbit d k, kset k d)"
    and ktac_fst: "map_ok d \<Longrightarrow> k < 8 * length d \<Longrightarrow> fst (ktac k d) = wbit d k"
    and ktac_length: "map_ok d \<Longrightarrow> k < 8 * length d \<Longrightarrow> length (snd (ktac k d)) = length d"
    and ktac_bit: "map_ok d \<Longrightarrow> k < 8 * length d \<Longrightarrow> m < 8 * length d \<Longrightarrow>
      wbit (snd (ktac k d)) m \<longleftrightarrow> m \<noteq> k \<and> wbit d m"
begin

lemma kept_ok: "map_ok d \<Longrightarrow> length d' = length d \<Longrightarrow> map_ok d'"
  by (simp add: map_ok_def)

lemma ktest_changed:
  assumes "map_ok d" and "k < 8 * length d" and "m < 8 * length d"
  shows "ktest m (kset k d) \<longleftrightarrow> m = k \<or> ktest m d" and "ktest m (snd (ktac k d)) \<longleftrightarrow> m \<noteq> k \<and> ktest m d"
  using assms by (simp_all add: ktest_bit kept_ok kset_length kset_bit ktac_length ktac_bit)

lemma ktest_old:
  assumes "map_ok d" and "k < 8 * length d"
  shows "ktas k d = (ktest k d, kset k d)" and "fst (ktac k d) = ktest k d"
  using assms by (simp_all add: ktest_bit ktas_eq ktac_fst)

lemma kfind_stop:
  assumes "map_ok d"
  shows "kfind d (8 * length d) \<le> 8 * length d"
    and "kfind d (8 * length d) < 8 * length d \<Longrightarrow> \<not> ktest (kfind d (8 * length d)) d"
    and "m < kfind d (8 * length d) \<Longrightarrow> m < 8 * length d \<Longrightarrow> ktest m d"
  using length_takeWhile_le [of "wbit d" "[0..<8 * length d]"] takeWhile_upt_stop [of "wbit d" "8 * length d"]
    takeWhile_upt_less [of m "wbit d" "8 * length d"]
  by (simp_all add: kfind_first ktest_bit assms)

end

sublocale native_words \<subseteq> native: minix_bitmap "native_bitops kfind kset ktas ktac ktest"
  by unfold_locales
    (simp_all add: native_bitops_def kfind_stop ktest_changed kset_length ktest_old)

interpretation le_words: native_words le_test_bit le_find_zero "le_assign_bit True"
  "\<lambda>nr d. (le_test_bit d nr, le_assign_bit True nr d)" "\<lambda>nr d. (le_test_bit d nr, le_assign_bit False nr d)"
  "\<lambda>nr d. le_test_bit d nr"
  by unfold_locales (auto simp: le_find_zero_def le_test_assign)

subsection \<open>The 16-bit family meets the contract\<close>

text \<open>
  What the header takes from the kernel on a big-endian machine with 32-bit words: the
  word bit operations, and \<open>ffz\<close> as the number of the lowest clear bit.
\<close>

locale long_bitops =
  fixes ffz :: "u16 \<Rightarrow> nat"
    and kset :: "nat \<Rightarrow> bytes \<Rightarrow> bytes"
    and ktas ktac :: "nat \<Rightarrow> bytes \<Rightarrow> bool \<times> bytes"
  assumes ffz_bound: "w \<noteq> 0xffff \<Longrightarrow> ffz w < 16"
    and ffz_zero: "w \<noteq> 0xffff \<Longrightarrow> \<not> bit w (ffz w)"
    and ffz_lowest: "w \<noteq> 0xffff \<Longrightarrow> k < ffz w \<Longrightarrow> bit w k"
    and kset_bit:
      "map_ok d \<Longrightarrow> k < 8 * length d \<Longrightarrow> m < 8 * length d \<Longrightarrow>
         long_bit (kset k d) m \<longleftrightarrow> m = k \<or> long_bit d m"
    and kset_length: "map_ok d \<Longrightarrow> k < 8 * length d \<Longrightarrow> length (kset k d) = length d"
    and ktas_eq: "map_ok d \<Longrightarrow> k < 8 * length d \<Longrightarrow> ktas k d = (long_bit d k, kset k d)"
    and ktac_fst: "map_ok d \<Longrightarrow> k < 8 * length d \<Longrightarrow> fst (ktac k d) = long_bit d k"
    and ktac_bit:
      "map_ok d \<Longrightarrow> k < 8 * length d \<Longrightarrow> m < 8 * length d \<Longrightarrow>
         long_bit (snd (ktac k d)) m \<longleftrightarrow> m \<noteq> k \<and> long_bit d m"


lemma xor_16_eq: "(nr::nat) XOR 16 = (if odd (nr div 16) then nr - 16 else nr + 16)"
proof -
  have "nr XOR 16 = flip_bit 4 nr" by (simp add: flip_bit_eq_xor)
  moreover have odd: "bit nr 4 \<longleftrightarrow> odd (nr div 16)" by (simp add: bit_iff_odd)
  moreover have "int (unset_bit 4 nr) = int nr - of_bool (bit nr 4) * 16"
    using unset_bit_eq [of 4 "int nr"] by (simp add: of_nat_unset_bit_eq bit_of_nat_iff_bit)
  then have "bit nr 4 \<Longrightarrow> unset_bit 4 nr = nr - 16" by simp
  ultimately show ?thesis by (simp add: flip_bit_eq_if set_bit_eq)
qed

lemma nat_32_8_cases:
  obtains q c r where "r < 8" and "c < 4" and "nr = 32 * q + 8 * c + (r :: nat)"
proof 
  show "nr mod 8 < 8" "nr mod 32 div 8 < 4" by auto
  have "nr = 32 * (nr div 32) + nr mod 32" by simp
  also have "nr mod 32 = 8 * (nr mod 32 div 8) + nr mod 8"
    using mult_div_mod_eq [of 8 "nr mod 32"] by (simp add: mod_mod_cancel)
  finally show "nr = 32 * (nr div 32) + 8 * (nr mod 32 div 8) + nr mod 8" by simp
qed

lemma digits_32_8:
  assumes "r < 8" "c < 4"
  shows "(32 * q + 8 * c + r) div 32 = q" "(32 * q + 8 * c + r) mod 32 = 8 * c + (r::nat)"
    "(32 * q + 8 * c + r) div 16 = 2 * q + c div 2" "(32 * q + 8 * c + r) mod 16 = 8 * (c mod 2) + r"
    "(32 * q + 8 * c + r) mod 8 = r" "(8 * c + r) div 8 = c" "(8 * c + r) mod 8 = r"
proof -
  consider "c = 0" | "c = 1" | "c = 2" | "c = 3" using assms(2) by linarith
  note cs = this
  show "(32 * q + 8 * c + r) div 32 = q" by (rule div_nat_eqI) (use assms in auto)
  show "(32 * q + 8 * c + r) div 16 = 2 * q + c div 2" using cs by cases (use assms in \<open>auto intro!: div_nat_eqI\<close>)
  show "(8 * c + r) div 8 = c" by (rule div_nat_eqI) (use assms in auto)
  show "(32 * q + 8 * c + r) mod 32 = 8 * c + r" by (rule mod_nat_eqI) (use assms in auto)
  show "(32 * q + 8 * c + r) mod 16 = 8 * (c mod 2) + r"
    using cs by cases (use assms in \<open>auto intro!: mod_nat_eqI\<close>)
  show "(32 * q + 8 * c + r) mod 8 = r" "(8 * c + r) mod 8 = r"
    by (rule mod_nat_eqI; use assms in auto)+
qed

lemma xor_16_digits:
  assumes a: "r < 8" "c < 4"
  shows "(32 * q + 8 * c + r) XOR 16 = 32 * q + 8 * ((c + 2) mod 4) + (r::nat)"
proof -
  consider "c = 0" | "c = 1" | "c = 2" | "c = 3" using a by linarith
  then show ?thesis unfolding xor_16_eq digits_32_8 [OF a] by cases auto
qed
lemma xor_16_digits_mod: "r < 8 \<Longrightarrow> c < 4 \<Longrightarrow> (c + 2) mod 4 < (4::nat)"
  by simp

lemma xor_16_self: "((nr::nat) XOR 16) XOR 16 = nr"
proof (cases nr rule: nat_32_8_cases)
  case (1 q c r)
  then have "((c + 2) mod 4 + 2) mod 4 = c" by presburger
  with 1 show ?thesis by (simp only: xor_16_digits mod_less_divisor zero_less_numeral)
qed

lemma xor_16_inj [simp]: "(a::nat) XOR 16 = b XOR 16 \<longleftrightarrow> a = b"
  using xor_16_self [of a] xor_16_self [of b] by metis

lemma xor_16_less:
  assumes "4 dvd n" and "nr < 8 * (n::nat)"
  shows "nr XOR 16 < 8 * n"
proof -
  obtain l where l: "n = 4 * l" using assms(1) by (auto elim: dvdE)
  obtain q c r where d: "r < 8" "c < 4" "nr = 32 * q + 8 * c + r" by (rule nat_32_8_cases)
  have "(c + 2) mod 4 \<le> 3" by simp
  moreover have "q < l" using assms(2) l d by linarith
  ultimately show ?thesis using l d(1) unfolding d(3) xor_16_digits [OF d(1,2)] by linarith
qed

lemma bit_be16_at:
  "k < 16 \<Longrightarrow> bit (be16_at d i) k = bit (d ! (2 * i + (if k < 8 then 1 else 0))) (k mod 8)"
proof -
  assume k: "k < 16"
  have hi: "8 \<le> k \<Longrightarrow> k mod 8 = k - 8" using k by (simp add: mod_if)
  show ?thesis
    using k hi bit_imp_le_length [of "d ! (2 * i + 1)" k]
    by (cases "k < 8") (auto simp: be16_at_def bit_simps)
qed

lemma minix_test_bit_alt: "minix_test_bit nr d = bit (be16_at d (nr div 16)) (nr mod 16)"
  by (auto simp: minix_test_bit_def bit_iff_and_push_bit_not_eq_0 push_bit_of_1)

text \<open>
  The exclusive-or with 16 is right: the shorts the test routine reads are the halves of
  the words the kernel's operations modify, in swapped order.
\<close>

lemma minix_test_bit_long: "minix_test_bit nr d = long_bit d (nr XOR 16)"
proof -
  obtain q c r where d: "r < 8" "c < 4" and nr: "nr = 32 * q + 8 * c + r" by (rule nat_32_8_cases)
  note x = xor_16_digits [OF d]
  have c2: "(c + 2) mod 4 < 4" by simp
  consider "c = 0" | "c = 1" | "c = 2" | "c = 3" using d(2) by linarith
  then have idx: "2 * (nr div 16) + (if nr mod 16 < 8 then 1 else 0) =
        long_index (nr XOR 16)"
    unfolding long_index_def nr x digits_32_8 [OF d] digits_32_8 [OF d(1) c2] by cases (use d in auto)
  have "(nr XOR 16) mod 8 = nr mod 16 mod 8"
    unfolding nr x digits_32_8 [OF d] digits_32_8 [OF d(1) c2] using d by simp
  then show ?thesis
    by (simp add: minix_test_bit_alt bit_be16_at long_bit_def idx)
qed

lemma be16_ones: "be16_at d i = 0xffff \<Longrightarrow> k < 16 \<Longrightarrow> bit (be16_at d i) k"
proof -
  assume "be16_at d i = 0xffff" and k: "k < 16"
  moreover have "(0xffff :: u16) = - 1" by simp
  ultimately have "be16_at d i = - 1" by simp
  then show ?thesis using k by (simp add: bit_simps)
qed

context long_bitops
begin

text \<open>
  What the scan returns when it starts at short \<open>p\<close> with exactly the shorts of the buffer
  left to look at: the first clear bit from there on, or the end of the buffer.
\<close>

lemma be16_scan_stop:
  assumes "\<not> length d < 2 * p + 2" and "be16_at d p \<noteq> 0xffff"
  shows "be16_scan ffz d p sz = Ret (16 * p + ffz (be16_at d p))"
    and "16 * p + ffz (be16_at d p) < 8 * length d"
    and "\<not> minix_test_bit (16 * p + ffz (be16_at d p)) d"
    and "16 * p \<le> m \<Longrightarrow> m < 16 * p + ffz (be16_at d p) \<Longrightarrow> minix_test_bit m d"
proof -
  let ?z = "ffz (be16_at d p)"
  have z: "?z < 16" using assms(2) by (rule ffz_bound)
  show "be16_scan ffz d p sz = Ret (16 * p + ?z)"
    using assms by (simp add: be16_scan.simps)
  show "16 * p + ?z < 8 * length d" using assms(1) z by linarith
  show "\<not> minix_test_bit (16 * p + ?z) d"
    using z ffz_zero [OF assms(2)] by (simp add: minix_test_bit_alt)
  assume m: "16 * p \<le> m" "m < 16 * p + ?z"
  then have "m div 16 = p" "m mod 16 = m - 16 * p"
    using z by (auto intro: div_nat_eqI mod_nat_eqI)
  then show "minix_test_bit m d"
    using m ffz_lowest [OF assms(2), of "m - 16 * p"] by (simp add: minix_test_bit_alt)
qed

lemma be16_ones_test:
  assumes "be16_at d p = 0xffff" and "16 * p \<le> m" and "m < 16 * p + 16"
  shows "minix_test_bit m d"
proof -
  have "m div 16 = p" using assms(2,3) by (auto intro: div_nat_eqI)
  then show ?thesis using be16_ones [OF assms(1), of "m mod 16"] by (simp add: minix_test_bit_alt)
qed

lemma be16_scan_first_zero:
  assumes "2 * (p + n) = length d" and "n = unat sz" and "0 < n"
  shows "\<exists>k. be16_scan ffz d p sz = Ret k \<and> k \<le> 8 * length d \<and>
           (\<forall>m. 16 * p \<le> m \<and> m < k \<longrightarrow> minix_test_bit m d) \<and>
           (k < 8 * length d \<longrightarrow> \<not> minix_test_bit k d)"
  using assms
proof (induction n arbitrary: p sz)
  case 0
  then show ?case by simp
next
  case (Suc n)
  then have inb: "\<not> length d < 2 * p + 2" by simp
  note scan = be16_scan.simps [of ffz d p sz]
  have dec: "unat (sz - 1) = n"
    using Suc.prems(2) unat_minus_one [of sz] by force
  consider (stop) "be16_at d p \<noteq> 0xffff" | (last) "be16_at d p = 0xffff" "n = 0"
    | (more) "be16_at d p = 0xffff" "0 < n" by auto
  then show ?case
  proof cases
    case stop
    then show ?thesis using be16_scan_stop [OF inb] less_imp_le by blast
  next
    case last
    then have "be16_scan ffz d p sz = Ret (16 * p + 16)"
      using inb dec by (subst scan) (simp add: unat_eq_zero)
    moreover have "16 * p + 16 = 8 * length d" using Suc.prems(1) last(2) by simp
    ultimately show ?thesis using be16_ones_test [OF last(1)] by auto
  next
    case more
    have "2 * (p + 1 + n) = length d" using Suc.prems(1) by simp
    from Suc.IH [OF this dec [symmetric] more(2)] obtain k where
      k: "be16_scan ffz d (p + 1) (sz - 1) = Ret k" "k \<le> 8 * length d"
        "\<forall>m. 16 * (p + 1) \<le> m \<and> m < k \<longrightarrow> minix_test_bit m d"
        "k < 8 * length d \<longrightarrow> \<not> minix_test_bit k d" by blast
    have "sz - 1 \<noteq> 0" using dec more(2) by auto
    then have "be16_scan ffz d p sz = Ret k" using more(1) inb k(1) by (simp add: scan)
    moreover have "minix_test_bit m d" if "16 * p \<le> m" "m < k" for m
      using be16_ones_test [OF more(1) that(1)] k(3) that by (cases "m < 16 * p + 16") auto
    ultimately show ?thesis using k(2,4) by blast
  qed
qed

lemma be16_find_first_zero:
  assumes "map_ok d"
  shows "\<exists>k. minix_find_first_zero_bit ffz d (of_nat (8 * length d)) = Ret k \<and> k \<le> 8 * length d \<and>
           (\<forall>m < k. minix_test_bit m d) \<and> (k < 8 * length d \<longrightarrow> \<not> minix_test_bit k d)"
proof -
  let ?n = "of_nat (8 * length d) :: u32"
  have len: "0 < length d" "4 dvd length d" "length d \<le> 4096" using assms by (auto simp: map_ok_def)
  then have "unat ?n = 8 * length d" by (simp add: unat_of_nat_small del: of_nat_mult)
  then have half: "unat (drop_bit 4 ?n) = length d div 2" and nz: "?n \<noteq> 0"
    using len by (auto simp: unat_drop_bit_u32 simp del: of_nat_mult)
  obtain q where q: "length d = 4 * q" using len(2) by (rule dvdE)
  then have "0 < q" using len(1) by linarith
  with q have "2 * (0 + length d div 2) = length d" "0 < length d div 2" by simp_all
  from be16_scan_first_zero [OF this(1) half [symmetric] this(2)] nz show ?thesis
    by (simp add: minix_find_first_zero_bit_def del: of_nat_mult)
qed

end

sublocale long_bitops \<subseteq> be16: minix_bitmap "be16_bitops ffz kset ktas ktac"
proof (unfold_locales, goal_cases)
  case (1 d)
  then show ?case using be16_find_first_zero [OF 1(1)] by (auto simp: be16_bitops_def)
next
  case (2 d)
  then show ?case using be16_find_first_zero [OF 2(1)] by (auto simp: be16_bitops_def)
next
  case (3 d m)
  then show ?case using be16_find_first_zero [OF 3(1)] by (auto simp: be16_bitops_def)
qed (auto simp: be16_bitops_def minix_set_bit_def minix_test_and_set_bit_def
      minix_test_and_clear_bit_def minix_test_bit_long kset_bit kset_length ktas_eq ktac_fst
      ktac_bit map_ok_def xor_16_less)

subsection \<open>A word family for the 16-bit routines\<close>

lemma long_index_less: "4 dvd n \<Longrightarrow> nr < 8 * n \<Longrightarrow> long_index nr < n"
proof (elim dvdE)
  fix k
  assume "nr < 8 * n" and n: "n = 4 * k"
  then have "nr div 32 < k" by auto
  then show ?thesis by (simp add: long_index_def n)
qed

lemma long_index_inj:
  assumes "long_index a = long_index b" and "a mod 8 = b mod 8"
  shows "a = b"
proof -
  obtain q c r where a: "r < 8" "c < 4" "a = 32 * q + 8 * c + r" by (rule nat_32_8_cases)
  obtain q' c' r' where b: "r' < 8" "c' < 4" "b = 32 * q' + 8 * c' + r'" by (rule nat_32_8_cases)
  have eq: "4 * q + (3 - c) = 4 * q' + (3 - c')" and r: "r = r'"
    using assms unfolding long_index_def a(3) b(3) digits_32_8 [OF a(1,2)] digits_32_8 [OF b(1,2)]
    by auto
  have q: "q = q'" using eq by linarith
  with eq have "c = c'" using a(2) b(2) by linarith
  with q r a(3) b(3) show ?thesis by simp
qed

lemma long_bit_assign:
  assumes "map_ok d" and "k < 8 * length d"
  shows "long_bit (long_assign_bit v k d) m = (if m = k then v else long_bit d m)"
proof (cases "long_index m = long_index k")
  case True
  have "long_index k < length d" using assms by (simp add: map_ok_def long_index_less)
  then show ?thesis using True long_index_inj [OF True]
    by (auto simp: long_bit_def long_assign_bit_def Let_def bit_set_mask bit_clear_mask)
next
  case False
  then have "m \<noteq> k" by auto
  with False show ?thesis by (simp add: long_bit_def long_assign_bit_def Let_def)
qed

lemma length_long_assign_bit [simp]: "length (long_assign_bit v k d) = length d"
  by (simp add: long_assign_bit_def Let_def)

lemma low_zero16_less:
  assumes "w \<noteq> 0xffff"
  shows "low_zero16 w < 16"
proof (rule ccontr)
  assume "\<not> low_zero16 w < 16"
  then have "\<forall>n < 16. bit w n" by (auto simp: low_zero16_def intro: takeWhile_upt_less [where n = 16])
  then have "w = - 1" by (auto intro!: bit_word_eqI)
  then show False using assms by simp
qed

interpretation ref_long: long_bitops low_zero16 "long_assign_bit True"
  "\<lambda>nr d. (long_bit d nr, long_assign_bit True nr d)"
  "\<lambda>nr d. (long_bit d nr, long_assign_bit False nr d)"
proof (unfold_locales, goal_cases)
  case (1 w)
  then show ?case by (rule low_zero16_less)
next
  case (2 w)
  then show ?case using low_zero16_less takeWhile_upt_stop by (auto simp: low_zero16_def)
next
  case (3 w k)
  then show ?case by (auto simp: low_zero16_def dest: takeWhile_upt_less)
qed (auto simp: long_bit_assign)

text \<open>The words of a big-endian machine serve the native family as well.\<close>

interpretation be_words: native_words long_bit "\<lambda>d n. length (takeWhile (long_bit d) [0..<n])" "long_assign_bit True"
  "\<lambda>nr d. (long_bit d nr, long_assign_bit True nr d)" "\<lambda>nr d. (long_bit d nr, long_assign_bit False nr d)"
  "\<lambda>nr d. long_bit d nr"
  by unfold_locales (auto simp: long_bit_assign)

end
