(* ===== verification/Kern_State.thy ===== *)
theory Kern_State
  imports Minix_Bitops
begin

text \<open>
  The data structures of \<^verbatim>\<open>kern/aufs.h\<close> and the in-core state the module works on.

  The module keeps its data in kernel objects: buffer heads (one per disk block, found by
  block number), in-core inodes (found by inode number) and page-cache pages (found by
  inode number and page index). The state \<open>fs\<close> holds these three stores and the fields of
  the mounted super block; a pointer of the C code is the key into its store. The kernel's
  own functions are parameters of the definitions that call them.
\<close>

subsection \<open>Constants\<close>

definition AUFS_MAGIC :: u64 where [layout_defs]: "AUFS_MAGIC = 0x13131313"
definition AUFS_DIR_SIZE :: nat where [layout_defs]: "AUFS_DIR_SIZE = 64"
definition AUFS_NAME_LEN :: nat where [layout_defs]: "AUFS_NAME_LEN = 60"
definition ZONE_PTR_IN_INODE_NUM :: nat where [layout_defs]: "ZONE_PTR_IN_INODE_NUM = 9"

text \<open>The page size of the machine and the size of \<^verbatim>\<open>struct aufs_disk_inode\<close>.\<close>

abbreviation PAGE_SIZE :: nat where "PAGE_SIZE \<equiv> 4096"
abbreviation PAGE_SHIFT :: nat where "PAGE_SHIFT \<equiv> 12"
abbreviation sizeof_disk_inode :: nat where "sizeof_disk_inode \<equiv> 64"

subsection \<open>On-disk structures\<close>

text \<open>\<^verbatim>\<open>struct aufs_disk_super_block\<close>: seven big-endian words at the start of block 0.\<close>

record aufs_disk_super_block =
  dsb_magic :: u32
  dsb_block_size :: u32
  dsb_root_inode :: u32
  dsb_inode_blocks :: u32
  dsb_inode_map_blocks :: u32
  dsb_zone_map_blocks :: u32
  dsb_alignment_num_blocks :: u32

definition read_disk_super :: "bytes \<Rightarrow> aufs_disk_super_block" where
  "read_disk_super d =
     \<lparr>dsb_magic = be32_at d 0, dsb_block_size = be32_at d 4, dsb_root_inode = be32_at d 8,
      dsb_inode_blocks = be32_at d 12, dsb_inode_map_blocks = be32_at d 16,
      dsb_zone_map_blocks = be32_at d 20, dsb_alignment_num_blocks = be32_at d 24\<rparr>"

text \<open>\<^verbatim>\<open>struct aufs_disk_inode\<close>: 64 bytes, all fields big-endian.\<close>

record aufs_disk_inode =
  di_zone_ptr :: "u32 list"
  di_blocks :: u32
  di_size :: u32
  di_gid :: u32
  di_uid :: u32
  di_mode :: u32
  di_ctime :: u64

definition read_disk_inode :: "bytes \<Rightarrow> nat \<Rightarrow> aufs_disk_inode" where
  "read_disk_inode d off =
     \<lparr>di_zone_ptr = map (\<lambda>i. be32_at d (off + 4 * i)) [0..<ZONE_PTR_IN_INODE_NUM],
      di_blocks = be32_at d (off + 36), di_size = be32_at d (off + 40),
      di_gid = be32_at d (off + 44), di_uid = be32_at d (off + 48),
      di_mode = be32_at d (off + 52), di_ctime = be64_at d (off + 56)\<rparr>"

definition disk_inode_enc :: "aufs_disk_inode \<Rightarrow> bytes" where
  "disk_inode_enc di =
     concat (map be32_enc (di_zone_ptr di)) @ be32_enc (di_blocks di) @ be32_enc (di_size di) @
     be32_enc (di_gid di) @ be32_enc (di_uid di) @ be32_enc (di_mode di) @ be64_enc (di_ctime di)"

subsection \<open>In-core structures\<close>

record aufs_super_block =
  asb_magic :: u64
  asb_inode_blocks :: u64
  asb_zone_size :: u64
  asb_root_inode :: u64
  asb_inodes_in_block :: u64
  asb_inode_map_blocks :: u64
  asb_zone_map_blocks :: u64
  asb_blocks_per_zone :: u64
  asb_alignment_num_blocks :: u64
  s_zmap :: "nat list"
  s_imap :: "nat list"
  s_sbh :: nat

text \<open>The operation tables an inode can be given.\<close>

datatype inode_ops = No_inode_ops | minix_file_inode_operations | aufs_dir_inode_ops
datatype file_ops = No_file_ops | aufs_file_ops | aufs_dir_ops
datatype aspace_ops = No_aops | aufs_aops

text \<open>\<^verbatim>\<open>struct aufs_inode\<close>: the zone pointers and the fields of the embedded VFS inode in use.\<close>

record aufs_inode =
  ai_zone_ptr :: "u64 list"
  i_ino :: u64
  i_mode :: u16
  i_size :: nat
  i_blocks :: u64
  i_uid :: u32
  i_gid :: u32
  i_nlink :: u32
  i_ctime :: u64
  i_mtime :: u64
  i_atime :: u64
  i_op :: inode_ops
  i_fop :: file_ops
  a_ops :: aspace_ops
  i_dirty :: bool

record fs =
  s_blocksize :: u64
  s_fs_info :: aufs_super_block
  b_data :: "nat \<Rightarrow> bytes"
  b_dirty :: "nat \<Rightarrow> bool"
  icache :: "nat \<rightharpoonup> aufs_inode"
  pages :: "nat \<Rightarrow> nat \<Rightarrow> bytes"

subsection \<open>The kernel's functions\<close>

text \<open>
  The functions of the kernel the module calls and whose code is not part of the repository.
  A failure the kernel may report is a value of the field; what a property needs of a field
  beyond its type is a hypothesis of that property.

  \<^item> \<open>k_bits\<close>: the bitmap macros of \<^verbatim>\<open>minix.h\<close>;
  \<^item> \<open>k_new_inode\<close>: the object \<^verbatim>\<open>new_inode\<close> returns, \<open>None\<close> for a null pointer;
  \<^item> \<open>k_init_owner\<close>: \<^verbatim>\<open>inode_init_owner\<close>; \<open>k_time\<close>: \<^verbatim>\<open>current_time\<close>;
  \<^item> \<open>k_bread\<close>: whether \<^verbatim>\<open>sb_bread\<close> of a block succeeds;
  \<^item> \<open>k_sync_error\<close>: whether synchronous write-back of a buffer ends in an I/O error;
  \<^item> \<open>k_high2lowuid\<close>, \<open>k_high2lowgid\<close>: \<^verbatim>\<open>fs_high2lowuid\<close> and \<^verbatim>\<open>fs_high2lowgid\<close>;
  \<^item> \<open>k_iget\<close>: the object \<^verbatim>\<open>iget_locked\<close> allocates for an inode number that is not cached;
  \<^item> \<open>k_write_begin\<close>: \<^verbatim>\<open>__block_write_begin\<close>, with the block mapping callback, the inode,
    the position and the length as arguments; \<open>k_pagecache_write_begin\<close>: the same for
    \<^verbatim>\<open>block_write_begin\<close>; \<open>k_read_full_page\<close>, \<open>k_write_full_page\<close>: \<^verbatim>\<open>block_read_full_page\<close>
    and \<^verbatim>\<open>block_write_full_page\<close> on a page of an inode;
  \<^item> \<open>k_truncate_pagecache\<close>: \<^verbatim>\<open>truncate_pagecache\<close>;
  \<^item> \<open>k_read_page\<close>: the error number of \<^verbatim>\<open>read_mapping_page\<close>, 0 for success;
  \<^item> \<open>k_grab_page\<close>: whether \<^verbatim>\<open>grab_cache_page\<close> returns a page;
  \<^item> \<open>k_dirsync\<close>, \<open>k_write_page\<close>: \<^verbatim>\<open>IS_DIRSYNC\<close> and the result of \<^verbatim>\<open>write_one_page\<close>;
  \<^item> \<open>k_valid_dev\<close>: \<^verbatim>\<open>old_valid_dev\<close>; \<open>k_iput\<close>: \<^verbatim>\<open>iput\<close>; \<open>k_d_tmpfile\<close>: \<^verbatim>\<open>d_tmpfile\<close>.
\<close>

text \<open>
  A block mapping callback: from the file block, the buffer size and the create flag to the
  error number, the disk block the buffer was mapped to (if any) and the new state.
\<close>

type_synonym get_block = "u64 \<Rightarrow> u64 \<Rightarrow> bool \<Rightarrow> fs \<Rightarrow> (int \<times> u64 option \<times> fs) cres"

record kapi =
  k_bits :: bitops
  k_new_inode :: "aufs_inode option"
  k_init_owner :: "aufs_inode \<Rightarrow> aufs_inode \<Rightarrow> u16 \<Rightarrow> aufs_inode"
  k_time :: u64
  k_bread :: "nat \<Rightarrow> bool"
  k_sync_error :: "nat \<Rightarrow> bool"
  k_high2lowuid :: "u32 \<Rightarrow> u32"
  k_high2lowgid :: "u32 \<Rightarrow> u32"
  k_iget :: "nat \<Rightarrow> aufs_inode option"
  k_write_begin :: "get_block \<Rightarrow> nat \<Rightarrow> nat \<Rightarrow> nat \<Rightarrow> fs \<Rightarrow> (int \<times> fs) cres"
  k_pagecache_write_begin :: "get_block \<Rightarrow> nat \<Rightarrow> nat \<Rightarrow> nat \<Rightarrow> fs \<Rightarrow> (int \<times> fs) cres"
  k_read_full_page :: "get_block \<Rightarrow> nat \<Rightarrow> nat \<Rightarrow> fs \<Rightarrow> (int \<times> fs) cres"
  k_write_full_page :: "get_block \<Rightarrow> nat \<Rightarrow> nat \<Rightarrow> fs \<Rightarrow> (int \<times> fs) cres"
  k_truncate_pagecache :: "nat \<Rightarrow> nat \<Rightarrow> fs \<Rightarrow> fs"
  k_read_page :: "nat \<Rightarrow> nat \<Rightarrow> int"
  k_grab_page :: "nat \<Rightarrow> nat \<Rightarrow> bool"
  k_dirsync :: "nat \<Rightarrow> bool"
  k_write_page :: "nat \<Rightarrow> nat \<Rightarrow> int"
  k_valid_dev :: "u32 \<Rightarrow> bool"
  k_iput :: "nat \<Rightarrow> fs \<Rightarrow> fs"
  k_d_tmpfile :: "nat \<Rightarrow> fs \<Rightarrow> fs"

subsection \<open>Inline functions of the header\<close>

definition AUFS_SB :: "fs \<Rightarrow> aufs_super_block" where
  "AUFS_SB sb = s_fs_info sb"

definition aufs_inode_block :: "aufs_super_block \<Rightarrow> u64 \<Rightarrow> u64" where
  "aufs_inode_block asb inode_no =
     1 + asb_inode_map_blocks asb + asb_zone_map_blocks asb + inode_no div asb_inodes_in_block asb"

definition aufs_inode_offset :: "aufs_super_block \<Rightarrow> u64 \<Rightarrow> u64" where
  "aufs_inode_offset asb inode_no = 64 * (inode_no mod asb_inodes_in_block asb)"

subsection \<open>Buffer and inode stores\<close>

text \<open>Writing a buffer's data and \<^verbatim>\<open>mark_buffer_dirty\<close>.\<close>

definition put_buffer :: "nat \<Rightarrow> bytes \<Rightarrow> fs \<Rightarrow> fs" where
  "put_buffer bh d st = st\<lparr>b_data := (b_data st)(bh := d)\<rparr>"

definition mark_buffer_dirty :: "nat \<Rightarrow> fs \<Rightarrow> fs" where
  "mark_buffer_dirty bh st = st\<lparr>b_dirty := (b_dirty st)(bh := True)\<rparr>"

definition put_inode :: "nat \<Rightarrow> aufs_inode \<Rightarrow> fs \<Rightarrow> fs" where
  "put_inode k ino st = st\<lparr>icache := (icache st)(k \<mapsto> ino)\<rparr>"

definition put_page :: "nat \<Rightarrow> nat \<Rightarrow> bytes \<Rightarrow> fs \<Rightarrow> fs" where
  "put_page k n d st = st\<lparr>pages := (pages st)(k := (pages st k)(n := d))\<rparr>"

text \<open>
  What the mount code establishes for the super block fields (\<open>Kern_Super\<close>): every field is
  the value of a 32-bit word, the inode count per block is 64, zones have at least one block,
  and the buffer lists of the two bitmaps have the lengths the fields say.
\<close>

definition asb_ok :: "aufs_super_block \<Rightarrow> bool" where
  "asb_ok asb \<longleftrightarrow>
     unat (asb_inode_blocks asb) < 2 ^ 32 \<and> unat (asb_inode_map_blocks asb) < 2 ^ 32 \<and>
     unat (asb_zone_map_blocks asb) < 2 ^ 32 \<and> unat (asb_alignment_num_blocks asb) < 2 ^ 32 \<and>
     0 < unat (asb_alignment_num_blocks asb) \<and>
     0 < unat (asb_blocks_per_zone asb) \<and> unat (asb_blocks_per_zone asb) \<le> 2 ^ 20 \<and>
     asb_inodes_in_block asb = 64 \<and>
     length (s_zmap asb) = unat (asb_zone_map_blocks asb) \<and>
     length (s_imap asb) = unat (asb_inode_map_blocks asb)"

text \<open>Where the record of an inode lies, as numbers.\<close>

definition inode_blk :: "aufs_super_block \<Rightarrow> nat \<Rightarrow> nat" where
  "inode_blk asb no =
     1 + unat (asb_inode_map_blocks asb) + unat (asb_zone_map_blocks asb) + no div 64"

definition inode_off :: "nat \<Rightarrow> nat" where
  "inode_off no = 64 * (no mod 64)"

subsection \<open>Frame facts of the stores\<close>

lemma put_buffer_sel [simp]:
  "b_data (put_buffer bh d st) = (b_data st)(bh := d)" "b_dirty (put_buffer bh d st) = b_dirty st"
  "s_blocksize (put_buffer bh d st) = s_blocksize st" "s_fs_info (put_buffer bh d st) = s_fs_info st"
  "icache (put_buffer bh d st) = icache st" "pages (put_buffer bh d st) = pages st"
  by (simp_all add: put_buffer_def)

lemma mark_buffer_dirty_sel [simp]:
  "b_data (mark_buffer_dirty bh st) = b_data st"
  "b_dirty (mark_buffer_dirty bh st) = (b_dirty st)(bh := True)"
  "s_blocksize (mark_buffer_dirty bh st) = s_blocksize st"
  "s_fs_info (mark_buffer_dirty bh st) = s_fs_info st"
  "icache (mark_buffer_dirty bh st) = icache st" "pages (mark_buffer_dirty bh st) = pages st"
  by (simp_all add: mark_buffer_dirty_def)

lemma put_inode_sel [simp]:
  "b_data (put_inode k ino st) = b_data st" "b_dirty (put_inode k ino st) = b_dirty st"
  "s_blocksize (put_inode k ino st) = s_blocksize st" "s_fs_info (put_inode k ino st) = s_fs_info st"
  "icache (put_inode k ino st) = (icache st)(k \<mapsto> ino)" "pages (put_inode k ino st) = pages st"
  by (simp_all add: put_inode_def)

lemma put_page_sel [simp]:
  "b_data (put_page k n d st) = b_data st" "b_dirty (put_page k n d st) = b_dirty st"
  "s_blocksize (put_page k n d st) = s_blocksize st" "s_fs_info (put_page k n d st) = s_fs_info st"
  "icache (put_page k n d st) = icache st"
  "pages (put_page k n d st) = (pages st)(k := (pages st k)(n := d))"
  by (simp_all add: put_page_def)

subsection \<open>The disk inode codec\<close>

lemma length_concat_be32 [simp, codec_simps]: "length (concat (map be32_enc ws)) = 4 * length ws"
  by (induction ws) simp_all

lemma length_disk_inode_enc [codec_simps]:
  "length (di_zone_ptr di) = ZONE_PTR_IN_INODE_NUM \<Longrightarrow> length (disk_inode_enc di) = sizeof_disk_inode"
  by (simp add: disk_inode_enc_def ZONE_PTR_IN_INODE_NUM_def)

lemma be32_at_concat:
  "i < length ws \<Longrightarrow> be32_at (concat (map be32_enc ws) @ ys) (4 * i) = ws ! i"
proof (induction ws arbitrary: i)
  case Nil
  then show ?case by simp
next
  case (Cons w ws)
  show ?case
  proof (cases i)
    case 0
    then show ?thesis by (simp add: be32_at_enc_append)
  next
    case (Suc i')
    then show ?thesis
      using Cons.IH [of i'] Cons.prems by (simp add: be32_at_append)
  qed
qed

lemma read_disk_inode_enc:
  assumes "length (di_zone_ptr di) = ZONE_PTR_IN_INODE_NUM"
  shows "read_disk_inode (disk_inode_enc di) 0 = di"
proof -
  have len: "length (di_zone_ptr di) = 9" using assms by (simp add: ZONE_PTR_IN_INODE_NUM_def)
  have "map (\<lambda>i. be32_at (disk_inode_enc di) (4 * i)) [0..<ZONE_PTR_IN_INODE_NUM] = di_zone_ptr di"
    using assms by (intro nth_equalityI) (simp_all add: disk_inode_enc_def be32_at_concat)
  then show ?thesis
    using len
    by (simp add: read_disk_inode_def) (simp add: disk_inode_enc_def codec_simps)
qed

text \<open>A disk inode written into a block is read back from there.\<close>

lemma read_disk_inode_blit:
  assumes "length (di_zone_ptr di) = ZONE_PTR_IN_INODE_NUM"
    and "off + sizeof_disk_inode \<le> length d"
  shows "read_disk_inode (blit off (disk_inode_enc di) d) off = di"
proof -
  have len: "length (disk_inode_enc di) = 64" using assms(1) by (rule length_disk_inode_enc)
  have "read_disk_inode (blit off (disk_inode_enc di) d) off = read_disk_inode (disk_inode_enc di) 0"
    using assms(2) be32_at_blit_inside [of off "disk_inode_enc di" d 0]
    by (simp add: read_disk_inode_def be32_at_blit_inside be64_at_blit_inside len
        ZONE_PTR_IN_INODE_NUM_def)
  then show ?thesis using read_disk_inode_enc [OF assms(1)] by simp
qed

text \<open>Writing one disk inode leaves every other record of the block alone.\<close>

lemma read_disk_inode_blit_other:
  assumes "off + length src \<le> length d" and "o2 + sizeof_disk_inode \<le> length d"
    and "o2 + sizeof_disk_inode \<le> off \<or> off + length src \<le> o2"
  shows "read_disk_inode (blit off src d) o2 = read_disk_inode d o2"
  using assms
  by (auto simp: read_disk_inode_def be32_at_blit_other be64_at_blit_other ZONE_PTR_IN_INODE_NUM_def)

subsection \<open>Inode records do not overlap\<close>

lemma unat_inode_location:
  assumes "asb_ok asb" and "no < 2147483648"
  shows "unat (aufs_inode_block asb (of_nat no)) = inode_blk asb no"
    and "unat (aufs_inode_offset asb (of_nat no)) = inode_off no"
proof -
  note b = assms(1) [unfolded asb_ok_def, simplified]
  have no: "unat (of_nat no :: u64) = no" using assms(2) by (intro unat_of_nat_small) simp
  have "no div 64 \<le> no" by simp
  then have "no div 64 < 2147483648" using assms(2) by (rule le_less_trans)
  then show "unat (aufs_inode_block asb (of_nat no)) = inode_blk asb no"
    using b no by (simp add: aufs_inode_block_def inode_blk_def unat_add_no_wrap unat_div)
  have "no mod 64 < 64" by simp
  then show "unat (aufs_inode_offset asb (of_nat no)) = inode_off no"
    using b no by (simp add: aufs_inode_offset_def inode_off_def unat_mult_no_wrap unat_mod)
qed

lemma inode_off_less: "inode_off no + sizeof_disk_inode \<le> 4096"
proof -
  have "no mod 64 < 64" by simp
  then show ?thesis unfolding inode_off_def by linarith
qed

lemma inode_location_inj:
  "inode_blk asb a = inode_blk asb b \<Longrightarrow> inode_off a = inode_off b \<Longrightarrow> a = b"
  by (simp add: inode_blk_def inode_off_def) (metis div_mult_mod_eq)

lemma inode_off_disjoint:
  "inode_off a \<noteq> inode_off b \<Longrightarrow>
     inode_off a + sizeof_disk_inode \<le> inode_off b \<or> inode_off b + sizeof_disk_inode \<le> inode_off a"
  by (auto simp: inode_off_def)

end
