(* ===== verification/Kern_Bitmap.thy ===== *)
theory Kern_Bitmap
  imports Kern_State
begin

text \<open>
  The zone and inode allocators of \<^verbatim>\<open>kern/bitmap.c\<close>. Both look for the first zero bit over
  the buffers of a bitmap. The abstract view of such a bitmap is the set of its used bits
  (\<open>area_used\<close>); the allocators are shown to take the least unused number, to mark exactly
  that one, and to fail exactly when every number is used.
\<close>

subsection \<open>The routines\<close>

definition integer_round_up_division :: "u64 \<Rightarrow> u64 \<Rightarrow> u64" where
  "integer_round_up_division dividend divisor = (dividend + divisor - 1) div divisor"

definition bits_per_block :: "fs \<Rightarrow> u32" where
  "bits_per_block st = ucast (8 * s_blocksize st)"

text \<open>The block a zone number stands for: the expression \<^verbatim>\<open>aufs_new_zone\<close> returns.\<close>

definition zone_block :: "aufs_super_block \<Rightarrow> u64 \<Rightarrow> u64" where
  "zone_block sbi j =
     j * asb_blocks_per_zone sbi +
     integer_round_up_division
       (1 + asb_inode_map_blocks sbi + asb_zone_map_blocks sbi + asb_inode_blocks sbi +
        1 * asb_blocks_per_zone sbi)
       (asb_alignment_num_blocks sbi) * asb_alignment_num_blocks sbi"

text \<open>
  The loop of \<^verbatim>\<open>aufs_new_zone\<close> over the buffers \<open>s_zmap[i], s_zmap[i+1], ...\<close>; \<open>i\<close> and \<open>j\<close>
  are C ints, and the returned block number is converted to int.
\<close>

fun new_zone_loop :: "bitops \<Rightarrow> fs \<Rightarrow> u32 \<Rightarrow> nat list \<Rightarrow> (u32 \<times> fs) cres" where
  "new_zone_loop bo st i [] = Ret (0, st)"
| "new_zone_loop bo st i (bh # bhs) =
     (let bits = bits_per_block st;
          j = of_nat (find_first_zero bo (b_data st bh) (unat bits)) :: u32
      in if sint j < sint bits then
           let st' = mark_buffer_dirty bh (put_buffer bh (set_map_bit bo (unat j) (b_data st bh)) st);
               j' = j + i * bits
           in if sint j' < 0 then Ret (0, st')
              else if asb_alignment_num_blocks (AUFS_SB st) = 0 then Fault DivByZero
              else Ret (ucast (zone_block (AUFS_SB st) (scast j')), st')
         else new_zone_loop bo st (i + 1) bhs)"

definition aufs_new_zone :: "bitops \<Rightarrow> fs \<Rightarrow> (u32 \<times> fs) cres" where
  "aufs_new_zone bo st =
     new_zone_loop bo st 0 (take (unat (asb_zone_map_blocks (AUFS_SB st))) (s_zmap (AUFS_SB st)))"

text \<open>
  The search loop of \<^verbatim>\<open>aufs_new_inode\<close>: the first buffer with a zero bit, its index and the
  bit; \<open>None\<close> when the loop ends with \<^verbatim>\<open>bh\<close> null or \<^verbatim>\<open>j >= bits_per_block\<close>.
\<close>

fun new_inode_scan :: "bitops \<Rightarrow> fs \<Rightarrow> u32 \<Rightarrow> nat list \<Rightarrow> (u32 \<times> nat \<times> u64) option" where
  "new_inode_scan bo st i [] = None"
| "new_inode_scan bo st i (bh # bhs) =
     (let j = of_nat (find_first_zero bo (b_data st bh) (unat (bits_per_block st))) :: u64
      in if j < scast (bits_per_block st) then Some (i, bh, j)
         else new_inode_scan bo st (i + 1) bhs)"

definition init_new_inode :: "kapi \<Rightarrow> aufs_inode \<Rightarrow> aufs_inode \<Rightarrow> u16 \<Rightarrow> u64 \<Rightarrow> aufs_inode" where
  "init_new_inode k ino dir mode j =
     (k_init_owner k ino dir mode)
       \<lparr>i_ino := j, i_mtime := k_time k, i_atime := k_time k, i_ctime := k_time k, i_blocks := 0,
        ai_zone_ptr := replicate ZONE_PTR_IN_INODE_NUM 0, i_dirty := True\<rparr>"

definition aufs_new_inode ::
    "kapi \<Rightarrow> aufs_inode \<Rightarrow> u16 \<Rightarrow> fs \<Rightarrow> u64 option \<times> int \<times> fs" where
  "aufs_new_inode k dir mode st =
     (case k_new_inode k of
        None \<Rightarrow> (None, - ENOMEM, st)
      | Some ino \<Rightarrow>
          (case new_inode_scan (k_bits k) st 0
                  (take (unat (asb_inode_map_blocks (AUFS_SB st))) (s_imap (AUFS_SB st))) of
             None \<Rightarrow> (None, - ENOSPC, st)
           | Some (i, bh, j) \<Rightarrow>
               let (was, d) = test_and_set (k_bits k) (unat j) (b_data st bh);
                   st1 = put_buffer bh d st
               in if was then (None, - ENOSPC, st1)
                  else
                    let st2 = mark_buffer_dirty bh st1;
                        j' = j + scast (i * bits_per_block st)
                    in if j' = 0 then (None, - ENOSPC, st2)
                       else (Some j', 0, put_inode (unat j') (init_new_inode k ino dir mode j') st2)))"

text \<open>
  \<^verbatim>\<open>minix_V2_raw_inode\<close>: the buffer and the offset of an inode's disk record, \<open>None\<close> for a
  null pointer. Block and offset are C ints; \<^verbatim>\<open>sb_bread\<close> takes the sign-extended block.
\<close>

definition minix_V2_raw_inode :: "kapi \<Rightarrow> fs \<Rightarrow> u64 \<Rightarrow> (nat \<times> nat) option" where
  "minix_V2_raw_inode k st ino =
     (if ino = 0 then None
      else
        let block = ucast (aufs_inode_block (AUFS_SB st) ino) :: u32;
            offset = ucast (aufs_inode_offset (AUFS_SB st) ino) :: u32;
            bh = unat (scast block :: u64)
        in if k_bread k bh then Some (bh, unat offset) else None)"

subsection \<open>Bitmaps spread over several buffers\<close>

text \<open>The numbers whose bit is set in the bitmap over the buffers \<open>bhs\<close>, \<open>n\<close> bits each.\<close>

definition area_used :: "bitops \<Rightarrow> fs \<Rightarrow> nat list \<Rightarrow> nat \<Rightarrow> nat set" where
  "area_used bo st bhs n =
     {k. k < length bhs * n \<and> test_map_bit bo (b_data st (bhs ! (k div n))) (k mod n)}"

definition area_ok :: "fs \<Rightarrow> nat list \<Rightarrow> nat \<Rightarrow> bool" where
  "area_ok st bhs n \<longleftrightarrow>
     distinct bhs \<and> (\<forall>bh \<in> set bhs. map_ok (b_data st bh) \<and> 8 * length (b_data st bh) = n) \<and>
     length bhs * n < 2 ^ 31"

text \<open>The first buffer with a free bit, as a search on numbers.\<close>

fun area_find :: "bitops \<Rightarrow> fs \<Rightarrow> nat \<Rightarrow> nat \<Rightarrow> nat list \<Rightarrow> (nat \<times> nat \<times> nat) option" where
  "area_find bo st n i [] = None"
| "area_find bo st n i (bh # bhs) =
     (let j = find_first_zero bo (b_data st bh) n
      in if j < n then Some (i, bh, j) else area_find bo st n (i + 1) bhs)"

definition zone_bits :: "fs \<Rightarrow> nat" where
  "zone_bits st = 8 * unat (s_blocksize st)"

definition n_zones :: "fs \<Rightarrow> nat" where
  "n_zones st = length (s_zmap (AUFS_SB st)) * zone_bits st"

definition n_inodes :: "fs \<Rightarrow> nat" where
  "n_inodes st = length (s_imap (AUFS_SB st)) * zone_bits st"

definition used_zones :: "bitops \<Rightarrow> fs \<Rightarrow> nat set" where
  "used_zones bo st = area_used bo st (s_zmap (AUFS_SB st)) (zone_bits st)"

definition used_inodes :: "bitops \<Rightarrow> fs \<Rightarrow> nat set" where
  "used_inodes bo st = area_used bo st (s_imap (AUFS_SB st)) (zone_bits st)"

text \<open>
  The invariant of a mounted file system's bitmaps: the block size is that of the mount
  code, both bitmaps are well formed and they share no buffer.
\<close>

definition maps_ok :: "fs \<Rightarrow> bool" where
  "maps_ok st \<longleftrightarrow>
     asb_ok (AUFS_SB st) \<and> 0 < unat (s_blocksize st) \<and> unat (s_blocksize st) \<le> 4096 \<and>
     area_ok st (s_zmap (AUFS_SB st)) (zone_bits st) \<and>
     area_ok st (s_imap (AUFS_SB st)) (zone_bits st) \<and>
     set (s_zmap (AUFS_SB st)) \<inter> set (s_imap (AUFS_SB st)) = {}"

text \<open>The first block of a zone, as a number, and the start of the data region.\<close>

definition data_start :: "aufs_super_block \<Rightarrow> nat" where
  "data_start sbi =
     align_up (1 + unat (asb_inode_map_blocks sbi) + unat (asb_zone_map_blocks sbi) +
               unat (asb_inode_blocks sbi) + unat (asb_blocks_per_zone sbi))
       (unat (asb_alignment_num_blocks sbi))"

definition zone_start :: "aufs_super_block \<Rightarrow> nat \<Rightarrow> nat" where
  "zone_start sbi z = z * unat (asb_blocks_per_zone sbi) + data_start sbi"

text \<open>What an allocation leaves alone: every buffer but those of the one bitmap.\<close>

definition map_frame :: "nat list \<Rightarrow> fs \<Rightarrow> fs \<Rightarrow> bool" where
  "map_frame bhs st st' \<longleftrightarrow>
     (\<forall>bh. bh \<notin> set bhs \<longrightarrow> b_data st' bh = b_data st bh \<and> b_dirty st' bh = b_dirty st bh) \<and>
     s_fs_info st' = s_fs_info st \<and> s_blocksize st' = s_blocksize st \<and> pages st' = pages st"

subsection \<open>Facts on zone numbers\<close>

lemma unat_round_up:
  assumes "0 < unat b" and "unat a + unat b < 18446744073709551616"
  shows "unat (integer_round_up_division a b) = (unat a + unat b - 1) div unat b"
proof -
  have ab: "unat (a + b) = unat a + unat b" using assms(2) by (simp add: unat_add_no_wrap)
  then have "a + b \<noteq> 0" using assms(1) by auto
  then have "unat (a + b - 1) = unat a + unat b - 1" using ab by (simp add: unat_minus_one)
  then show ?thesis by (simp add: integer_round_up_division_def unat_div)
qed

lemma data_start_less:
  assumes "asb_ok sbi"
  shows "data_start sbi < 34359738368"
proof -
  let ?x = "1 + unat (asb_inode_map_blocks sbi) + unat (asb_zone_map_blocks sbi) +
               unat (asb_inode_blocks sbi) + unat (asb_blocks_per_zone sbi)"
  have "data_start sbi < ?x + unat (asb_alignment_num_blocks sbi)"
    unfolding data_start_def using assms by (intro align_up_less) (simp add: asb_ok_def)
  then show ?thesis using assms by (simp add: asb_ok_def)
qed

lemma unat_zone_block:
  assumes ok: "asb_ok sbi" and z: "z < 2147483648"
  shows "unat (zone_block sbi (of_nat z)) = zone_start sbi z"
proof -
  let ?bpz = "asb_blocks_per_zone sbi" and ?al = "asb_alignment_num_blocks sbi"
  let ?meta = "1 + asb_inode_map_blocks sbi + asb_zone_map_blocks sbi + asb_inode_blocks sbi + 1 * ?bpz"
  note b = ok [unfolded asb_ok_def, simplified]
  have meta: "unat ?meta = 1 + unat (asb_inode_map_blocks sbi) + unat (asb_zone_map_blocks sbi) +
      unat (asb_inode_blocks sbi) + unat ?bpz"
    using b by (simp add: unat_add_no_wrap)
  have "unat (integer_round_up_division ?meta ?al) * unat ?al = data_start sbi"
    using b meta by (simp add: unat_round_up data_start_def align_up_def)
  moreover have "data_start sbi < 34359738368" using ok by (rule data_start_less)
  ultimately have tail: "unat (integer_round_up_division ?meta ?al * ?al) = data_start sbi"
    by (simp add: unat_mult_no_wrap)
  have "z * unat ?bpz \<le> 2147483648 * 1048576" using z b by (intro mult_le_mono) simp_all
  then have prod: "unat (of_nat z * ?bpz) = z * unat ?bpz" and "z * unat ?bpz \<le> 2251799813685248"
    using z by (simp_all add: unat_mult_no_wrap unat_of_nat_small)
  then show ?thesis
    using tail \<open>data_start sbi < 34359738368\<close>
    by (simp add: zone_block_def zone_start_def unat_add_no_wrap)
qed

subsection \<open>The allocators over the contract of the bitmap macros\<close>

lemma area_dirty [simp]:
  "area_used bo (mark_buffer_dirty b st) bhs n = area_used bo st bhs n"
  "area_ok (mark_buffer_dirty b st) bhs n = area_ok st bhs n"
  by (simp_all add: area_used_def area_ok_def)

lemma area_other:
  assumes "bh \<notin> set bhs" and "0 < n"
  shows "area_used bo (put_buffer bh d st) bhs n = area_used bo st bhs n"
    and "area_ok (put_buffer bh d st) bhs n = area_ok st bhs n"
proof -
  have "bhs ! (k div n) \<noteq> bh" if "k < length bhs * n" for k
    using assms(1) that by (metis less_mult_imp_div_less nth_mem)
  then show "area_used bo (put_buffer bh d st) bhs n = area_used bo st bhs n"
    by (auto simp: area_used_def)
  show "area_ok (put_buffer bh d st) bhs n = area_ok st bhs n"
    using assms(1) by (auto simp: area_ok_def)
qed

context minix_bitmap
begin

lemma area_find_Some:
  assumes "area_find bo st n i bhs = Some (i', bh, j)"
    and "\<forall>bh \<in> set bhs. map_ok (b_data st bh) \<and> 8 * length (b_data st bh) = n"
  shows "i \<le> i' \<and> i' - i < length bhs \<and> bh = bhs ! (i' - i) \<and> j < n \<and>
         j = find_first_zero bo (b_data st bh) n \<and> \<not> test_map_bit bo (b_data st bh) j \<and>
         (\<forall>m < j. test_map_bit bo (b_data st bh) m) \<and>
         (\<forall>p < i' - i. \<forall>m < n. test_map_bit bo (b_data st (bhs ! p)) m)"
  using assms
proof (induction bhs arbitrary: i)
  case Nil
  then show ?case by simp
next
  case (Cons b bhs)
  then have b: "map_ok (b_data st b)" "8 * length (b_data st b) = n" by auto
  let ?j = "find_first_zero bo (b_data st b) n"
  show ?case
  proof (cases "?j < n")
    case True
    then show ?thesis using Cons.prems b ffz_clear [OF b(1)] ffz_least [OF b(1)]
      by (auto simp: Let_def)
  next
    case False
    have full: "\<forall>m < n. test_map_bit bo (b_data st b) m"
      using False b ffz_full [OF b(1)] by auto
    from False Cons.prems(1) have "area_find bo st n (i + 1) bhs = Some (i', bh, j)"
      by (simp add: Let_def)
    from Cons.IH [OF this] Cons.prems(2) full show ?thesis
      by (auto simp: nth_Cons' Let_def)
  qed
qed

lemma area_find_None:
  assumes "area_find bo st n i bhs = None"
    and "\<forall>bh \<in> set bhs. map_ok (b_data st bh) \<and> 8 * length (b_data st bh) = n"
  shows "\<forall>bh \<in> set bhs. \<forall>m < n. test_map_bit bo (b_data st bh) m"
  using assms
proof (induction bhs arbitrary: i)
  case Nil
  then show ?case by simp
next
  case (Cons b bhs)
  then have b: "map_ok (b_data st b)" "8 * length (b_data st b) = n" by auto
  have "n \<le> find_first_zero bo (b_data st b) n" and "area_find bo st n (i + 1) bhs = None"
    using Cons.prems(1) by (auto simp: Let_def split: if_splits)
  then show ?case using Cons.IH Cons.prems(2) b ffz_full [OF b(1)] by auto
qed

lemma area_find_full:
  assumes "area_ok st bhs n" and "area_find bo st n 0 bhs = None"
  shows "area_used bo st bhs n = {..< length bhs * n}"
proof -
  have "\<forall>bh \<in> set bhs. \<forall>m < n. test_map_bit bo (b_data st bh) m"
    using area_find_None [OF assms(2)] assms(1) by (auto simp: area_ok_def)
  moreover have "k div n < length bhs \<and> k mod n < n" if "k < length bhs * n" for k
    using that by (metis less_mult_imp_div_less mod_less_divisor mult_0_right neq0_conv not_less_zero)
  ultimately show ?thesis by (auto simp: area_used_def)
qed

lemma area_find_least:
  assumes "area_ok st bhs n" and "area_find bo st n 0 bhs = Some (i, bh, j)"
  shows "i < length bhs" and "bh = bhs ! i" and "j < n" and "i * n + j < length bhs * n"
    and "j = find_first_zero bo (b_data st bh) n"
    and "i * n + j \<notin> area_used bo st bhs n"
    and "k < i * n + j \<Longrightarrow> k \<in> area_used bo st bhs n"
proof -
  have shape: "\<forall>bh \<in> set bhs. map_ok (b_data st bh) \<and> 8 * length (b_data st bh) = n"
    using assms(1) by (simp add: area_ok_def)
  have f: "i < length bhs \<and> bh = bhs ! i \<and> j < n \<and> j = find_first_zero bo (b_data st bh) n \<and>
      \<not> test_map_bit bo (b_data st bh) j \<and> (\<forall>m < j. test_map_bit bo (b_data st bh) m) \<and>
      (\<forall>p < i. \<forall>m < n. test_map_bit bo (b_data st (bhs ! p)) m)"
    using area_find_Some [OF assms(2) shape, unfolded minus_nat.diff_0] by blast
  then show il: "i < length bhs" and bh: "bh = bhs ! i" and jn: "j < n"
    and "j = find_first_zero bo (b_data st bh) n" by blast+
  from f have clear: "\<not> test_map_bit bo (b_data st (bhs ! i)) j"
    and below: "\<forall>m < j. test_map_bit bo (b_data st (bhs ! i)) m"
    and before: "\<forall>p < i. \<forall>m < n. test_map_bit bo (b_data st (bhs ! p)) m" by blast+
  from jn have dm: "(i * n + j) div n = i" "(i * n + j) mod n = j" by auto
  show less: "i * n + j < length bhs * n"
  proof -
    have "i * n + j < (i + 1) * n" using jn by simp
    also have "\<dots> \<le> length bhs * n" using il by (intro mult_le_mono1) simp
    finally show ?thesis .
  qed
  show "i * n + j \<notin> area_used bo st bhs n" using clear dm by (simp add: area_used_def)
  assume k: "k < i * n + j"
  show "k \<in> area_used bo st bhs n"
  proof (cases "k div n < i")
    case True
    then show ?thesis using before jn k less by (auto simp: area_used_def)
  next
    case False
    have "k div n \<le> (i * n + j) div n" using k by (intro div_le_mono) simp
    with False dm have "k div n = i" by simp
    moreover from this k have "k mod n < j"
      by (metis add_less_cancel_left div_mult_mod_eq mult.commute)
    ultimately show ?thesis using below k less by (simp add: area_used_def)
  qed
qed

text \<open>Marking the bit that was found adds its number to the used set and keeps the shape.\<close>

lemma area_used_mark:
  assumes "area_ok st bhs n" and "i < length bhs" and "j < n" and "bh = bhs ! i"
  shows "area_used bo (put_buffer bh (set_map_bit bo j (b_data st bh)) st) bhs n =
           insert (i * n + j) (area_used bo st bhs n)"
proof -
  let ?st = "put_buffer bh (set_map_bit bo j (b_data st bh)) st"
  have bh: "map_ok (b_data st bh)" "8 * length (b_data st bh) = n" and dist: "distinct bhs"
    using assms by (auto simp: area_ok_def)
  have n: "0 < n" using assms(3) by simp
  have in_range: "i * n + j < length bhs * n"
    using assms(2,3) by (metis add.commute mult_Suc Suc_leI add_less_cancel_left less_le_trans mult_le_mono1)
  have "k \<in> area_used bo ?st bhs n \<longleftrightarrow> k = i * n + j \<or> k \<in> area_used bo st bhs n" for k
  proof (cases "k < length bhs * n")
    case True
    then have kd: "k div n < length bhs" by (simp add: less_mult_imp_div_less)
    have km: "k mod n < n" using n by simp
    have "bhs ! (k div n) = bh \<longleftrightarrow> k div n = i"
      using dist kd assms(2,4) by (simp add: nth_eq_iff_index_eq)
    moreover have "k = i * n + j \<longleftrightarrow> k div n = i \<and> k mod n = j"
      using assms(3) by (auto simp: div_mult_mod_eq)
    ultimately show ?thesis
      using True km bh assms(3) by (auto simp: area_used_def test_set)
  next
    case False
    then show ?thesis using in_range by (auto simp: area_used_def)
  qed
  then show ?thesis by blast
qed

lemma area_ok_mark:
  assumes "area_ok st bhs n" and "map_ok (b_data st bh)" and "8 * length (b_data st bh) = n" and "j < n"
  shows "area_ok (put_buffer bh (set_map_bit bo j (b_data st bh)) st) bhs n"
  using assms by (auto simp: area_ok_def length_set)

text \<open>With a block size up to a page the C ints of the two loops do not overflow.\<close>

lemma unat_bits_per_block:
  assumes "unat (s_blocksize st) \<le> 4096"
  shows "unat (bits_per_block st) = zone_bits st" and "zone_bits st \<le> 32768"
proof -
  show le: "zone_bits st \<le> 32768" using assms by (simp add: zone_bits_def)
  have "unat (8 * s_blocksize st) = 8 * unat (s_blocksize st)"
    using assms by (simp add: unat_mult_no_wrap)
  then have eq: "8 * s_blocksize st = of_nat (zone_bits st)"
    by (metis of_nat_unat ucast_id zone_bits_def)
  have "unat (of_nat (zone_bits st) :: u32) = zone_bits st"
    using le by (intro unat_of_nat_small) simp
  then show "unat (bits_per_block st) = zone_bits st"
    by (simp add: bits_per_block_def eq ucast_u64_u32_of_nat)
qed

lemma bits_per_block_of_nat:
  "unat (s_blocksize st) \<le> 4096 \<Longrightarrow> bits_per_block st = of_nat (zone_bits st)"
  by (metis of_nat_unat ucast_id unat_bits_per_block(1))

lemma new_zone_loop_eq:
  assumes "zone_bits st = n" and "unat (s_blocksize st) \<le> 4096"
    and "asb_alignment_num_blocks (AUFS_SB st) \<noteq> 0"
    and "\<forall>bh \<in> set bhs. map_ok (b_data st bh) \<and> 8 * length (b_data st bh) = n"
    and "(i + length bhs) * n < 2147483648"
  shows "new_zone_loop bo st (of_nat i) bhs =
    (case area_find bo st n i bhs of
       None \<Rightarrow> Ret (0, st)
     | Some (i', bh, j) \<Rightarrow>
         Ret (ucast (zone_block (AUFS_SB st) (of_nat (i' * n + j))),
              mark_buffer_dirty bh (put_buffer bh (set_map_bit bo j (b_data st bh)) st)))"
  using assms(4,5)
proof (induction bhs arbitrary: i)
  case Nil
  then show ?case by simp
next
  case (Cons b bhs)
  let ?J = "find_first_zero bo (b_data st b) n"
  note bits = unat_bits_per_block [OF assms(2), unfolded assms(1)]
  have J: "?J \<le> n" using Cons.prems(1) ffz_le by force
  have uJ: "unat (of_nat ?J :: u32) = ?J" using J bits(2) by (intro unat_of_nat_small) simp
  have sJ: "sint (of_nat ?J :: u32) = int ?J" using J bits(2) uJ by (simp add: sint_u32_small)
  have sn: "sint (bits_per_block st) = int n" using bits by (simp add: sint_u32_small)
  have step: "(i + 1 + length bhs) * n < 2147483648" using Cons.prems(2) by simp
  show ?case
  proof (cases "?J < n")
    case True
    have sum: "of_nat ?J + of_nat i * bits_per_block st = (of_nat (i * n + ?J) :: u32)"
      by (simp add: bits_per_block_of_nat assms(1,2))
    have "i * n + ?J < 2147483648" using True step by (simp add: algebra_simps)
    then have u: "unat (of_nat (i * n + ?J) :: u32) = i * n + ?J"
      and small: "unat (of_nat (i * n + ?J) :: u32) < 2147483648"
      by (simp_all add: unat_of_nat_small del: of_nat_add of_nat_mult)
    then show ?thesis
      using True assms(3) bits(1) sJ sn uJ
      by (simp add: Let_def sum sint_u32_small scast_u32_small del: of_nat_add of_nat_mult)
  next
    case False
    have "new_zone_loop bo st (of_nat i) (b # bhs) = new_zone_loop bo st (of_nat (i + 1)) bhs"
      using False bits(1) sJ sn by (simp add: Let_def add.commute)
    then show ?thesis using Cons.IH [of "i + 1"] Cons.prems(1) step False by (simp add: Let_def)
  qed
qed

lemma new_inode_scan_eq:
  assumes "zone_bits st = n" and "unat (s_blocksize st) \<le> 4096"
    and "\<forall>bh \<in> set bhs. map_ok (b_data st bh) \<and> 8 * length (b_data st bh) = n"
  shows "new_inode_scan bo st (of_nat i) bhs =
    map_option (\<lambda>(i', bh, j). (of_nat i', bh, of_nat j)) (area_find bo st n i bhs)"
  using assms(3)
proof (induction bhs arbitrary: i)
  case Nil
  then show ?case by simp
next
  case (Cons b bhs)
  let ?J = "find_first_zero bo (b_data st b) n"
  note bits = unat_bits_per_block [OF assms(2), unfolded assms(1)]
  have J: "?J \<le> n" using Cons.prems(1) ffz_le by force
  have uJ: "unat (of_nat ?J :: u64) = ?J" using J bits(2) by (intro unat_of_nat_small) simp
  have un: "unat (scast (bits_per_block st) :: u64) = n"
    using bits by (simp add: scast_u32_small unat_of_nat_small)
  have "(of_nat ?J :: u64) < scast (bits_per_block st) \<longleftrightarrow> ?J < n"
    using uJ un by (simp add: word_less_nat_alt)
  then show ?case using Cons.IH [of "i + 1"] Cons.prems bits(1) by (simp add: Let_def add.commute)
qed

text \<open>The search and the marking, as one step on the used set.\<close>

lemma area_alloc:
  assumes "area_ok st bhs n" and "area_find bo st n 0 bhs = Some (i, bh, j)"
    and st': "st' = mark_buffer_dirty bh (put_buffer bh (set_map_bit bo j (b_data st bh)) st)"
  shows "area_used bo st' bhs n = insert (i * n + j) (area_used bo st bhs n)"
    and "area_ok st' bhs n" and "map_frame bhs st st'" and "icache st' = icache st"
    and "bh \<in> set bhs"
proof -
  note f = area_find_least [OF assms(1,2)]
  show mem: "bh \<in> set bhs" using f(1,2) by simp
  then have bh: "map_ok (b_data st bh)" "8 * length (b_data st bh) = n"
    using assms(1) by (auto simp: area_ok_def)
  show "area_used bo st' bhs n = insert (i * n + j) (area_used bo st bhs n)"
    unfolding st' using area_used_mark [OF assms(1) f(1,3,2)] by simp
  show "area_ok st' bhs n" unfolding st' using area_ok_mark [OF assms(1) bh f(3)] by simp
  show "map_frame bhs st st'" using mem by (auto simp: map_frame_def st')
  show "icache st' = icache st" by (simp add: st')
qed

lemma maps_ok_zone_bits: "maps_ok st \<Longrightarrow> 0 < zone_bits st"
  by (simp add: maps_ok_def zone_bits_def)

lemma take_zmap: "maps_ok st \<Longrightarrow>
    take (unat (asb_zone_map_blocks (AUFS_SB st))) (s_zmap (AUFS_SB st)) = s_zmap (AUFS_SB st)"
  by (simp add: maps_ok_def asb_ok_def)

lemma take_imap: "maps_ok st \<Longrightarrow>
    take (unat (asb_inode_map_blocks (AUFS_SB st))) (s_imap (AUFS_SB st)) = s_imap (AUFS_SB st)"
  by (simp add: maps_ok_def asb_ok_def)

lemma new_zone_find:
  assumes "maps_ok st"
  shows "aufs_new_zone bo st =
    (case area_find bo st (zone_bits st) 0 (s_zmap (AUFS_SB st)) of
       None \<Rightarrow> Ret (0, st)
     | Some (i, bh, j) \<Rightarrow>
         Ret (ucast (zone_block (AUFS_SB st) (of_nat (i * zone_bits st + j))),
              mark_buffer_dirty bh (put_buffer bh (set_map_bit bo j (b_data st bh)) st)))"
proof -
  have "asb_alignment_num_blocks (AUFS_SB st) \<noteq> 0" "unat (s_blocksize st) \<le> 4096"
    and "area_ok st (s_zmap (AUFS_SB st)) (zone_bits st)"
    using assms by (auto simp: maps_ok_def asb_ok_def)
  then show ?thesis
    unfolding aufs_new_zone_def take_zmap [OF assms]
    using new_zone_loop_eq [of st "zone_bits st" "s_zmap (AUFS_SB st)" 0] by (simp add: area_ok_def)
qed

lemma new_zone_full:
  assumes "maps_ok st" and "used_zones bo st = {..< n_zones st}"
  shows "aufs_new_zone bo st = Ret (0, st)"
proof -
  have ok: "area_ok st (s_zmap (AUFS_SB st)) (zone_bits st)" using assms(1) by (simp add: maps_ok_def)
  show ?thesis
  proof (cases "area_find bo st (zone_bits st) 0 (s_zmap (AUFS_SB st))")
    case None
    then show ?thesis by (simp add: new_zone_find [OF assms(1)])
  next
    case (Some t)
    obtain i bh j where "t = (i, bh, j)" by (cases t)
    with Some area_find_least(4,6) [OF ok, of i bh j] assms(2) show ?thesis
      by (simp add: used_zones_def n_zones_def)
  qed
qed

lemma new_zone_free:
  assumes "maps_ok st" and "used_zones bo st \<noteq> {..< n_zones st}"
  obtains z st' where "aufs_new_zone bo st = Ret (ucast (zone_block (AUFS_SB st) (of_nat z)), st')"
    and "z < n_zones st" and "z \<notin> used_zones bo st" and "\<forall>k < z. k \<in> used_zones bo st"
    and "used_zones bo st' = insert z (used_zones bo st)"
    and "used_inodes bo st' = used_inodes bo st" and "maps_ok st'"
    and "map_frame (s_zmap (AUFS_SB st)) st st'" and "icache st' = icache st"
proof -
  let ?zm = "s_zmap (AUFS_SB st)" and ?im = "s_imap (AUFS_SB st)" and ?n = "zone_bits st"
  have ok: "area_ok st ?zm ?n" "area_ok st ?im ?n" and disj: "set ?zm \<inter> set ?im = {}"
    using assms(1) by (auto simp: maps_ok_def)
  have "area_find bo st ?n 0 ?zm \<noteq> None"
    using area_find_full [OF ok(1)] assms(2) unfolding used_zones_def n_zones_def by blast
  then obtain i bh j where f: "area_find bo st ?n 0 ?zm = Some (i, bh, j)" by auto
  define st' where "st' = mark_buffer_dirty bh (put_buffer bh (set_map_bit bo j (b_data st bh)) st)"
  note least = area_find_least [OF ok(1) f] and alloc = area_alloc [OF ok(1) f st'_def]
  have same: "AUFS_SB st' = AUFS_SB st" "zone_bits st' = ?n" "s_blocksize st' = s_blocksize st"
    by (simp_all add: AUFS_SB_def zone_bits_def st'_def)
  have "bh \<notin> set ?im" using alloc(5) disj by blast
  note im = area_other [OF this maps_ok_zone_bits [OF assms(1)]]
  have "maps_ok st'" using assms(1) alloc(2) im(2) by (simp add: maps_ok_def same) (simp add: st'_def)
  moreover have "used_inodes bo st' = used_inodes bo st"
    using im(1) by (simp add: used_inodes_def same) (simp add: st'_def)
  moreover have "used_zones bo st' = insert (i * ?n + j) (used_zones bo st)"
    using alloc(1) by (simp add: used_zones_def same)
  moreover have "aufs_new_zone bo st = Ret (ucast (zone_block (AUFS_SB st) (of_nat (i * ?n + j))), st')"
    unfolding new_zone_find [OF assms(1)] f st'_def by simp
  ultimately show ?thesis
    using that [of "i * ?n + j" st'] least alloc by (simp add: n_zones_def used_zones_def)
qed

lemma new_inode_number:
  assumes "maps_ok st" and "i < length (s_imap (AUFS_SB st))" and "j < zone_bits st"
  shows "of_nat j + scast (of_nat i * bits_per_block st) = (of_nat (i * zone_bits st + j) :: u64)"
proof -
  have "i * zone_bits st \<le> length (s_imap (AUFS_SB st)) * zone_bits st"
    using assms(2) by (intro mult_le_mono1) simp
  also have "\<dots> < 2147483648" using assms(1) by (simp add: maps_ok_def area_ok_def)
  finally have lt: "i * zone_bits st < 2147483648" .
  then have "unat (of_nat (i * zone_bits st) :: u32) = i * zone_bits st"
    by (intro unat_of_nat_small) simp
  moreover have "of_nat i * bits_per_block st = (of_nat (i * zone_bits st) :: u32)"
    using assms(1) by (simp add: bits_per_block_of_nat maps_ok_def)
  ultimately show ?thesis
    using lt by (simp add: scast_u32_small del: of_nat_mult)
qed

lemma new_inode_full:
  assumes "maps_ok st" and "k_bits k = bo" and "k_new_inode k = Some ino0"
    and "used_inodes bo st = {..< n_inodes st}"
  shows "aufs_new_inode k dir mode st = (None, - ENOSPC, st)"
proof -
  let ?im = "s_imap (AUFS_SB st)" and ?n = "zone_bits st"
  have ok: "area_ok st ?im ?n" and bs: "unat (s_blocksize st) \<le> 4096"
    using assms(1) by (auto simp: maps_ok_def)
  have "area_find bo st ?n 0 ?im = None"
  proof (cases "area_find bo st ?n 0 ?im")
    case (Some t)
    obtain i bh j where "t = (i, bh, j)" by (cases t)
    with Some area_find_least(4,6) [OF ok, of i bh j] assms(4) show ?thesis
      by (simp add: used_inodes_def n_inodes_def)
  qed
  then have "new_inode_scan bo st 0 ?im = None"
    using new_inode_scan_eq [OF refl bs, of ?im 0] ok by (simp add: area_ok_def)
  then show ?thesis
    using assms(2,3) by (simp add: aufs_new_inode_def take_imap [OF assms(1)])
qed

lemma new_inode_free:
  assumes "maps_ok st" and "k_bits k = bo" and "k_new_inode k = Some ino0"
    and "0 \<in> used_inodes bo st" and "used_inodes bo st \<noteq> {..< n_inodes st}"
  obtains z st' where
      "aufs_new_inode k dir mode st =
         (Some (of_nat z), 0, put_inode z (init_new_inode k ino0 dir mode (of_nat z)) st')"
    and "0 < z" and "z < n_inodes st" and "z \<notin> used_inodes bo st" and "\<forall>m < z. m \<in> used_inodes bo st"
    and "used_inodes bo st' = insert z (used_inodes bo st)"
    and "used_zones bo st' = used_zones bo st" and "maps_ok st'"
    and "map_frame (s_imap (AUFS_SB st)) st st'" and "icache st' = icache st"
proof -
  let ?zm = "s_zmap (AUFS_SB st)" and ?im = "s_imap (AUFS_SB st)" and ?n = "zone_bits st"
  have ok: "area_ok st ?zm ?n" "area_ok st ?im ?n" and disj: "set ?zm \<inter> set ?im = {}"
    and bs: "unat (s_blocksize st) \<le> 4096"
    using assms(1) by (auto simp: maps_ok_def)
  have "area_find bo st ?n 0 ?im \<noteq> None"
    using area_find_full [OF ok(2)] assms(5) unfolding used_inodes_def n_inodes_def by blast
  then obtain i bh j where f: "area_find bo st ?n 0 ?im = Some (i, bh, j)" by auto
  define st' where "st' = mark_buffer_dirty bh (put_buffer bh (set_map_bit bo j (b_data st bh)) st)"
  note least = area_find_least [OF ok(2) f] and alloc = area_alloc [OF ok(2) f st'_def]
  have same: "AUFS_SB st' = AUFS_SB st" "zone_bits st' = ?n" "s_blocksize st' = s_blocksize st"
    by (simp_all add: AUFS_SB_def zone_bits_def st'_def)
  have "bh \<notin> set ?zm" using alloc(5) disj by blast
  note zm = area_other [OF this maps_ok_zone_bits [OF assms(1)]]
  have z: "0 < i * ?n + j"
    using assms(4) least(6) by (metis gr0I used_inodes_def)
  have maps: "maps_ok st'"
    using assms(1) alloc(2) zm(2) by (simp add: maps_ok_def same) (simp add: st'_def)
  have uz: "used_zones bo st' = used_zones bo st"
    using zm(1) by (simp add: used_zones_def same) (simp add: st'_def)
  have ui: "used_inodes bo st' = insert (i * ?n + j) (used_inodes bo st)"
    using alloc(1) by (simp add: used_inodes_def same)
  have bh: "map_ok (b_data st bh)" "8 * length (b_data st bh) = ?n"
    using alloc(5) ok(2) by (auto simp: area_ok_def)
  have lt: "length ?im * ?n < 2147483648" using ok(2) by (simp add: area_ok_def)
  have "j < 2 ^ LENGTH(64)" "i * ?n + j < 2 ^ LENGTH(64)" using least(3,4) lt by simp_all
  then have uj: "unat (of_nat j :: u64) = j" and uz': "unat (of_nat (i * ?n + j) :: u64) = i * ?n + j"
    by (simp_all only: unat_of_nat_small)
  have scan: "new_inode_scan bo st 0 ?im = Some (of_nat i, bh, of_nat j)"
    using new_inode_scan_eq [OF refl bs, of ?im 0] ok(2) f by (simp add: area_ok_def)
  have num: "of_nat j + scast (of_nat i * bits_per_block st) = (of_nat (i * ?n + j) :: u64)"
    using assms(1) least(1,3) by (rule new_inode_number)
  have free: "\<not> test_map_bit bo (b_data st bh) j"
    using ffz_clear [OF bh(1)] bh(2) least(3,5) by simp
  have nz: "(of_nat (i * ?n + j) :: u64) \<noteq> 0" using z uz' by (metis less_irrefl unat_0)
  have "aufs_new_inode k dir mode st = (Some (of_nat (i * ?n + j)), 0,
      put_inode (i * ?n + j) (init_new_inode k ino0 dir mode (of_nat (i * ?n + j))) st')"
    using assms(2,3) scan bh least(3) free nz
    by (simp add: aufs_new_inode_def take_imap [OF assms(1)] test_and_set_eq uj uz' num st'_def
        Let_def del: of_nat_add of_nat_mult)
  then show ?thesis
    using that [of "i * ?n + j" st'] z least alloc maps uz ui by (simp add: n_inodes_def used_inodes_def)
qed

end

end
