(* ===== verification/Kern_Inode.thy ===== *)
theory Kern_Inode
  imports Kern_Bitmap
begin

text \<open>
  \<^verbatim>\<open>kern/inode.c\<close>: the mapping of file blocks to disk blocks, reading and writing disk
  inodes, and the address space operations. An inode pointer is its number in \<open>icache\<close>.
\<close>

subsection \<open>File types\<close>

definition S_IFMT :: u16 where "S_IFMT = 0xF000"
definition S_IFREG :: u16 where "S_IFREG = 0x8000"
definition S_IFDIR :: u16 where "S_IFDIR = 0x4000"
definition S_IFLNK :: u16 where "S_IFLNK = 0xA000"

definition S_ISREG :: "u16 \<Rightarrow> bool" where "S_ISREG m \<longleftrightarrow> m AND S_IFMT = S_IFREG"
definition S_ISDIR :: "u16 \<Rightarrow> bool" where "S_ISDIR m \<longleftrightarrow> m AND S_IFMT = S_IFDIR"
definition S_ISLNK :: "u16 \<Rightarrow> bool" where "S_ISLNK m \<longleftrightarrow> m AND S_IFMT = S_IFLNK"

subsection \<open>Block mapping\<close>

text \<open>
  \<^verbatim>\<open>aufs_get_block\<close>. The subscript of \<^verbatim>\<open>ai_zone_ptr\<close> is used before it is compared with the
  array length, so a subscript outside the array is a fault. A zone number \<^verbatim>\<open>aufs_new_zone\<close>
  returns is an int that is stored into an unsigned long.
\<close>

definition aufs_get_block :: "bitops \<Rightarrow> nat \<Rightarrow> get_block" where
  "aufs_get_block bo inode iblock b_size create st =
     (case icache st inode of
        None \<Rightarrow> Fault NullDeref
      | Some ai \<Rightarrow>
          let aufs_zone_size = ucast (asb_zone_size (AUFS_SB st)) :: u32
          in if ucast aufs_zone_size < b_size then Ret (- EIO, None, st)
             else if b_size = 0 then Fault DivByZero
             else if b_size < ucast aufs_zone_size \<and> ucast aufs_zone_size mod b_size \<noteq> 0
                  then Ret (- EIO, None, st)
             else
               let block_idx = ucast (iblock div (ucast aufs_zone_size div b_size)) :: u32;
                   block_offset = ucast (iblock mod (ucast aufs_zone_size div b_size)) :: u32
               in if ZONE_PTR_IN_INODE_NUM \<le> unat block_idx then Fault OutOfBounds
                  else if ai_zone_ptr ai ! unat block_idx = 0 then
                    (case aufs_new_zone bo st of
                       Inl f \<Rightarrow> Fault f
                     | Inr (zone, st1) \<Rightarrow>
                         let ptr = scast zone :: u64;
                             ai1 = ai\<lparr>ai_zone_ptr := (ai_zone_ptr ai)[unat block_idx := ptr]\<rparr>
                         in Ret (0, Some (ucast block_offset + ptr), put_inode inode ai1 st1))
                  else Ret (0, Some (ucast block_offset + ai_zone_ptr ai ! unat block_idx), st))"

subsection \<open>Disk inodes\<close>

definition aufs_inode_fill :: "aufs_inode \<Rightarrow> aufs_disk_inode \<Rightarrow> aufs_inode" where
  "aufs_inode_fill ai di =
     ai\<lparr>ai_zone_ptr := map ucast (di_zone_ptr di), i_mode := ucast (di_mode di),
        i_size := unat (di_size di), i_blocks := ucast (di_blocks di),
        i_ctime := di_ctime di, i_mtime := di_ctime di, i_atime := di_ctime di,
        i_uid := di_uid di, i_gid := di_gid di\<rparr>"

definition raw_inode_of :: "kapi \<Rightarrow> aufs_inode \<Rightarrow> aufs_disk_inode" where
  "raw_inode_of k ai =
     \<lparr>di_zone_ptr = map ucast (ai_zone_ptr ai), di_blocks = ucast (i_blocks ai),
      di_size = of_nat (i_size ai), di_gid = k_high2lowgid k (i_gid ai),
      di_uid = k_high2lowuid k (i_uid ai), di_mode = ucast (i_mode ai), di_ctime = i_ctime ai\<rparr>"

text \<open>
  \<^verbatim>\<open>V2_minix_update_inode\<close> assigns every field of the disk record; a record that does not lie
  inside the buffer's data is an out-of-bounds write.
\<close>

definition V2_minix_update_inode :: "kapi \<Rightarrow> aufs_inode \<Rightarrow> fs \<Rightarrow> (nat option \<times> fs) cres" where
  "V2_minix_update_inode k ai st =
     (case minix_V2_raw_inode k st (i_ino ai) of
        None \<Rightarrow> Ret (None, st)
      | Some (bh, off) \<Rightarrow>
          if length (b_data st bh) < off + sizeof_disk_inode then Fault OutOfBounds
          else Ret (Some bh, mark_buffer_dirty bh
                 (put_buffer bh (blit off (disk_inode_enc (raw_inode_of k ai)) (b_data st bh)) st)))"

definition sync_dirty_buffer :: "nat \<Rightarrow> fs \<Rightarrow> fs" where
  "sync_dirty_buffer bh st = st\<lparr>b_dirty := (b_dirty st)(bh := False)\<rparr>"

definition minix_write_inode :: "kapi \<Rightarrow> aufs_inode \<Rightarrow> bool \<Rightarrow> fs \<Rightarrow> (int \<times> fs) cres" where
  "minix_write_inode k ai sync_all st =
     (case V2_minix_update_inode k ai st of
        Inl f \<Rightarrow> Fault f
      | Inr (None, st1) \<Rightarrow> Ret (- EIO, st1)
      | Inr (Some bh, st1) \<Rightarrow>
          if sync_all \<and> b_dirty st1 bh then
            Ret (if k_sync_error k bh then - EIO else 0, sync_dirty_buffer bh st1)
          else Ret (0, st1))"

text \<open>
  \<^verbatim>\<open>aufs_inode_get\<close>: the cached inode, or the disk record filled into a new in-core inode
  whose operation tables follow from the file type. \<open>Inl e\<close> is \<^verbatim>\<open>ERR_PTR(e)\<close>.
\<close>

definition aufs_inode_get :: "kapi \<Rightarrow> u64 \<Rightarrow> fs \<Rightarrow> ((int + nat) \<times> fs) cres" where
  "aufs_inode_get k no st =
     (case icache st (unat no) of
        Some _ \<Rightarrow> Ret (Inr (unat no), st)
      | None \<Rightarrow>
          (case k_iget k (unat no) of
             None \<Rightarrow> Ret (Inl (- ENOMEM), st)
           | Some ai \<Rightarrow>
               let block = unat (aufs_inode_block (AUFS_SB st) no);
                   offset = unat (aufs_inode_offset (AUFS_SB st) no)
               in if \<not> k_bread k block then Ret (Inl (- EIO), st)
                  else if length (b_data st block) < offset + sizeof_disk_inode then Fault OutOfBounds
                  else
                    let ai1 = (aufs_inode_fill ai (read_disk_inode (b_data st block) offset))
                                \<lparr>i_ino := no, a_ops := aufs_aops\<rparr>
                    in if S_ISREG (i_mode ai1) then
                         Ret (Inr (unat no), put_inode (unat no)
                           (ai1\<lparr>i_op := minix_file_inode_operations, i_fop := aufs_file_ops\<rparr>) st)
                       else if S_ISDIR (i_mode ai1) then
                         Ret (Inr (unat no), put_inode (unat no)
                           (ai1\<lparr>i_op := aufs_dir_inode_ops, i_fop := aufs_dir_ops\<rparr>) st)
                       else Ret (Inl (- EIO), st)))"

definition minix_set_inode :: "aufs_inode \<Rightarrow> int \<times> aufs_inode" where
  "minix_set_inode ai =
     (if S_ISREG (i_mode ai) then
        (0, ai\<lparr>i_op := minix_file_inode_operations, i_fop := aufs_file_ops, a_ops := aufs_aops\<rparr>)
      else if S_ISDIR (i_mode ai) then
        (0, ai\<lparr>i_op := aufs_dir_inode_ops, i_fop := aufs_dir_ops, a_ops := aufs_aops\<rparr>)
      else if S_ISLNK (i_mode ai) then (- EINVAL, ai)
      else (- EINVAL, ai))"

subsection \<open>Address space operations\<close>

definition minix_prepare_chunk :: "kapi \<Rightarrow> nat \<Rightarrow> nat \<Rightarrow> nat \<Rightarrow> fs \<Rightarrow> (int \<times> fs) cres" where
  "minix_prepare_chunk k inode pos len st =
     k_write_begin k (aufs_get_block (k_bits k) inode) inode pos len st"

definition aufs_readpage :: "kapi \<Rightarrow> nat \<Rightarrow> nat \<Rightarrow> fs \<Rightarrow> (int \<times> fs) cres" where
  "aufs_readpage k inode page st =
     k_read_full_page k (aufs_get_block (k_bits k) inode) inode page st"

definition aufs_writepage :: "kapi \<Rightarrow> nat \<Rightarrow> nat \<Rightarrow> fs \<Rightarrow> (int \<times> fs) cres" where
  "aufs_writepage k inode page st =
     k_write_full_page k (aufs_get_block (k_bits k) inode) inode page st"

definition minix_write_failed :: "kapi \<Rightarrow> nat \<Rightarrow> nat \<Rightarrow> fs \<Rightarrow> fs cres" where
  "minix_write_failed k inode to st =
     (case icache st inode of
        None \<Rightarrow> Fault NullDeref
      | Some ai \<Rightarrow> Ret (if i_size ai < to then k_truncate_pagecache k inode (i_size ai) st else st))"

definition minix_write_begin :: "kapi \<Rightarrow> nat \<Rightarrow> nat \<Rightarrow> nat \<Rightarrow> fs \<Rightarrow> (int \<times> fs) cres" where
  "minix_write_begin k inode pos len st =
     (case k_pagecache_write_begin k (aufs_get_block (k_bits k) inode) inode pos len st of
        Inl f \<Rightarrow> Fault f
      | Inr (ret, st1) \<Rightarrow>
          if ret \<noteq> 0 then
            (case minix_write_failed k inode (pos + len) st1 of
               Inl f \<Rightarrow> Fault f
             | Inr st2 \<Rightarrow> Ret (ret, st2))
          else Ret (0, st1))"

subsection \<open>The geometry of zones\<close>

text \<open>
  A zone is a whole number of blocks of the block size the mount code sets, and its size is
  that of a 32-bit word.
\<close>

definition geometry_ok :: "fs \<Rightarrow> bool" where
  "geometry_ok st \<longleftrightarrow>
     0 < unat (s_blocksize st) \<and> 0 < unat (asb_blocks_per_zone (AUFS_SB st)) \<and>
     unat (asb_zone_size (AUFS_SB st)) < 2 ^ 32 \<and>
     unat (asb_zone_size (AUFS_SB st)) = unat (asb_blocks_per_zone (AUFS_SB st)) * unat (s_blocksize st)"

abbreviation bpz :: "fs \<Rightarrow> nat" where
  "bpz st \<equiv> unat (asb_blocks_per_zone (AUFS_SB st))"

text \<open>Under the geometry the checks of \<^verbatim>\<open>aufs_get_block\<close> pass and its index is a plain quotient.\<close>

lemma get_block_norm:
  assumes "geometry_ok st" and "icache st inode = Some ai"
  shows "aufs_get_block bo inode iblock (s_blocksize st) create st =
    (let idx = unat iblock div bpz st mod 2 ^ 32; off = of_nat (unat iblock mod bpz st)
     in if ZONE_PTR_IN_INODE_NUM \<le> idx then Fault OutOfBounds
        else if ai_zone_ptr ai ! idx = 0 then
          (case aufs_new_zone bo st of
             Inl f \<Rightarrow> Fault f
           | Inr (zone, st1) \<Rightarrow>
               Ret (0, Some (off + scast zone),
                    put_inode inode (ai\<lparr>ai_zone_ptr := (ai_zone_ptr ai)[idx := scast zone]\<rparr>) st1))
        else Ret (0, Some (off + ai_zone_ptr ai ! idx), st))"
proof -
  let ?zs = "asb_zone_size (AUFS_SB st)" and ?bs = "s_blocksize st"
  note g = assms(1) [unfolded geometry_ok_def, simplified]
  have zs: "ucast (ucast ?zs :: u32) = ?zs" using g by (simp add: ucast_ucast_u64_small)
  have per: "unat (?zs div ?bs) = bpz st" using g by (simp add: unat_div)
  have "unat ?bs \<le> unat ?zs" using g by simp
  then have chk1: "\<not> ?zs < ?bs" by (simp add: word_less_nat_alt)
  have "unat (?zs mod ?bs) = 0" using g by (simp add: unat_mod)
  then have chk2: "?zs mod ?bs = 0" by (simp add: unat_eq_zero)
  have bs0: "?bs \<noteq> 0" using g by auto
  have idx: "unat (ucast (iblock div (?zs div ?bs)) :: u32) = unat iblock div bpz st mod 4294967296"
    using per by (simp add: unat_ucast_u64_u32 unat_div)
  have "unat iblock mod bpz st < 4294967296"
  proof -
    have "unat iblock mod bpz st < bpz st" using g by simp
    also have "\<dots> \<le> unat ?zs" using g by simp
    also have "\<dots> < 4294967296" using g by simp
    finally show ?thesis .
  qed
  then have small: "unat (iblock mod (?zs div ?bs)) < 4294967296" using per by (simp add: unat_mod)
  have "unat (iblock mod (?zs div ?bs)) = unat iblock mod bpz st" using per by (simp add: unat_mod)
  then have "iblock mod (?zs div ?bs) = of_nat (unat iblock mod bpz st)"
    by (metis of_nat_unat ucast_id)
  then have off: "ucast (ucast (iblock mod (?zs div ?bs)) :: u32) = (of_nat (unat iblock mod bpz st) :: u64)"
    using small by (simp add: ucast_ucast_u64_small)
  show ?thesis
    using assms(2) chk1 chk2 bs0
    by (simp add: aufs_get_block_def zs idx off Let_def split: sum.split)
qed

lemma get_block_mapped:
  assumes "geometry_ok st" and "icache st inode = Some ai"
    and "unat iblock div bpz st < ZONE_PTR_IN_INODE_NUM"
    and "ai_zone_ptr ai ! (unat iblock div bpz st) \<noteq> 0"
  shows "aufs_get_block bo inode iblock (s_blocksize st) create st =
    Ret (0, Some (of_nat (unat iblock mod bpz st) + ai_zone_ptr ai ! (unat iblock div bpz st)), st)"
  using assms by (simp add: get_block_norm [OF assms(1,2)] Let_def ZONE_PTR_IN_INODE_NUM_def)

lemma get_block_unmapped:
  assumes "geometry_ok st" and "icache st inode = Some ai"
    and "unat iblock div bpz st < ZONE_PTR_IN_INODE_NUM"
    and "ai_zone_ptr ai ! (unat iblock div bpz st) = 0"
    and "aufs_new_zone bo st = Ret (zone, st1)"
  shows "aufs_get_block bo inode iblock (s_blocksize st) create st =
    Ret (0, Some (of_nat (unat iblock mod bpz st) + scast zone),
         put_inode inode
           (ai\<lparr>ai_zone_ptr := (ai_zone_ptr ai)[unat iblock div bpz st := scast zone]\<rparr>) st1)"
  using assms by (simp add: get_block_norm [OF assms(1,2)] Let_def ZONE_PTR_IN_INODE_NUM_def)

lemma get_block_outside:
  assumes "geometry_ok st" and "icache st inode = Some ai"
    and "ZONE_PTR_IN_INODE_NUM \<le> unat iblock div bpz st" and "unat iblock div bpz st < 2 ^ 32"
  shows "aufs_get_block bo inode iblock (s_blocksize st) create st = Fault OutOfBounds"
  using assms by (simp add: get_block_norm [OF assms(1,2)])

subsection \<open>Disk inodes written and read back\<close>

lemma raw_inode_location:
  assumes "asb_ok (AUFS_SB st)" and "0 < no" and "no < 2147483648"
    and "inode_blk (AUFS_SB st) no < 2147483648"
  shows "minix_V2_raw_inode k st (of_nat no) =
    (if k_bread k (inode_blk (AUFS_SB st) no) then Some (inode_blk (AUFS_SB st) no, inode_off no)
     else None)"
proof -
  let ?b = "aufs_inode_block (AUFS_SB st) (of_nat no)"
  note loc = unat_inode_location [OF assms(1,3)]
  have "unat (of_nat no :: u64) = no" using assms(3) by (intro unat_of_nat_small) simp
  then have "(of_nat no :: u64) \<noteq> 0" using assms(2) by (metis less_irrefl unat_0)
  moreover have ub: "unat (ucast ?b :: u32) = inode_blk (AUFS_SB st) no"
    using loc(1) assms(4) by (simp add: unat_ucast_u64_u32)
  moreover have "unat (scast (ucast ?b :: u32) :: u64) = inode_blk (AUFS_SB st) no"
    using ub assms(4) by (simp add: scast_u32_small unat_of_nat_small)
  moreover have "unat (ucast (aufs_inode_offset (AUFS_SB st) (of_nat no)) :: u32) = inode_off no"
    using loc(2) inode_off_less [of no] by (simp add: unat_ucast_u64_u32)
  ultimately show ?thesis by (simp add: minix_V2_raw_inode_def Let_def)
qed

text \<open>The fields of an in-core inode that the disk record can hold.\<close>

definition inode_storable :: "aufs_inode \<Rightarrow> bool" where
  "inode_storable ai \<longleftrightarrow>
     length (ai_zone_ptr ai) = ZONE_PTR_IN_INODE_NUM \<and>
     (\<forall>p \<in> set (ai_zone_ptr ai). unat p < 2 ^ 32) \<and>
     i_size ai < 2 ^ 32 \<and> unat (i_blocks ai) < 2 ^ 32"

lemma mode_word: "ucast (ucast m :: u32) = (m :: u16)"
  by (rule bit_word_eqI) (auto simp: bit_simps)

lemma fill_raw_inode:
  assumes "inode_storable ai"
  shows "aufs_inode_fill new (raw_inode_of k ai) =
    new\<lparr>ai_zone_ptr := ai_zone_ptr ai, i_mode := i_mode ai, i_size := i_size ai,
        i_blocks := i_blocks ai, i_ctime := i_ctime ai, i_mtime := i_ctime ai,
        i_atime := i_ctime ai, i_uid := k_high2lowuid k (i_uid ai),
        i_gid := k_high2lowgid k (i_gid ai)\<rparr>"
proof -
  have "map (\<lambda>p. ucast (ucast p :: u32)) (ai_zone_ptr ai) = ai_zone_ptr ai"
    using assms by (intro map_idI) (simp add: inode_storable_def ucast_ucast_u64_small)
  moreover have "ucast (ucast (i_mode ai) :: u32) = i_mode ai" by (rule mode_word)
  moreover have "unat (of_nat (i_size ai) :: u32) = i_size ai"
    using assms by (intro unat_of_nat_small) (simp add: inode_storable_def)
  moreover have "ucast (ucast (i_blocks ai) :: u32) = i_blocks ai"
    using assms by (simp add: inode_storable_def ucast_ucast_u64_small)
  ultimately show ?thesis by (simp add: aufs_inode_fill_def raw_inode_of_def o_def)
qed

lemma update_inode_eq:
  assumes "asb_ok (AUFS_SB st)" and "0 < no" and "no < 2147483648"
    and "inode_blk (AUFS_SB st) no < 2147483648" and "i_ino ai = of_nat no"
  shows "V2_minix_update_inode k ai st =
    (let bh = inode_blk (AUFS_SB st) no; d = b_data st bh
     in if \<not> k_bread k bh then Ret (None, st)
        else if length d < inode_off no + sizeof_disk_inode then Fault OutOfBounds
        else Ret (Some bh, mark_buffer_dirty bh
               (put_buffer bh (blit (inode_off no) (disk_inode_enc (raw_inode_of k ai)) d) st)))"
  using assms raw_inode_location [OF assms(1-4), of k]
  by (simp add: V2_minix_update_inode_def Let_def)

definition evict_inode :: "nat \<Rightarrow> fs \<Rightarrow> fs" where
  "evict_inode no st = st\<lparr>icache := (icache st)(no := None)\<rparr>"

lemma evict_inode_sel [simp]:
  "b_data (evict_inode no st) = b_data st" "b_dirty (evict_inode no st) = b_dirty st"
  "s_blocksize (evict_inode no st) = s_blocksize st" "s_fs_info (evict_inode no st) = s_fs_info st"
  "icache (evict_inode no st) = (icache st)(no := None)" "pages (evict_inode no st) = pages st"
  by (simp_all add: evict_inode_def)

text \<open>The operation tables follow the file type.\<close>

definition ops_for :: "aufs_inode \<Rightarrow> aufs_inode" where
  "ops_for ai =
     (if S_ISREG (i_mode ai)
      then ai\<lparr>a_ops := aufs_aops, i_op := minix_file_inode_operations, i_fop := aufs_file_ops\<rparr>
      else ai\<lparr>a_ops := aufs_aops, i_op := aufs_dir_inode_ops, i_fop := aufs_dir_ops\<rparr>)"

lemma inode_get_miss:
  assumes "asb_ok (AUFS_SB st)" and "no < 2147483648" and "icache st no = None"
    and "k_iget k no = Some new" and "k_bread k (inode_blk (AUFS_SB st) no)"
    and "inode_off no + sizeof_disk_inode \<le> length (b_data st (inode_blk (AUFS_SB st) no))"
    and fill: "ai = aufs_inode_fill new
           (read_disk_inode (b_data st (inode_blk (AUFS_SB st) no)) (inode_off no))"
    and "S_ISREG (i_mode ai) \<or> S_ISDIR (i_mode ai)"
  shows "aufs_inode_get k (of_nat no) st =
    Ret (Inr no, put_inode no (ops_for (ai\<lparr>i_ino := of_nat no\<rparr>)) st)"
proof -
  note loc = unat_inode_location [OF assms(1,2)]
  have "unat (of_nat no :: u64) = no" using assms(2) by (intro unat_of_nat_small) simp
  then show ?thesis
    using assms(3-6,8) loc by (auto simp: aufs_inode_get_def ops_for_def Let_def fill [symmetric])
qed

lemma inode_get_frame:
  assumes "aufs_inode_get k no st = Ret (r, st')"
  shows "s_blocksize st' = s_blocksize st" and "s_fs_info st' = s_fs_info st" and "b_data st' = b_data st"
    and "r = Inr i \<Longrightarrow> icache st' i \<noteq> None"
  using assms by (auto simp: aufs_inode_get_def Let_def split: option.splits if_splits)

lemma inode_write_then_get:
  assumes "asb_ok (AUFS_SB st)" and "0 < no" and "no < 2147483648"
    and "inode_blk (AUFS_SB st) no < 2147483648" and "i_ino ai = of_nat no"
    and "inode_storable ai" and "S_ISREG (i_mode ai) \<or> S_ISDIR (i_mode ai)"
    and "k_bread k (inode_blk (AUFS_SB st) no)" and "k_iget k no = Some new"
    and "inode_off no + sizeof_disk_inode \<le> length (b_data st (inode_blk (AUFS_SB st) no))"
  obtains st1 where "V2_minix_update_inode k ai st = Ret (Some (inode_blk (AUFS_SB st) no), st1)"
    and "\<And>st2. b_data st2 = b_data st1 \<Longrightarrow> s_fs_info st2 = s_fs_info st1 \<Longrightarrow>
      aufs_inode_get k (of_nat no) (evict_inode no st2) =
      Ret (Inr no, put_inode no (ops_for ((aufs_inode_fill new (raw_inode_of k ai))
                                           \<lparr>i_ino := of_nat no\<rparr>)) (evict_inode no st2))"
proof -
  let ?bh = "inode_blk (AUFS_SB st) no" and ?off = "inode_off no"
  let ?d = "blit ?off (disk_inode_enc (raw_inode_of k ai)) (b_data st ?bh)"
  define st1 where "st1 = mark_buffer_dirty ?bh (put_buffer ?bh ?d st)"
  have zl: "length (di_zone_ptr (raw_inode_of k ai)) = ZONE_PTR_IN_INODE_NUM"
    using assms(6) by (simp add: raw_inode_of_def inode_storable_def)
  have upd: "V2_minix_update_inode k ai st = Ret (Some ?bh, st1)"
    using update_inode_eq [OF assms(1-5), of k] assms(8,10) by (simp add: Let_def st1_def)
  have data: "b_data st1 ?bh = ?d" by (simp add: st1_def)
  have len: "length ?d = length (b_data st ?bh)"
    using length_disk_inode_enc [OF zl] assms(10) by simp
  have read: "read_disk_inode ?d ?off = raw_inode_of k ai"
    using zl assms(10) by (rule read_disk_inode_blit)
  have mode: "i_mode (aufs_inode_fill new (raw_inode_of k ai)) = i_mode ai"
    using fill_raw_inode [OF assms(6)] by simp
  show ?thesis
  proof (rule that [OF upd])
    fix st2 :: fs
    assume st2: "b_data st2 = b_data st1" "s_fs_info st2 = s_fs_info st1"
    then have sb: "AUFS_SB (evict_inode no st2) = AUFS_SB st" by (simp add: AUFS_SB_def st1_def)
    show "aufs_inode_get k (of_nat no) (evict_inode no st2) =
      Ret (Inr no, put_inode no (ops_for ((aufs_inode_fill new (raw_inode_of k ai))
                                           \<lparr>i_ino := of_nat no\<rparr>)) (evict_inode no st2))"
      by (rule inode_get_miss [where new = new])
        (use assms(1,3,7-10) in \<open>simp_all add: sb st2 data len read mode\<close>)
  qed
qed

lemma update_inode_other_records:
  assumes "asb_ok (AUFS_SB st)" and "0 < no" and "no < 2147483648"
    and "inode_blk (AUFS_SB st) no < 2147483648" and "i_ino ai = of_nat no"
    and "length (ai_zone_ptr ai) = ZONE_PTR_IN_INODE_NUM"
    and "length (b_data st (inode_blk (AUFS_SB st) no)) = 4096"
    and "V2_minix_update_inode k ai st = Ret (r, st')" and "m \<noteq> no"
  shows "read_disk_inode (b_data st' (inode_blk (AUFS_SB st) m)) (inode_off m) =
    read_disk_inode (b_data st (inode_blk (AUFS_SB st) m)) (inode_off m)"
proof -
  let ?bh = "inode_blk (AUFS_SB st) no"
  have len: "length (disk_inode_enc (raw_inode_of k ai)) = 64"
    using assms(6) by (intro length_disk_inode_enc) (simp add: raw_inode_of_def)
  have off: "inode_off no + 64 \<le> 4096" "inode_off m + 64 \<le> 4096" by (rule inode_off_less)+
  have "b_data st' = b_data st \<or> b_data st' = (b_data st)(?bh := blit (inode_off no)
      (disk_inode_enc (raw_inode_of k ai)) (b_data st ?bh))"
    using assms(8) update_inode_eq [OF assms(1-5), of k] by (auto simp: Let_def split: if_splits)
  then show ?thesis
  proof
    assume st': "b_data st' = (b_data st)(?bh := blit (inode_off no)
      (disk_inode_enc (raw_inode_of k ai)) (b_data st ?bh))"
    show ?thesis
    proof (cases "inode_blk (AUFS_SB st) m = ?bh")
      case True
      then have "inode_off m \<noteq> inode_off no" using assms(9) inode_location_inj by metis
      then have "inode_off m + 64 \<le> inode_off no \<or> inode_off no + 64 \<le> inode_off m"
        by (rule inode_off_disjoint)
      then show ?thesis
        using True st' read_disk_inode_blit_other [of "inode_off no" "disk_inode_enc (raw_inode_of k ai)"
            "b_data st ?bh" "inode_off m"] len off assms(7) by simp
    qed (simp add: st')
  qed simp
qed

lemma write_inode_eq:
  assumes "V2_minix_update_inode k ai st = Ret (Some bh, st1)" and "\<not> k_sync_error k bh"
  shows "\<exists>st2. minix_write_inode k ai sync_all st = Ret (0, st2) \<and> b_data st2 = b_data st1 \<and>
    icache st2 = icache st1 \<and> s_fs_info st2 = s_fs_info st1 \<and> s_blocksize st2 = s_blocksize st1"
  using assms by (simp add: minix_write_inode_def sync_dirty_buffer_def)

subsection \<open>The kernel's generic block functions\<close>

text \<open>
  The module hands \<^verbatim>\<open>aufs_get_block\<close> to generic functions of the kernel. What it relies on is
  that these change the file system only by calling the callback, with the block size of the
  file system as buffer size, and by marking buffers dirty.
\<close>

inductive block_io :: "get_block \<Rightarrow> fs \<Rightarrow> fs \<Rightarrow> bool" for gb :: get_block where
  io_map: "gb ib (s_blocksize st) create st = Ret (e, m, st') \<Longrightarrow> block_io gb st st'"
| io_dirty: "block_io gb st (mark_buffer_dirty bh st)"

inductive_cases block_ioE: "block_io gb st st'"

locale block_layer =
  fixes k :: kapi
  assumes write_begin_io: "k_write_begin k gb ino pos len st = Ret (e, st') \<Longrightarrow> (block_io gb)\<^sup>*\<^sup>* st st'"
    and pagecache_write_begin_io:
      "k_pagecache_write_begin k gb ino pos len st = Ret (e, st') \<Longrightarrow> (block_io gb)\<^sup>*\<^sup>* st st'"
    and truncate_pagecache_pages: "\<exists>pgs. k_truncate_pagecache k ino sz st = st\<lparr>pages := pgs\<rparr>"

text \<open>
  Of \<^verbatim>\<open>block_read_full_page\<close> and \<^verbatim>\<open>block_write_full_page\<close> the module relies on more, here for pages of one block: they map
  the block of the page with the callback, and move the data between the page and the buffer. The part of a
  page behind the end of the file is cleared when the page is written.
\<close>

definition eof_zeroed :: "nat \<Rightarrow> nat \<Rightarrow> bytes \<Rightarrow> bytes" where
  "eof_zeroed sz n pg = (let k = sz - n * PAGE_SIZE in take k pg @ replicate (length pg - k) 0)"

locale page_io =
  fixes k :: kapi
  assumes read_full: "s_blocksize st = 4096 \<Longrightarrow> icache st no = Some ai \<Longrightarrow> n * PAGE_SIZE < i_size ai \<Longrightarrow>
      gb (of_nat n) (s_blocksize st) False st = Ret (0, Some b, st1) \<Longrightarrow>
      k_read_full_page k gb no n st = Ret (0, put_page no n (b_data st1 (unat b)) st1)"
    and write_full: "s_blocksize st = 4096 \<Longrightarrow> icache st no = Some ai \<Longrightarrow> n * PAGE_SIZE < i_size ai \<Longrightarrow>
      gb (of_nat n) (s_blocksize st) True st = Ret (0, Some b, st1) \<Longrightarrow> d = eof_zeroed (i_size ai) n (pages st1 no n) \<Longrightarrow>
      k_write_full_page k gb no n st = Ret (0, put_buffer (unat b) d (put_page no n d st1))"

text \<open>What a block mapping leaves alone: the pages, and of every cached inode all but the zone pointers.\<close>

definition same_view :: "fs \<Rightarrow> fs \<Rightarrow> bool" where
  "same_view st st' \<longleftrightarrow>
     pages st' = pages st \<and> s_fs_info st' = s_fs_info st \<and> s_blocksize st' = s_blocksize st \<and>
     (\<forall>n. map_option (ai_zone_ptr_update (\<lambda>_. [])) (icache st' n) =
          map_option (ai_zone_ptr_update (\<lambda>_. [])) (icache st n))"

lemma same_view_refl [simp]: "same_view st st" by (simp add: same_view_def)

lemma same_view_dirty [simp]: "same_view st (mark_buffer_dirty bh st)" by (simp add: same_view_def)

lemma same_view_trans: "same_view a b \<Longrightarrow> same_view b c \<Longrightarrow> same_view a c"
  by (simp add: same_view_def)

lemma same_view_inode:
  assumes "same_view st st'" and "icache st n = Some ai"
  obtains ai' where "icache st' n = Some ai'" and "ai' = ai\<lparr>ai_zone_ptr := ai_zone_ptr ai'\<rparr>"
proof -
  have "map_option (ai_zone_ptr_update (\<lambda>_. [])) (icache st' n) = Some (ai\<lparr>ai_zone_ptr := []\<rparr>)"
    using assms by (simp add: same_view_def)
  then obtain ai' where i: "icache st' n = Some ai'" and e: "ai'\<lparr>ai_zone_ptr := []\<rparr> = ai\<lparr>ai_zone_ptr := []\<rparr>"
    by auto
  then have "ai\<lparr>ai_zone_ptr := []\<rparr>\<lparr>ai_zone_ptr := ai_zone_ptr ai'\<rparr> = ai'\<lparr>ai_zone_ptr := []\<rparr>\<lparr>ai_zone_ptr := ai_zone_ptr ai'\<rparr>"
    by simp
  then show ?thesis using that [OF i] by simp
qed

lemma new_zone_loop_view:
  "new_zone_loop bo st i bhs = Ret (z, st') \<Longrightarrow>
     icache st' = icache st \<and> pages st' = pages st \<and> s_fs_info st' = s_fs_info st \<and>
     s_blocksize st' = s_blocksize st"
  by (induction bhs arbitrary: i) (auto simp: Let_def split: if_splits)

lemma get_block_same_view:
  assumes "aufs_get_block bo no ib bs create st = Ret (e, m, st')"
  shows "same_view st st'"
proof (cases "st' = st")
  case False
  obtain ai where ai: "icache st no = Some ai"
    using assms by (cases "icache st no") (auto simp: aufs_get_block_def)
  obtain zone st1 ai1 where z: "aufs_new_zone bo st = Ret (zone, st1)" "st' = put_inode no ai1 st1"
      "ai1\<lparr>ai_zone_ptr := []\<rparr> = ai\<lparr>ai_zone_ptr := []\<rparr>"
    using assms ai False by (auto simp: aufs_get_block_def Let_def split: if_splits sum.splits)
  from new_zone_loop_view [OF z(1) [unfolded aufs_new_zone_def]] z(2,3) ai show ?thesis
    by (simp add: same_view_def)
qed simp

lemma block_io_same_view:
  "block_io (aufs_get_block bo no) st st' \<Longrightarrow> same_view st st'"
  by (erule block_ioE) (auto intro: get_block_same_view)

lemma block_ios_same_view:
  "(block_io (aufs_get_block bo no))\<^sup>*\<^sup>* st st' \<Longrightarrow> same_view st st'"
  by (induction rule: rtranclp_induct) (auto intro: same_view_trans block_io_same_view)

text \<open>
  A block layer that maps the blocks of the range one after the other, and stops at the first
  error. It meets the laws.
\<close>

fun map_blocks :: "get_block \<Rightarrow> nat list \<Rightarrow> fs \<Rightarrow> (int \<times> fs) cres" where
  "map_blocks gb [] st = Ret (0, st)"
| "map_blocks gb (ib # ibs) st =
     (case gb (of_nat ib) (s_blocksize st) True st of
        Inl f \<Rightarrow> Fault f
      | Inr (e, m, st') \<Rightarrow> if e \<noteq> 0 then Ret (e, st') else map_blocks gb ibs st')"

definition map_range :: "get_block \<Rightarrow> nat \<Rightarrow> nat \<Rightarrow> fs \<Rightarrow> (int \<times> fs) cres" where
  "map_range gb pos len st =
     map_blocks gb [pos div unat (s_blocksize st)..<(pos + len + unat (s_blocksize st) - 1) div unat (s_blocksize st)] st"

lemma map_blocks_io: "map_blocks gb ibs st = Ret (e, st') \<Longrightarrow> (block_io gb)\<^sup>*\<^sup>* st st'"
proof (induction ibs arbitrary: st)
  case Nil
  then show ?case by simp
next
  case (Cons ib ibs)
  then obtain e1 m st1 where one: "gb (of_nat ib) (s_blocksize st) True st = Ret (e1, m, st1)"
    by (auto split: sum.splits)
  then have "block_io gb st st1" by (rule io_map)
  moreover have "(block_io gb)\<^sup>*\<^sup>* st1 st'"
    using Cons one by (auto split: if_splits)
  ultimately show ?case by (rule converse_rtranclp_into_rtranclp)
qed

lemma map_range_io: "map_range gb pos len st = Ret (e, st') \<Longrightarrow> (block_io gb)\<^sup>*\<^sup>* st st'"
  unfolding map_range_def by (rule map_blocks_io)

definition blank_inode :: aufs_inode where
  "blank_inode =
     \<lparr>ai_zone_ptr = replicate ZONE_PTR_IN_INODE_NUM 0, i_ino = 0, i_mode = 0, i_size = 0, i_blocks = 0,
      i_uid = 0, i_gid = 0, i_nlink = 1, i_ctime = 0, i_mtime = 0, i_atime = 0, i_op = No_inode_ops,
      i_fop = No_file_ops, a_ops = No_aops, i_dirty = False\<rparr>"

definition page_in :: "get_block \<Rightarrow> nat \<Rightarrow> nat \<Rightarrow> fs \<Rightarrow> (int \<times> fs) cres" where
  "page_in gb no n st =
     (case gb (of_nat n) (s_blocksize st) False st of
        Inl f \<Rightarrow> Fault f
      | Inr (e, b, st1) \<Rightarrow>
          if e \<noteq> 0 then Ret (e, st1)
          else Ret (0, put_page no n (case b of Some b \<Rightarrow> b_data st1 (unat b) | None \<Rightarrow> replicate PAGE_SIZE 0) st1))"

definition page_out :: "get_block \<Rightarrow> nat \<Rightarrow> nat \<Rightarrow> fs \<Rightarrow> (int \<times> fs) cres" where
  "page_out gb no n st =
     (case gb (of_nat n) (s_blocksize st) True st of
        Inl f \<Rightarrow> Fault f
      | Inr (e, b, st1) \<Rightarrow>
          (case (icache st no, b) of
             (Some ai, Some b) \<Rightarrow>
               let d = eof_zeroed (i_size ai) n (pages st1 no n)
               in Ret (e, if e \<noteq> 0 then st1 else put_buffer (unat b) d (put_page no n d st1))
           | _ \<Rightarrow> Ret (e, st1)))"

definition ref_kernel :: kapi where
  "ref_kernel =
     \<lparr>k_bits = le_bitops, k_new_inode = Some blank_inode,
      k_init_owner = (\<lambda>ino dir mode. ino\<lparr>i_mode := mode, i_uid := 0, i_gid := i_gid dir\<rparr>),
      k_time = 5, k_bread = (\<lambda>_. True), k_sync_error = (\<lambda>_. False), k_high2lowuid = id,
      k_high2lowgid = id, k_iget = (\<lambda>_. Some blank_inode),
      k_write_begin = (\<lambda>gb ino pos len st. map_range gb pos len st),
      k_pagecache_write_begin = (\<lambda>gb ino pos len st. map_range gb pos len st),
      k_read_full_page = page_in,
      k_write_full_page = page_out,
      k_truncate_pagecache = (\<lambda>_ _ st. st), k_read_page = (\<lambda>_ _. 0), k_grab_page = (\<lambda>_ _. True),
      k_dirsync = (\<lambda>_. False), k_write_page = (\<lambda>_ _. 0), k_valid_dev = (\<lambda>_. True),
      k_iput = (\<lambda>no st. case icache st no of
          Some ai \<Rightarrow> if i_nlink ai = 0 then evict_inode no st else st | None \<Rightarrow> st),
      k_d_tmpfile = (\<lambda>no st. case icache st no of
          Some ai \<Rightarrow> put_inode no (ai\<lparr>i_nlink := i_nlink ai - 1, i_dirty := True\<rparr>) st | None \<Rightarrow> st)\<rparr>"

lemma ref_kernel_sel [simp]:
  "k_bits ref_kernel = le_bitops" "k_new_inode ref_kernel = Some blank_inode" "k_bread ref_kernel b"
  "\<not> k_sync_error ref_kernel b" "k_iget ref_kernel n = Some blank_inode" "k_read_page ref_kernel i n = 0"
  "k_grab_page ref_kernel i n" "\<not> k_dirsync ref_kernel i" "k_write_page ref_kernel i n = 0"
  "k_valid_dev ref_kernel dev" "k_time ref_kernel = 5" "k_high2lowuid ref_kernel = id"
  "k_high2lowgid ref_kernel = id"
  by (simp_all add: ref_kernel_def)

lemma pages_self: "\<exists>pgs. st = st\<lparr>pages := pgs\<rparr>" for st :: fs
  by (rule exI [of _ "pages st"]) simp

interpretation ref_layer: block_layer ref_kernel
  by unfold_locales (auto simp: ref_kernel_def intro: map_range_io pages_self)

interpretation ref_pages: page_io ref_kernel
  by unfold_locales (simp_all add: ref_kernel_def page_in_def page_out_def Let_def)

end
