(* ===== verification/Kern_Dir.thy ===== *)
theory Kern_Dir
  imports Kern_Inode
begin

text \<open>
  \<^verbatim>\<open>kern/dir.c\<close>: directories as files of 64-byte slots, a 32-bit inode number in the byte
  order of the (little-endian) machine and 60 name bytes, kept in page-cache pages. A page is
  the byte list \<open>pages st ino n\<close>, a pointer into a page is its offset. The abstract view of a
  directory is the list of its names and inode numbers (\<open>dir_list\<close>).
\<close>

subsection \<open>Slots and pages\<close>

definition aufs_dir_offset :: "u64 \<Rightarrow> u64" where
  "aufs_dir_offset idx = idx * 4"

definition aufs_dir_entry_page :: "u64 \<Rightarrow> u64" where
  "aufs_dir_entry_page idx = drop_bit PAGE_SHIFT (aufs_dir_offset idx)"

definition aufs_dir_entry_offset :: "u64 \<Rightarrow> u64" where
  "aufs_dir_entry_offset idx = aufs_dir_offset idx - push_bit PAGE_SHIFT (aufs_dir_entry_page idx)"

definition minix_next_entry :: "nat \<Rightarrow> nat" where
  "minix_next_entry de = de + AUFS_DIR_SIZE"

definition dir_pages :: "aufs_inode \<Rightarrow> nat" where
  "dir_pages ai = (i_size ai + PAGE_SIZE - 1) div PAGE_SIZE"

definition minix_last_byte :: "aufs_inode \<Rightarrow> nat \<Rightarrow> nat" where
  "minix_last_byte ai page_nr =
     (if page_nr = i_size ai div PAGE_SIZE then i_size ai mod PAGE_SIZE else PAGE_SIZE)"

text \<open>\<^verbatim>\<open>dde_inode\<close> and \<^verbatim>\<open>dde_name\<close> of the slot at an offset.\<close>

abbreviation dde_inode :: "bytes \<Rightarrow> nat \<Rightarrow> u32" where "dde_inode pg p \<equiv> le32_at pg p"
abbreviation dde_name :: "nat \<Rightarrow> nat" where "dde_name p \<equiv> p + 4"

text \<open>
  \<^verbatim>\<open>namecompare\<close> of a name with the bytes at offset \<open>buffer\<close> of a page; a comparison that
  leaves the page is a fault.
\<close>

definition namecompare :: "nat \<Rightarrow> bytes \<Rightarrow> bytes \<Rightarrow> nat \<Rightarrow> bool cres" where
  "namecompare maxlen name pg buffer =
     (if length name < maxlen \<and> pg ! (buffer + length name) \<noteq> 0 then Ret False
      else if length pg < buffer + length name then Fault OutOfBounds
      else Ret (slice buffer (length name) pg = name))"

text \<open>
  \<^verbatim>\<open>dir_get_page\<close>: the page, or the error number of reading it. The page cache is part of the state: \<open>pages st dir n\<close> is
  the page once it is up to date. Filling it from the disk (\<^verbatim>\<open>aufs_readpage\<close>) and writing it back (\<^verbatim>\<open>aufs_writepage\<close>, also when
  \<^verbatim>\<open>write_one_page\<close> starts it) are operations of their own, which may come between any two directory operations.
\<close>

definition dir_get_page :: "kapi \<Rightarrow> nat \<Rightarrow> nat \<Rightarrow> fs \<Rightarrow> int + bytes" where
  "dir_get_page k dir n st = (if k_read_page k dir n \<noteq> 0 then Inl (k_read_page k dir n) else Inr (pages st dir n))"

subsection \<open>Finding an entry\<close>

text \<open>The loop over the slots of a page, from offset \<open>p\<close> on.\<close>

function find_in_page :: "bytes \<Rightarrow> bytes \<Rightarrow> nat \<Rightarrow> nat \<Rightarrow> nat option cres" where
  "find_in_page name pg last_byte p =
     (if last_byte < p + AUFS_DIR_SIZE then Ret None
      else if dde_inode pg p = 0 then find_in_page name pg last_byte (minix_next_entry p)
      else (case namecompare AUFS_NAME_LEN name pg (dde_name p) of
              Inl f \<Rightarrow> Fault f
            | Inr True \<Rightarrow> Ret (Some p)
            | Inr False \<Rightarrow> find_in_page name pg last_byte (minix_next_entry p)))"
  by pat_completeness auto
termination
  by (relation "measure (\<lambda>(name, pg, last_byte, p). last_byte - p)")
    (auto simp: AUFS_DIR_SIZE_def minix_next_entry_def)

declare find_in_page.simps [simp del]

function find_in_pages :: "kapi \<Rightarrow> fs \<Rightarrow> nat \<Rightarrow> aufs_inode \<Rightarrow> bytes \<Rightarrow> nat \<Rightarrow> (nat \<times> nat) option cres" where
  "find_in_pages k st dir ai name n =
     (if dir_pages ai \<le> n then Ret None
      else (case dir_get_page k dir n st of
              Inl _ \<Rightarrow> find_in_pages k st dir ai name (n + 1)
            | Inr pg \<Rightarrow>
                (case find_in_page name pg (minix_last_byte ai n) 0 of
                   Inl f \<Rightarrow> Fault f
                 | Inr (Some p) \<Rightarrow> Ret (Some (n, p))
                 | Inr None \<Rightarrow> find_in_pages k st dir ai name (n + 1))))"
  by pat_completeness auto
termination
  by (relation "measure (\<lambda>(k, st, dir, ai, name, n). dir_pages ai - n)") auto

declare find_in_pages.simps [simp del]

text \<open>\<^verbatim>\<open>minix_find_entry\<close>: the page number and the offset of the entry, if there is one.\<close>

definition minix_find_entry :: "kapi \<Rightarrow> nat \<Rightarrow> bytes \<Rightarrow> fs \<Rightarrow> (nat \<times> nat) option cres" where
  "minix_find_entry k dir name st =
     (case icache st dir of
        None \<Rightarrow> Fault NullDeref
      | Some ai \<Rightarrow> find_in_pages k st dir ai name 0)"

definition minix_inode_by_name :: "kapi \<Rightarrow> nat \<Rightarrow> bytes \<Rightarrow> fs \<Rightarrow> u64 cres" where
  "minix_inode_by_name k dir name st =
     (case minix_find_entry k dir name st of
        Inl f \<Rightarrow> Fault f
      | Inr None \<Rightarrow> Ret 0
      | Inr (Some (n, p)) \<Rightarrow> Ret (ucast (dde_inode (pages st dir n) p)))"

subsection \<open>Adding an entry\<close>

text \<open>
  The slot the search loop of \<^verbatim>\<open>minix_add_link\<close> stops at: the end of the directory, a slot
  without an inode, or an entry of that name.
\<close>

datatype slot = Dir_end nat | Free_slot nat | Name_exists

function add_link_page :: "bytes \<Rightarrow> bytes \<Rightarrow> nat \<Rightarrow> nat \<Rightarrow> slot option cres" where
  "add_link_page name pg dir_end p =
     (if PAGE_SIZE - AUFS_DIR_SIZE < p then Ret None
      else if p = dir_end then Ret (Some (Dir_end p))
      else if dde_inode pg p = 0 then Ret (Some (Free_slot p))
      else (case namecompare AUFS_NAME_LEN name pg (dde_name p) of
              Inl f \<Rightarrow> Fault f
            | Inr True \<Rightarrow> Ret (Some Name_exists)
            | Inr False \<Rightarrow> add_link_page name pg dir_end (minix_next_entry p)))"
  by pat_completeness auto
termination
  by (relation "measure (\<lambda>(name, pg, dir_end, p). PAGE_SIZE - p)")
    (auto simp: AUFS_DIR_SIZE_def minix_next_entry_def)

declare add_link_page.simps [simp del]

text \<open>The search over the pages; \<open>Inl e\<close> is the error of a page that cannot be read.\<close>

function add_link_pages ::
    "kapi \<Rightarrow> fs \<Rightarrow> nat \<Rightarrow> aufs_inode \<Rightarrow> bytes \<Rightarrow> nat \<Rightarrow> (int + nat \<times> slot) cres" where
  "add_link_pages k st dir ai name n =
     (if dir_pages ai < n then Fault BugOn
      else (case dir_get_page k dir n st of
              Inl e \<Rightarrow> Ret (Inl e)
            | Inr pg \<Rightarrow>
                (case add_link_page name pg (minix_last_byte ai n) 0 of
                   Inl f \<Rightarrow> Fault f
                 | Inr (Some s) \<Rightarrow> Ret (Inr (n, s))
                 | Inr None \<Rightarrow> add_link_pages k st dir ai name (n + 1))))"
  by pat_completeness auto
termination
  by (relation "measure (\<lambda>(k, st, dir, ai, name, n). Suc (dir_pages ai) - n)") auto

declare add_link_pages.simps [simp del]

definition mark_inode_dirty :: "nat \<Rightarrow> fs \<Rightarrow> fs" where
  "mark_inode_dirty ino st =
     (case icache st ino of
        None \<Rightarrow> st
      | Some ai \<Rightarrow> put_inode ino (ai\<lparr>i_dirty := True\<rparr>) st)"

definition dir_commit_chunk :: "kapi \<Rightarrow> nat \<Rightarrow> nat \<Rightarrow> nat \<Rightarrow> nat \<Rightarrow> fs \<Rightarrow> (int \<times> fs) cres" where
  "dir_commit_chunk k dir n pos len st =
     (case icache st dir of
        None \<Rightarrow> Fault NullDeref
      | Some ai \<Rightarrow>
          let st1 = (if i_size ai < pos + len
                     then mark_inode_dirty dir (put_inode dir (ai\<lparr>i_size := pos + len\<rparr>) st)
                     else st)
          in Ret (if k_dirsync k dir then k_write_page k dir n else 0, st1))"

definition write_slot_inode :: "nat \<Rightarrow> u32 \<Rightarrow> bytes \<Rightarrow> bytes" where
  "write_slot_inode p ino pg = blit p (le32_enc ino) pg"

text \<open>
  From the label \<^verbatim>\<open>got_it\<close> on: the chunk is prepared, the name copied and padded with zeros, the
  inode number stored and the chunk committed. The length of the padding is an unsigned
  number, so a name of more than 60 bytes makes \<^verbatim>\<open>memset\<close> run over the whole address space.
\<close>

definition add_link_at :: "kapi \<Rightarrow> nat \<Rightarrow> bytes \<Rightarrow> u64 \<Rightarrow> nat \<Rightarrow> nat \<Rightarrow> fs \<Rightarrow> (int \<times> fs) cres" where
  "add_link_at k dir name ino n p st =
     (let pos = n * PAGE_SIZE + p
      in case minix_prepare_chunk k dir pos AUFS_DIR_SIZE st of
           Inl f \<Rightarrow> Fault f
         | Inr (err, st1) \<Rightarrow>
             if err \<noteq> 0 then Ret (err, st1)
             else if AUFS_DIR_SIZE - 4 < length name then Fault OutOfBounds
             else
               let pg = pages st1 dir n;
                   pg1 = blit (dde_name p) name pg;
                   pg2 = blit (dde_name p + length name) (replicate (AUFS_DIR_SIZE - length name - 4) 0) pg1;
                   pg3 = write_slot_inode p (ucast ino) pg2
               in case dir_commit_chunk k dir n pos AUFS_DIR_SIZE (put_page dir n pg3 st1) of
                    Inl f \<Rightarrow> Fault f
                  | Inr (err2, st2) \<Rightarrow>
                      (case icache st2 dir of
                         None \<Rightarrow> Fault NullDeref
                       | Some ai2 \<Rightarrow>
                           Ret (err2, mark_inode_dirty dir
                             (put_inode dir (ai2\<lparr>i_mtime := k_time k, i_ctime := k_time k\<rparr>) st2))))"

definition minix_add_link :: "kapi \<Rightarrow> nat \<Rightarrow> bytes \<Rightarrow> u64 \<Rightarrow> fs \<Rightarrow> (int \<times> fs) cres" where
  "minix_add_link k dir name ino st =
     (case icache st dir of
        None \<Rightarrow> Fault NullDeref
      | Some ai \<Rightarrow>
          (case add_link_pages k st dir ai name 0 of
             Inl f \<Rightarrow> Fault f
           | Inr (Inl e) \<Rightarrow> Ret (e, st)
           | Inr (Inr (n, Name_exists)) \<Rightarrow> Ret (- EEXIST, st)
           | Inr (Inr (n, Free_slot p)) \<Rightarrow> add_link_at k dir name ino n p st
           | Inr (Inr (n, Dir_end p)) \<Rightarrow>
               add_link_at k dir name ino n p
                 (put_page dir n (write_slot_inode p 0 (pages st dir n)) st)))"

text \<open>\<^verbatim>\<open>minix_make_empty\<close>: the first page of a new directory. Every page but the two entries is zero.\<close>

definition minix_make_empty :: "kapi \<Rightarrow> nat \<Rightarrow> nat \<Rightarrow> fs \<Rightarrow> (int \<times> fs) cres" where
  "minix_make_empty k inode dir st =
     (case (icache st inode, icache st dir) of
        (Some ai, Some di) \<Rightarrow>
          if \<not> k_grab_page k inode 0 then Ret (- ENOMEM, st)
          else
            (case minix_prepare_chunk k inode 0 (2 * AUFS_DIR_SIZE) st of
               Inl f \<Rightarrow> Fault f
             | Inr (err, st1) \<Rightarrow>
                 if err \<noteq> 0 then Ret (err, st1)
                 else
                   let pg0 = replicate PAGE_SIZE 0;
                       pg1 = blit (dde_name 0) [46, 0] (write_slot_inode 0 (ucast (i_ino ai)) pg0);
                       de = minix_next_entry 0;
                       pg2 = blit (dde_name de) [46, 46, 0] (write_slot_inode de (ucast (i_ino di)) pg1)
                   in dir_commit_chunk k inode 0 0 (2 * AUFS_DIR_SIZE) (put_page inode 0 pg2 st1))
      | _ \<Rightarrow> Fault NullDeref)"

subsection \<open>Listing\<close>

text \<open>
  The context of \<^verbatim>\<open>minix_readdir\<close>: the position and what was emitted. The actor behind
  \<^verbatim>\<open>dir_emit\<close> may refuse an entry; it is the function \<open>actor\<close> of what it already got.
\<close>

type_synonym dirent = "bytes \<times> u32"

record dir_context =
  ctx_pos :: nat
  ctx_out :: "dirent list"

definition strnlen :: "bytes \<Rightarrow> nat \<Rightarrow> nat \<Rightarrow> nat" where
  "strnlen pg off maxlen = length (takeWhile (\<lambda>b. b \<noteq> 0) (slice off maxlen pg))"

function readdir_page ::
    "(dirent list \<Rightarrow> dirent \<Rightarrow> bool) \<Rightarrow> bytes \<Rightarrow> nat \<Rightarrow> nat \<Rightarrow> dir_context \<Rightarrow> bool \<times> dir_context" where
  "readdir_page actor pg last_byte p ctx =
     (if last_byte < p + AUFS_DIR_SIZE then (True, ctx)
      else if dde_inode pg p \<noteq> 0 then
        let e = (slice (dde_name p) (strnlen pg (dde_name p) AUFS_NAME_LEN) pg, dde_inode pg p)
        in if \<not> actor (ctx_out ctx) e then (False, ctx)
           else readdir_page actor pg last_byte (minix_next_entry p)
                  (ctx\<lparr>ctx_out := ctx_out ctx @ [e], ctx_pos := ctx_pos ctx + AUFS_DIR_SIZE\<rparr>)
      else readdir_page actor pg last_byte (minix_next_entry p)
             (ctx\<lparr>ctx_pos := ctx_pos ctx + AUFS_DIR_SIZE\<rparr>))"
  by pat_completeness auto
termination
  by (relation "measure (\<lambda>(actor, pg, last_byte, p, ctx). last_byte - p)")
    (auto simp: AUFS_DIR_SIZE_def minix_next_entry_def)

declare readdir_page.simps [simp del]

function readdir_pages ::
    "kapi \<Rightarrow> (dirent list \<Rightarrow> dirent \<Rightarrow> bool) \<Rightarrow> fs \<Rightarrow> nat \<Rightarrow> aufs_inode \<Rightarrow> nat \<Rightarrow> nat \<Rightarrow> dir_context \<Rightarrow>
     dir_context" where
  "readdir_pages k actor st inode ai n offset ctx =
     (if dir_pages ai \<le> n then ctx
      else (case dir_get_page k inode n st of
              Inl _ \<Rightarrow> readdir_pages k actor st inode ai (n + 1) 0 ctx
            | Inr pg \<Rightarrow>
                (case readdir_page actor pg (minix_last_byte ai n) offset ctx of
                   (False, ctx1) \<Rightarrow> ctx1
                 | (True, ctx1) \<Rightarrow> readdir_pages k actor st inode ai (n + 1) 0 ctx1)))"
  by pat_completeness auto
termination
  by (relation "measure (\<lambda>(k, actor, st, inode, ai, n, offset, ctx). dir_pages ai - n)") auto

declare readdir_pages.simps [simp del]

definition minix_readdir ::
    "kapi \<Rightarrow> (dirent list \<Rightarrow> dirent \<Rightarrow> bool) \<Rightarrow> nat \<Rightarrow> dir_context \<Rightarrow> fs \<Rightarrow> (int \<times> dir_context) cres" where
  "minix_readdir k actor inode ctx st =
     (case icache st inode of
        None \<Rightarrow> Fault NullDeref
      | Some ai \<Rightarrow>
          let pos = align_up (ctx_pos ctx) AUFS_DIR_SIZE;
              ctx1 = ctx\<lparr>ctx_pos := pos\<rparr>
          in if i_size ai \<le> pos then Ret (0, ctx1)
             else Ret (0, readdir_pages k actor st inode ai (pos div PAGE_SIZE) (pos mod PAGE_SIZE) ctx1))"

subsection \<open>The abstract directory\<close>

text \<open>The name and the inode number in slot \<open>j\<close> of a page, and in slot \<open>i\<close> of a directory.\<close>

definition page_name :: "bytes \<Rightarrow> nat \<Rightarrow> bytes" where
  "page_name pg j = takeWhile (\<lambda>b. b \<noteq> 0) (slice (64 * j + 4) 60 pg)"

definition slot_name :: "fs \<Rightarrow> nat \<Rightarrow> nat \<Rightarrow> bytes" where
  "slot_name st dir i = page_name (pages st dir (i div 64)) (i mod 64)"

definition slot_ino :: "fs \<Rightarrow> nat \<Rightarrow> nat \<Rightarrow> u32" where
  "slot_ino st dir i = dde_inode (pages st dir (i div 64)) (64 * (i mod 64))"

definition dir_len :: "fs \<Rightarrow> nat \<Rightarrow> nat" where
  "dir_len st dir = (case icache st dir of None \<Rightarrow> 0 | Some ai \<Rightarrow> i_size ai div 64)"

definition dir_list :: "fs \<Rightarrow> nat \<Rightarrow> dirent list" where
  "dir_list st dir = map (\<lambda>i. (slot_name st dir i, slot_ino st dir i)) [0..<dir_len st dir]"

text \<open>
  A well-formed directory: its size is a whole number of slots, every slot has an inode
  number, and the pages have the page size.
\<close>

definition dir_ok :: "fs \<Rightarrow> nat \<Rightarrow> bool" where
  "dir_ok st dir \<longleftrightarrow>
     (\<exists>ai. icache st dir = Some ai \<and> i_size ai = 64 * dir_len st dir) \<and>
     (\<forall>n. length (pages st dir n) = PAGE_SIZE) \<and> (\<forall>i < dir_len st dir. slot_ino st dir i \<noteq> 0)"

text \<open>What the VFS passes as a name, and what fits a slot.\<close>

definition name_ok :: "bytes \<Rightarrow> bool" where
  "name_ok name \<longleftrightarrow> 0 \<notin> set name \<and> length name \<le> AUFS_NAME_LEN"

subsection \<open>Searching\<close>

lemma namecompare_slot:
  assumes "name_ok name" and "length pg = 4096" and "j < 64"
  shows "namecompare AUFS_NAME_LEN name pg (dde_name (64 * j)) = Ret (page_name pg j = name)"
proof -
  let ?ys = "slice (64 * j + 4) 60 pg"
  have len: "length ?ys = 60" using assms(2,3) by (intro length_slice) simp
  have nl: "length name \<le> 60" "0 \<notin> set name" using assms(1) by (auto simp: name_ok_def AUFS_NAME_LEN_def)
  have nth: "length name < 60 \<Longrightarrow> ?ys ! length name = pg ! (64 * j + 4 + length name)"
    using assms(2,3) by (simp add: slice_def)
  have pre: "take (length name) ?ys = slice (64 * j + 4) (length name) pg"
    using nl by (simp add: slice_def min_def)
  have iff: "page_name pg j = name \<longleftrightarrow> slice (64 * j + 4) (length name) pg = name \<and>
      (length name < 60 \<longrightarrow> pg ! (64 * j + 4 + length name) = 0)"
    using takeWhile_eq_prefix [of name ?ys] nl len pre nth by (auto simp: page_name_def)
  have "\<not> length pg < 64 * j + 4 + length name" using assms(2,3) nl by simp
  then show ?thesis unfolding namecompare_def iff by (auto simp: AUFS_NAME_LEN_def)
qed

lemma find_in_page_eq:
  assumes "name_ok name" and "length pg = 4096" and "e \<le> 64"
    and "\<forall>j < e. dde_inode pg (64 * j) \<noteq> 0"
  shows "find_in_page name pg (64 * e) (64 * j) =
    Ret (map_option (\<lambda>j. 64 * j) (List.find (\<lambda>j. page_name pg j = name) [j..<e]))"
proof (induction "e - j" arbitrary: j)
  case 0
  then show ?case by (subst find_in_page.simps) (simp add: AUFS_DIR_SIZE_def)
next
  case (Suc d)
  then have j: "j < e" by simp
  have step: "find_in_page name pg (64 * e) (64 * j) =
      (if page_name pg j = name then Ret (Some (64 * j)) else find_in_page name pg (64 * e) (64 * Suc j))"
    using j assms namecompare_slot [OF assms(1,2), of j]
    by (subst find_in_page.simps) (simp add: AUFS_DIR_SIZE_def minix_next_entry_def add.commute)
  have "[j..<e] = j # [Suc j..<e]" using j by (simp add: upt_conv_Cons)
  then show ?case using Suc.hyps(1) [of "Suc j"] Suc.hyps(2) step by simp
qed

lemma add_link_page_eq:
  assumes "name_ok name" and "length pg = 4096" and "e \<le> 64"
    and "\<forall>j < e. dde_inode pg (64 * j) \<noteq> 0" and "j \<le> e"
  shows "add_link_page name pg (64 * e) (64 * j) =
    Ret (if List.find (\<lambda>j. page_name pg j = name) [j..<e] \<noteq> None then Some Name_exists
         else if e < 64 then Some (Dir_end (64 * e)) else None)"
  using assms(5)
proof (induction "e - j" arbitrary: j)
  case 0
  then show ?case by (subst add_link_page.simps) (auto simp: AUFS_DIR_SIZE_def)
next
  case (Suc d)
  then have j: "j < e" by simp
  have step: "add_link_page name pg (64 * e) (64 * j) =
      (if page_name pg j = name then Ret (Some Name_exists) else add_link_page name pg (64 * e) (64 * Suc j))"
    using j assms namecompare_slot [OF assms(1,2), of j]
    by (subst add_link_page.simps) (simp add: AUFS_DIR_SIZE_def minix_next_entry_def add.commute)
  have "[j..<e] = j # [Suc j..<e]" using j by (simp add: upt_conv_Cons)
  then show ?case using Suc.hyps(1) [of "Suc j"] Suc.hyps(2) j step by simp
qed

text \<open>The slots of page \<open>n\<close> of a directory with \<open>N\<close> slots.\<close>

lemma last_byte_slots:
  assumes "i_size ai = 64 * N"
  shows "n < N div 64 \<Longrightarrow> minix_last_byte ai n = 64 * 64"
    and "minix_last_byte ai (N div 64) = 64 * (N mod 64)"
    and "dir_pages ai = (N + 63) div 64"
proof -
  have d: "i_size ai div 4096 = N div 64" "i_size ai mod 4096 = 64 * (N mod 64)"
    using assms div_mult2_eq [of "64 * N" 64 64] mult_mod_right [of 64 N 64] by simp_all
  show "n < N div 64 \<Longrightarrow> minix_last_byte ai n = 64 * 64" "minix_last_byte ai (N div 64) = 64 * (N mod 64)"
    by (simp_all add: minix_last_byte_def d)
  have "(64 * N + 4095) div 4096 = (64 * N + 4095) div 64 div 64" by (simp flip: div_mult2_eq)
  moreover have "(64 * N + 4095) div 64 = N + 63" by simp
  ultimately show "dir_pages ai = (N + 63) div 64" by (simp add: dir_pages_def assms)
qed

lemma page_slots:
  assumes "dir_ok st dir" and "icache st dir = Some ai" and "n \<le> dir_len st dir div 64"
  obtains e where "minix_last_byte ai n = 64 * e" and "e \<le> 64"
    and "length (pages st dir n) = 4096" and "\<forall>j < e. dde_inode (pages st dir n) (64 * j) \<noteq> 0"
    and "[64 * n..<dir_len st dir] = map (\<lambda>j. 64 * n + j) [0..<e] @ [64 * Suc n..<dir_len st dir]"
    and "e = (if n < dir_len st dir div 64 then 64 else dir_len st dir mod 64)"
proof -
  let ?N = "dir_len st dir"
  let ?e = "if n < ?N div 64 then 64 else ?N mod 64"
  have sz: "i_size ai = 64 * ?N" using assms(1,2) by (auto simp: dir_ok_def)
  have last: "minix_last_byte ai n = 64 * ?e"
    using last_byte_slots(1,2) [OF sz] assms(3) by auto
  have Nd: "64 * (?N div 64) + ?N mod 64 = ?N" by simp
  have bound: "64 * n + ?e \<le> ?N"
  proof (cases "n < ?N div 64")
    case True
    then have "64 * (n + 1) \<le> 64 * (?N div 64)" by simp
    then show ?thesis using True Nd by simp
  next
    case False
    then have "n = ?N div 64" using assms(3) by simp
    then show ?thesis using Nd by simp
  qed
  have ino: "\<forall>j < ?e. dde_inode (pages st dir n) (64 * j) \<noteq> 0"
  proof (intro allI impI)
    fix j assume j: "j < ?e"
    have "?e \<le> 64" by simp
    then have j64: "j < 64" using j by simp
    have "slot_ino st dir (64 * n + j) \<noteq> 0" using assms(1) bound j by (simp add: dir_ok_def)
    then show "dde_inode (pages st dir n) (64 * j) \<noteq> 0" using j64 by (simp add: slot_ino_def)
  qed
  have split: "[64 * n..<?N] = map (\<lambda>j. 64 * n + j) [0..<?e] @ [64 * Suc n..<?N]"
  proof -
    have "[64 * n..<?N] = [64 * n..<64 * n + ?e] @ [64 * n + ?e..<?N]"
      using bound by (metis le_add1 upt_add_eq_append le_Suc_ex)
    moreover have "[64 * n + ?e..<?N] = [64 * Suc n..<?N]"
    proof (cases "n < ?N div 64")
      case False
      then have "n = ?N div 64" using assms(3) by simp
      then show ?thesis using Nd by (simp add: mult_div_mod_eq)
    qed (simp add: add.commute)
    moreover have "[64 * n..<64 * n + ?e] = map (\<lambda>j. 64 * n + j) [0..<?e]"
      using map_add_upt [of "64 * n" "?e"] by (simp add: add.commute)
    ultimately show ?thesis by simp
  qed
  show ?thesis
    by (rule that [OF last _ _ ino split refl]) (use assms(1) in \<open>auto simp: dir_ok_def\<close>)
qed

text \<open>
  The kernel functions of a directory whose pages can be read: every page is read without
  error, and the generic block functions obey their laws.
\<close>

locale dir_kernel = block_layer +
  assumes read_page_ok: "k_read_page k ino n = 0"
begin

lemma get_page [simp]: "dir_get_page k dir n st = Inr (pages st dir n)"
  by (simp add: dir_get_page_def read_page_ok)

lemma find_pages_eq:
  assumes "dir_ok st dir" and "icache st dir = Some ai" and "name_ok name"
  shows "find_in_pages k st dir ai name n =
    Ret (map_option (\<lambda>i. (i div 64, 64 * (i mod 64)))
          (List.find (\<lambda>i. slot_name st dir i = name) [64 * n..<dir_len st dir]))"
proof (induction "dir_pages ai - n" arbitrary: n)
  case 0
  have sz: "i_size ai = 64 * dir_len st dir" using assms(1,2) by (auto simp: dir_ok_def)
  have "dir_len st dir \<le> 64 * ((dir_len st dir + 63) div 64)"
    using div_mult_mod_eq [of "dir_len st dir + 63" 64] mod_less_divisor [of 64 "dir_len st dir + 63"]
    by linarith
  then have "dir_len st dir \<le> 64 * dir_pages ai" using last_byte_slots(3) [OF sz] by simp
  moreover have "64 * dir_pages ai \<le> 64 * n" using 0 by simp
  ultimately have "dir_len st dir \<le> 64 * n" by (rule le_trans)
  then show ?case using 0 by (subst find_in_pages.simps) simp
next
  case (Suc d)
  then have n: "n < dir_pages ai" by simp
  have sz: "i_size ai = 64 * dir_len st dir" using assms(1,2) by (auto simp: dir_ok_def)
  have "n \<le> dir_len st dir div 64" using n last_byte_slots(3) [OF sz] by linarith
  then obtain e where e: "minix_last_byte ai n = 64 * e" "e \<le> 64"
    "length (pages st dir n) = 4096" "\<forall>j < e. dde_inode (pages st dir n) (64 * j) \<noteq> 0"
    and split: "[64 * n..<dir_len st dir] = map (\<lambda>j. 64 * n + j) [0..<e] @ [64 * Suc n..<dir_len st dir]"
    by (rule page_slots [OF assms(1,2)])
  let ?r = "List.find (\<lambda>j. page_name (pages st dir n) j = name) [0..<e]"
  have page: "find_in_page name (pages st dir n) (minix_last_byte ai n) 0 = Ret (map_option (\<lambda>j. 64 * j) ?r)"
    using find_in_page_eq [OF assms(3) e(3,2,4), of 0] e(1) by simp
  have here: "List.find (\<lambda>i. slot_name st dir i = name) (map (\<lambda>j. 64 * n + j) [0..<e]) = map_option (\<lambda>j. 64 * n + j) ?r"
    unfolding find_map using e(2) by (intro arg_cong [where f = "map_option _"] find_cong) (simp add: slot_name_def)
  have lt: "?r = Some j \<Longrightarrow> j < 64" for j
    using e(2) by (auto simp: find_Some_iff)
  have IH: "find_in_pages k st dir ai name (n + 1) = Ret (map_option (\<lambda>i. (i div 64, 64 * (i mod 64)))
          (List.find (\<lambda>i. slot_name st dir i = name) [64 * Suc n..<dir_len st dir]))"
    using Suc.hyps by simp
  show ?case
    using n page here lt IH by (subst find_in_pages.simps) (auto simp: split find_append split: option.split)
qed

lemma inode_by_name_eq:
  assumes "dir_ok st dir" and "name_ok name"
  shows "minix_inode_by_name k dir name st =
    Ret (case map_of (dir_list st dir) name of None \<Rightarrow> 0 | Some ino \<Rightarrow> ucast ino)"
proof -
  obtain ai where ai: "icache st dir = Some ai" using assms(1) by (auto simp: dir_ok_def)
  show ?thesis
    using find_pages_eq [OF assms(1) ai assms(2), of 0] ai
    by (auto simp: minix_inode_by_name_def minix_find_entry_def dir_list_def map_of_find slot_ino_def
        split: option.split)
qed

lemma add_link_pages_eq:
  assumes "dir_ok st dir" and "icache st dir = Some ai" and "name_ok name"
    and "n \<le> dir_len st dir div 64"
  shows "\<exists>m. add_link_pages k st dir ai name n =
    Ret (Inr (if List.find (\<lambda>i. slot_name st dir i = name) [64 * n..<dir_len st dir] \<noteq> None
              then (m, Name_exists)
              else (dir_len st dir div 64, Dir_end (64 * (dir_len st dir mod 64)))))"
  using assms(4)
proof (induction "dir_len st dir div 64 - n" arbitrary: n rule: less_induct)
  case less
  have sz: "i_size ai = 64 * dir_len st dir" using assms(1,2) by (auto simp: dir_ok_def)
  have "dir_len st dir div 64 \<le> dir_pages ai"
    unfolding last_byte_slots(3) [OF sz] by (rule div_le_mono) simp
  then have n: "\<not> dir_pages ai < n" using less.prems by simp
  obtain e where e: "minix_last_byte ai n = 64 * e" "e \<le> 64"
    "length (pages st dir n) = 4096" "\<forall>j < e. dde_inode (pages st dir n) (64 * j) \<noteq> 0"
    and split: "[64 * n..<dir_len st dir] = map (\<lambda>j. 64 * n + j) [0..<e] @ [64 * Suc n..<dir_len st dir]"
    and last: "e = (if n < dir_len st dir div 64 then 64 else dir_len st dir mod 64)"
    by (rule page_slots [OF assms(1,2) less.prems])
  let ?r = "List.find (\<lambda>j. page_name (pages st dir n) j = name) [0..<e]"
  have page: "add_link_page name (pages st dir n) (minix_last_byte ai n) 0 =
      Ret (if ?r \<noteq> None then Some Name_exists else if e < 64 then Some (Dir_end (64 * e)) else None)"
    using add_link_page_eq [OF assms(3) e(3,2,4), of 0] e(1) by simp
  have here: "List.find (\<lambda>i. slot_name st dir i = name) (map (\<lambda>j. 64 * n + j) [0..<e]) = map_option (\<lambda>j. 64 * n + j) ?r"
    unfolding find_map using e(2) by (intro arg_cong [where f = "map_option _"] find_cong) (simp add: slot_name_def)
  show ?case
  proof (cases "n < dir_len st dir div 64")
    case True
    then have "dir_len st dir div 64 - (n + 1) < dir_len st dir div 64 - n" "n + 1 \<le> dir_len st dir div 64"
      by simp_all
    from less.hyps [OF this] obtain m where IH: "add_link_pages k st dir ai name (n + 1) =
      Ret (Inr (if List.find (\<lambda>i. slot_name st dir i = name) [64 * Suc n..<dir_len st dir] \<noteq> None
              then (m, Name_exists)
              else (dir_len st dir div 64, Dir_end (64 * (dir_len st dir mod 64)))))" by auto
    show ?thesis
      using n page here IH last True
      by (subst add_link_pages.simps) (auto simp: split find_append split: option.split)
  next
    case False
    then have nd: "n = dir_len st dir div 64" using less.prems by simp
    then have none: "[64 * Suc n..<dir_len st dir] = []"
      using div_mult_mod_eq [of "dir_len st dir" 64] mod_less_divisor [of 64 "dir_len st dir"] by simp
    have all: "List.find (\<lambda>i. slot_name st dir i = name) [64 * n..<dir_len st dir] =
        map_option (\<lambda>j. 64 * n + j) ?r"
      unfolding split none append_Nil2 by (rule here)
    have "e < 64" "e = dir_len st dir mod 64" using last nd by simp_all
    then show ?thesis
      using n page nd unfolding all by (subst add_link_pages.simps) auto
  qed
qed

end

subsection \<open>Filling a slot\<close>

definition slot_bytes :: "u32 \<Rightarrow> bytes \<Rightarrow> bytes" where
  "slot_bytes ino name = le32_enc ino @ name @ replicate (60 - length name) 0"

lemma length_slot_bytes [simp]: "length name \<le> 60 \<Longrightarrow> length (slot_bytes ino name) = 64"
  by (simp add: slot_bytes_def)

text \<open>The three writes of \<^verbatim>\<open>minix_add_link\<close> fill one slot, whatever its inode number was.\<close>

lemma slot_fill:
  assumes "p + 64 \<le> length pg" and "length name \<le> 60"
  shows "write_slot_inode p ino (blit (dde_name p + length name)
      (replicate (AUFS_DIR_SIZE - length name - 4) 0) (blit (dde_name p) name (write_slot_inode p ino0 pg))) =
    blit p (slot_bytes ino name) pg"
  by (rule nth_equalityI)
    (use assms in \<open>auto simp: write_slot_inode_def slot_bytes_def nth_blit nth_append AUFS_DIR_SIZE_def\<close>)

lemma le32_at_slot_bytes: "length name \<le> 60 \<Longrightarrow> le32_at (slot_bytes ino name) 0 = ino"
  using le32_at_blit [of 0 "slot_bytes 0 name" ino] by (simp add: slot_bytes_def le32_at_def le32_enc_def blit_def)

lemma slot_ino_blit:
  assumes "length pg = 4096" and "i < 64" and "j < 64" and "length name \<le> 60"
  shows "dde_inode (blit (64 * j) (slot_bytes ino name) pg) (64 * i) =
    (if i = j then ino else dde_inode pg (64 * i))"
proof (cases "i = j")
  case True
  have "blit (64 * j) (slot_bytes ino name) pg ! (64 * j + m) = slot_bytes ino name ! m" if "m < 4" for m
    using assms that by (intro nth_blit_same) auto
  from this [of 0] this [of 1] this [of 2] this [of 3] show ?thesis
    using True le32_at_slot_bytes [OF assms(4), of ino] by (simp add: le32_at_def numeral_2_eq_2)
next
  case False
  then have "64 * i + 64 \<le> 64 * j \<or> 64 * j + 64 \<le> 64 * i" by auto
  then show ?thesis
    using False assms by (subst le32_at_blit_other) auto
qed

lemma page_name_blit:
  assumes "length pg = 4096" and "i < 64" and "j < 64" and "name_ok name"
  shows "page_name (blit (64 * j) (slot_bytes ino name) pg) i = (if i = j then name else page_name pg i)"
proof -
  have nl: "length name \<le> 60" "0 \<notin> set name" using assms(4) by (auto simp: name_ok_def AUFS_NAME_LEN_def)
  show ?thesis
  proof (cases "i = j")
    case True
    have "blit (64 * j) (slot_bytes ino name) pg =
        blit (64 * j) (le32_enc ino) (blit (64 * j + 4) (name @ replicate (60 - length name) 0) pg)"
      unfolding slot_bytes_def using assms(1,3) nl by (subst blit_append) auto
    then have "slice (64 * j + 4) 60 (blit (64 * j) (slot_bytes ino name) pg) = name @ replicate (60 - length name) 0"
      using slice_blit_same [of "64 * j + 4" "name @ replicate (60 - length name) 0" pg] assms(1,3) nl
      by (simp add: slice_blit_other)
    moreover have "takeWhile (\<lambda>b. b \<noteq> 0) (name @ replicate m (0 :: u8)) = name" for m
      using nl(2) by (subst takeWhile_append2) (auto simp: takeWhile_replicate)
    ultimately show ?thesis using True by (simp add: page_name_def)
  next
    case False
    then have "64 * i + 64 \<le> 64 * j \<or> 64 * j + 64 \<le> 64 * i" by auto
    then show ?thesis
      using False assms nl by (auto simp: page_name_def slice_blit_other)
  qed
qed

lemma dir_append:
  assumes "dir_ok st dir" and N: "N = dir_len st dir" and "name_ok name" and "ino \<noteq> 0"
    and pg: "pages st' dir = (pages st dir)(N div 64 :=
        blit (64 * (N mod 64)) (slot_bytes ino name) (pages st dir (N div 64)))"
    and ai: "icache st' dir = Some ai" "i_size ai = 64 * (N + 1)"
  shows "dir_list st' dir = dir_list st dir @ [(name, ino)]" and "dir_ok st' dir"
proof -
  have len: "length (pages st dir n) = 4096" for n using assms(1) by (simp add: dir_ok_def)
  have nl: "length name \<le> 60" using assms(3) by (simp add: name_ok_def AUFS_NAME_LEN_def)
  have dl: "dir_len st' dir = N + 1" using ai by (simp add: dir_len_def)
  have m: "N mod 64 < 64" by simp
  have neq: "i div 64 = N div 64 \<Longrightarrow> i mod 64 = N mod 64 \<Longrightarrow> i = N" for i
    by (metis div_mult_mod_eq)
  have nm: "slot_name st' dir i = (if i = N then name else slot_name st dir i)" for i
    using neq [of i] page_name_blit [OF len [of "N div 64"] _ m assms(3), of "i mod 64" ino]
    by (auto simp: slot_name_def pg)
  have no: "slot_ino st' dir i = (if i = N then ino else slot_ino st dir i)" for i
    using neq [of i] slot_ino_blit [OF len [of "N div 64"] _ m nl, of "i mod 64" ino]
    by (auto simp: slot_ino_def pg)
  show "dir_list st' dir = dir_list st dir @ [(name, ino)]"
    by (simp add: dir_list_def dl nm no N)
  have "length (pages st' dir n) = 4096" for n
    using len m nl by (simp add: pg)
  moreover have "slot_ino st dir i \<noteq> 0" if "i < N" for i using assms(1) that by (simp add: dir_ok_def N)
  ultimately show "dir_ok st' dir"
    unfolding dir_ok_def dl using ai assms(4) no by (auto simp: less_Suc_eq)
qed


subsection \<open>Adding an entry, seen abstractly\<close>

text \<open>The state in which the chunk behind the last slot is prepared.\<close>

definition dir_end_cleared :: "fs \<Rightarrow> nat \<Rightarrow> fs" where
  "dir_end_cleared st dir =
     (let n = dir_len st dir div 64; p = 64 * (dir_len st dir mod 64)
      in put_page dir n (write_slot_inode p 0 (pages st dir n)) st)"

lemma find_None_iff_names:
  "List.find (\<lambda>i. slot_name st dir i = name) [0..<dir_len st dir] = None \<longleftrightarrow>
     name \<notin> fst ` set (dir_list st dir)"
  by (force simp: find_None_iff dir_list_def)

lemma mark_inode_dirty_put [simp]:
  "mark_inode_dirty dir (put_inode dir ai st) = put_inode dir (ai\<lparr>i_dirty := True\<rparr>) st"
  by (simp add: mark_inode_dirty_def put_inode_def)

lemma put_inode_twice [simp]: "put_inode dir ai (put_inode dir ai' st) = put_inode dir ai st"
  by (simp add: put_inode_def)

text \<open>The clearing of the slot behind the end does not change the directory.\<close>

lemma slot_clear_pages:
  assumes "dir_ok st dir"
  shows "length (write_slot_inode (64 * (dir_len st dir mod 64)) 0 (pages st dir n)) = 4096"
  using assms by (simp add: write_slot_inode_def dir_ok_def)

lemma dir_ok_cleared:
  assumes "dir_ok st dir" and "pages st' = pages (dir_end_cleared st dir)"
    and "icache st' dir = Some ai" and "i_size ai = 64 * dir_len st dir"
  shows "dir_list st' dir = dir_list st dir" and "dir_ok st' dir"
proof -
  let ?N = "dir_len st dir"
  let ?p = "64 * (?N mod 64)"
  have len: "length (pages st dir n) = 4096" for n using assms(1) by (simp add: dir_ok_def)
  have pg: "pages st' dir = (pages st dir)(?N div 64 := blit ?p (le32_enc 0) (pages st dir (?N div 64)))"
    using assms(2) by (simp add: dir_end_cleared_def Let_def write_slot_inode_def)
  have dl: "dir_len st' dir = ?N" using assms(3,4) by (simp add: dir_len_def)
  have off: "64 * (i mod 64) + 64 \<le> ?p" if "i < ?N" "i div 64 = ?N div 64" for i
  proof -
    have "i mod 64 < ?N mod 64" using that by (metis div_mult_mod_eq nat_add_left_cancel_less)
    then show ?thesis by linarith
  qed
  have m: "?N mod 64 < 64" by simp
  have nm: "slot_name st' dir i = slot_name st dir i" if "i < ?N" for i
    using off [OF that] len [of "?N div 64"] m
    by (auto simp: slot_name_def page_name_def pg slice_blit_other)
  have no: "slot_ino st' dir i = slot_ino st dir i" if "i < ?N" for i
    using off [OF that] len [of "?N div 64"] m
    by (auto simp: slot_ino_def pg le32_at_blit_other)
  show "dir_list st' dir = dir_list st dir" by (simp add: dir_list_def dl nm no)
  show "dir_ok st' dir" using assms(1,3,4) len m no by (auto simp: dir_ok_def dl pg)
qed

lemma add_link_pos: "n div 64 * 4096 + 64 * (n mod 64) = 64 * (n :: nat)"
proof -
  have "64 * n = 64 * (n div 64 * 64 + n mod 64)" by simp
  also have "\<dots> = n div 64 * 4096 + 64 * (n mod 64)" by (simp only: distrib_left)
  finally show ?thesis by simp
qed

context dir_kernel
begin

lemma add_link_exists:
  assumes "dir_ok st dir" and "name_ok name" and "name \<in> fst ` set (dir_list st dir)"
  shows "minix_add_link k dir name ino st = Ret (- EEXIST, st)"
proof -
  obtain ai where ai: "icache st dir = Some ai" using assms(1) by (auto simp: dir_ok_def)
  from add_link_pages_eq [OF assms(1) ai assms(2), of 0] assms(3) find_None_iff_names [of st dir name]
  show ?thesis using ai by (auto simp: minix_add_link_def)
qed

lemma add_link_goes_to_end:
  assumes "dir_ok st dir" and "name_ok name" and "name \<notin> fst ` set (dir_list st dir)"
  shows "minix_add_link k dir name ino st =
    add_link_at k dir name ino (dir_len st dir div 64) (64 * (dir_len st dir mod 64)) (dir_end_cleared st dir)"
proof -
  obtain ai where ai: "icache st dir = Some ai" using assms(1) by (auto simp: dir_ok_def)
  from add_link_pages_eq [OF assms(1) ai assms(2), of 0] assms(3) find_None_iff_names [of st dir name]
  show ?thesis using ai by (auto simp: minix_add_link_def dir_end_cleared_def Let_def)
qed

lemma prepare_view:
  assumes "minix_prepare_chunk k dir pos len st = Ret (e, st1)"
  shows "same_view st st1"
  using assms unfolding minix_prepare_chunk_def by (intro block_ios_same_view write_begin_io)

lemma add_link_new:
  assumes ok: "dir_ok st dir" and nm: "name_ok name" "name \<notin> fst ` set (dir_list st dir)"
    and ino: "(ucast ino :: u32) \<noteq> 0"
    and prep: "minix_prepare_chunk k dir (64 * dir_len st dir) AUFS_DIR_SIZE (dir_end_cleared st dir) = Ret (0, st1)"
  obtains st' ai' where "minix_add_link k dir name ino st =
      Ret (if k_dirsync k dir then k_write_page k dir (dir_len st dir div 64) else 0, st')"
    and "dir_list st' dir = dir_list st dir @ [(name, ucast ino)]" and "dir_ok st' dir"
    and "icache st' = (icache st1)(dir \<mapsto> ai')" and "i_dirty ai'" and "i_mtime ai' = k_time k"
    and "\<And>d. d \<noteq> dir \<Longrightarrow> pages st' d = pages st d"
proof -
  let ?N = "dir_len st dir"
  let ?n = "?N div 64" and ?p = "64 * (?N mod 64)"
  let ?st0 = "dir_end_cleared st dir"
  obtain ai where ai: "icache st dir = Some ai" and sz: "i_size ai = 64 * ?N"
    using ok by (auto simp: dir_ok_def)
  have view: "same_view ?st0 st1" using prep by (rule prepare_view)
  have "icache ?st0 dir = Some ai" using ai by (simp add: dir_end_cleared_def Let_def)
  then obtain ai1 where ai1: "icache st1 dir = Some ai1" and e1: "ai1 = ai\<lparr>ai_zone_ptr := ai_zone_ptr ai1\<rparr>"
    by (rule same_view_inode [OF view])
  have sz1: "i_size ai1 = 64 * ?N" using arg_cong [OF e1, of i_size] sz by simp
  have pgs: "pages st1 = pages ?st0" using view by (simp add: same_view_def)
  have nl: "length name \<le> 60" using nm(1) by (simp add: name_ok_def AUFS_NAME_LEN_def)
  have len: "length (pages st dir ?n) = 4096" using ok by (simp add: dir_ok_def)
  let ?pg = "blit ?p (slot_bytes (ucast ino) name) (pages st dir ?n)"
  have fill: "write_slot_inode ?p (ucast ino) (blit (dde_name ?p + length name)
      (replicate (AUFS_DIR_SIZE - length name - 4) 0) (blit (dde_name ?p) name (pages st1 dir ?n))) = ?pg"
    using slot_fill [of ?p "pages st dir ?n" name "ucast ino" 0] len nl
    by (simp add: pgs dir_end_cleared_def Let_def)
  define ai' where "ai' = ai1\<lparr>i_size := 64 * ?N + 64, i_mtime := k_time k, i_ctime := k_time k, i_dirty := True\<rparr>"
  define st' where "st' = put_inode dir ai' (put_page dir ?n ?pg st1)"
  have run: "minix_add_link k dir name ino st =
      Ret (if k_dirsync k dir then k_write_page k dir ?n else 0, st')"
    unfolding add_link_goes_to_end [OF ok nm] add_link_at_def Let_def add_link_pos
    using prep nl ai1 sz1
    by (simp add: AUFS_DIR_SIZE_def dir_commit_chunk_def ai'_def st'_def Let_def add_link_pos
        fill [unfolded AUFS_DIR_SIZE_def, simplified])
  have "pages st' dir = (pages st dir)(?n := ?pg)"
    by (auto simp: st'_def pgs dir_end_cleared_def Let_def)
  note app = dir_append [OF ok refl nm(1) ino this, of ai']
  show ?thesis
  proof (rule that [OF run])
    show "dir_list st' dir = dir_list st dir @ [(name, ucast ino)]" "dir_ok st' dir"
      using app by (simp_all add: st'_def ai'_def)
  qed (auto simp: st'_def ai'_def pgs dir_end_cleared_def Let_def)
qed

end

subsection \<open>New directories\<close>

lemma two_slots:
  assumes ai: "icache st d = Some ai" "i_size ai = 128" and nz: "a \<noteq> 0" "b \<noteq> 0"
    and pg: "pages st d 0 = blit 64 (slot_bytes b [46, 46]) (blit 0 (slot_bytes a [46]) (replicate 4096 0))"
    and pgs: "\<forall>n. n \<noteq> 0 \<longrightarrow> length (pages st d n) = 4096"
  shows "dir_list st d = [([46], a), ([46, 46], b)]" and "dir_ok st d"
proof -
  let ?z = "blit 0 (slot_bytes a [46]) (replicate 4096 0)"
  have nm: "name_ok [46]" "name_ok [46, 46]" by (simp_all add: name_ok_def AUFS_NAME_LEN_def)
  have dl: "dir_len st d = 2" using ai by (simp add: dir_len_def)
  have lz: "length ?z = 4096" by simp
  have s0: "page_name (pages st d 0) 0 = [46]" "dde_inode (pages st d 0) 0 = a"
    using page_name_blit [OF lz, of 0 1 "[46, 46]" b] page_name_blit [of "replicate 4096 0" 0 0 "[46]" a]
      slot_ino_blit [OF lz, of 0 1 "[46, 46]" b] slot_ino_blit [of "replicate 4096 0" 0 0 "[46]" a] nm
    by (simp_all add: pg)
  have s1: "page_name (pages st d 0) 1 = [46, 46]" "dde_inode (pages st d 0) 64 = b"
    using page_name_blit [OF lz, of 1 1 "[46, 46]" b] slot_ino_blit [OF lz, of 1 1 "[46, 46]" b] nm
    by (simp_all add: pg)
  show "dir_list st d = [([46], a), ([46, 46], b)]"
    using s0 s1 by (simp add: dir_list_def dl slot_name_def slot_ino_def upt_rec)
  have "length (pages st d n) = 4096" for n using pgs pg by (cases "n = 0") simp_all
  moreover have "slot_ino st d i \<noteq> 0" if "i < 2" for i
    using that s0 s1 nz by (auto simp: slot_ino_def less_2_cases_iff)
  ultimately show "dir_ok st d" using ai by (simp add: dir_ok_def dl)
qed

context dir_kernel
begin

lemma make_empty_entries:
  assumes ai: "icache st inode = Some ai" "i_size ai = 0" and di: "icache st dir = Some di"
    and nz: "(ucast (i_ino ai) :: u32) \<noteq> 0" "(ucast (i_ino di) :: u32) \<noteq> 0"
    and pgs: "\<forall>n. length (pages st inode n) = 4096" and grab: "k_grab_page k inode 0"
    and prep: "minix_prepare_chunk k inode 0 (2 * AUFS_DIR_SIZE) st = Ret (0, st1)"
  obtains st' where "minix_make_empty k inode dir st =
      Ret (if k_dirsync k inode then k_write_page k inode 0 else 0, st')"
    and "dir_list st' inode = [([46], ucast (i_ino ai)), ([46, 46], ucast (i_ino di))]"
    and "dir_ok st' inode" and "\<forall>d. d \<noteq> inode \<longrightarrow> pages st' d = pages st d"
    and "\<exists>pg ai'. st' = put_inode inode ai' (put_page inode 0 pg st1)"
proof -
  have view: "same_view st st1" using prep by (rule prepare_view)
  obtain ai1 where ai1: "icache st1 inode = Some ai1" and e1: "ai1 = ai\<lparr>ai_zone_ptr := ai_zone_ptr ai1\<rparr>"
    by (rule same_view_inode [OF view ai(1)])
  have sz1: "i_size ai1 = 0" using arg_cong [OF e1, of i_size] ai(2) by simp
  let ?z = "replicate 4096 (0 :: u8)"
  let ?pg = "blit 64 (slot_bytes (ucast (i_ino di)) [46, 46]) (blit 0 (slot_bytes (ucast (i_ino ai)) [46]) ?z)"
  have pg: "blit (dde_name (minix_next_entry 0)) [46, 46, 0] (write_slot_inode (minix_next_entry 0) (ucast (i_ino di))
      (blit (dde_name 0) [46, 0] (write_slot_inode 0 (ucast (i_ino ai)) ?z))) = ?pg"
    by (rule nth_equalityI)
      (auto simp: write_slot_inode_def slot_bytes_def nth_blit nth_append AUFS_DIR_SIZE_def minix_next_entry_def
        nth_Cons split: nat.split)
  define st' where "st' = put_inode inode (ai1\<lparr>i_size := 128, i_dirty := True\<rparr>) (put_page inode 0 ?pg st1)"
  have run: "minix_make_empty k inode dir st =
      Ret (if k_dirsync k inode then k_write_page k inode 0 else 0, st')"
    using ai di grab prep ai1 sz1
    by (simp add: minix_make_empty_def Let_def pg [simplified] dir_commit_chunk_def st'_def AUFS_DIR_SIZE_def)
  have pgs1: "pages st1 = pages st" using view by (simp add: same_view_def)
  note two = two_slots [of st' inode "ai1\<lparr>i_size := 128, i_dirty := True\<rparr>", OF _ _ nz]
  show ?thesis
  proof (rule that [OF run])
    show "dir_list st' inode = [([46], ucast (i_ino ai)), ([46, 46], ucast (i_ino di))]" "dir_ok st' inode"
      using two pgs by (simp_all add: st'_def pgs1)
    show "\<exists>pg ai'. st' = put_inode inode ai' (put_page inode 0 pg st1)" unfolding st'_def by blast
  qed (simp add: st'_def pgs1)
qed

end

subsection \<open>Listing\<close>

text \<open>What listing means: the entries are offered in order until one is refused.\<close>

fun emit_all :: "(dirent list \<Rightarrow> dirent \<Rightarrow> bool) \<Rightarrow> dirent list \<Rightarrow> dir_context \<Rightarrow> bool \<times> dir_context" where
  "emit_all actor [] ctx = (True, ctx)"
| "emit_all actor (e # es) ctx =
     (if actor (ctx_out ctx) e
      then emit_all actor es (ctx\<lparr>ctx_out := ctx_out ctx @ [e], ctx_pos := ctx_pos ctx + AUFS_DIR_SIZE\<rparr>)
      else (False, ctx))"

lemma emit_all_append:
  "emit_all actor (xs @ ys) ctx =
     (case emit_all actor xs ctx of (True, ctx1) \<Rightarrow> emit_all actor ys ctx1 | r \<Rightarrow> r)"
  by (induction xs arbitrary: ctx) auto

lemma emit_all_accepted:
  "(\<And>out e. actor out e) \<Longrightarrow>
     emit_all actor es ctx = (True, ctx\<lparr>ctx_out := ctx_out ctx @ es, ctx_pos := ctx_pos ctx + 64 * length es\<rparr>)"
  by (induction es arbitrary: ctx) (auto simp: AUFS_DIR_SIZE_def)

lemma strnlen_name:
  assumes "64 * j + 64 \<le> length pg"
  shows "slice (dde_name (64 * j)) (strnlen pg (dde_name (64 * j)) AUFS_NAME_LEN) pg = page_name pg j"
proof -
  let ?ys = "slice (64 * j + 4) 60 pg" and ?P = "\<lambda>b :: u8. b \<noteq> 0"
  have "page_name pg j = take (length (takeWhile ?P ?ys)) ?ys"
    unfolding page_name_def by (rule takeWhile_eq_take)
  moreover have "length (takeWhile ?P ?ys) \<le> 60"
    using length_takeWhile_le [of ?P ?ys] assms by simp
  ultimately show ?thesis by (simp add: slice_def strnlen_def AUFS_NAME_LEN_def min_def)
qed

definition page_entries :: "bytes \<Rightarrow> nat \<Rightarrow> nat \<Rightarrow> dirent list" where
  "page_entries pg j e = map (\<lambda>j. (page_name pg j, dde_inode pg (64 * j))) [j..<e]"

lemma readdir_page_eq:
  assumes "length pg = 4096" and "e \<le> 64" and "\<forall>j < e. dde_inode pg (64 * j) \<noteq> 0"
  shows "readdir_page actor pg (64 * e) (64 * j) ctx = emit_all actor (page_entries pg j e) ctx"
proof (induction "e - j" arbitrary: j ctx)
  case 0
  then show ?case by (subst readdir_page.simps) (simp add: AUFS_DIR_SIZE_def page_entries_def)
next
  case (Suc d)
  then have j: "j < e" by simp
  then have "[j..<e] = j # [Suc j..<e]" by (simp add: upt_conv_Cons)
  then show ?case
    using Suc.hyps(1) [of "Suc j"] Suc.hyps(2) j assms strnlen_name [of j pg]
    by (subst readdir_page.simps)
      (simp add: AUFS_DIR_SIZE_def minix_next_entry_def page_entries_def Let_def add.commute)
qed

lemma page_entries_slots:
  assumes "e \<le> 64"
  shows "page_entries (pages st dir n) j e =
    map (\<lambda>i. (slot_name st dir i, slot_ino st dir i)) (map (\<lambda>j. 64 * n + j) [j..<e])"
  using assms by (simp add: page_entries_def slot_name_def slot_ino_def)

context dir_kernel
begin

lemma readdir_pages_eq:
  assumes "dir_ok st dir" and "icache st dir = Some ai" and "64 * n + j \<le> dir_len st dir \<or> j = 0" and "j < 64"
  shows "readdir_pages k actor st dir ai n (64 * j) ctx =
    snd (emit_all actor (map (\<lambda>i. (slot_name st dir i, slot_ino st dir i)) [64 * n + j..<dir_len st dir]) ctx)"
  using assms(3,4)
proof (induction "dir_pages ai - n" arbitrary: n j ctx)
  case 0
  have sz: "i_size ai = 64 * dir_len st dir" using assms(1,2) by (auto simp: dir_ok_def)
  have "dir_len st dir \<le> 64 * ((dir_len st dir + 63) div 64)"
    using div_mult_mod_eq [of "dir_len st dir + 63" 64] mod_less_divisor [of 64 "dir_len st dir + 63"]
    by linarith
  then have "dir_len st dir \<le> 64 * dir_pages ai" using last_byte_slots(3) [OF sz] by simp
  moreover have "64 * dir_pages ai \<le> 64 * n" using 0 by simp
  ultimately have "dir_len st dir \<le> 64 * n" by (rule le_trans)
  then have none: "[64 * n + j..<dir_len st dir] = []" by simp
  show ?case unfolding none using 0 by (subst readdir_pages.simps) simp
next
  case (Suc d)
  then have n: "n < dir_pages ai" by simp
  have sz: "i_size ai = 64 * dir_len st dir" using assms(1,2) by (auto simp: dir_ok_def)
  have "n \<le> dir_len st dir div 64" using n last_byte_slots(3) [OF sz] by linarith
  then obtain e where e: "minix_last_byte ai n = 64 * e" "e \<le> 64"
    "length (pages st dir n) = 4096" "\<forall>j < e. dde_inode (pages st dir n) (64 * j) \<noteq> 0"
    and split: "[64 * n..<dir_len st dir] = map (\<lambda>j. 64 * n + j) [0..<e] @ [64 * Suc n..<dir_len st dir]"
    and ev: "e = (if n < dir_len st dir div 64 then 64 else dir_len st dir mod 64)"
    by (rule page_slots [OF assms(1,2)])
  have je: "j \<le> e"
  proof (cases "n < dir_len st dir div 64")
    case False
    then have "n = dir_len st dir div 64" using \<open>n \<le> dir_len st dir div 64\<close> by simp
    then have "e = dir_len st dir mod 64" and "64 * n + dir_len st dir mod 64 = dir_len st dir"
      using ev by simp_all
    then show ?thesis using Suc.prems(1) by linarith
  qed (use Suc.prems(2) ev in simp)
  have "drop j [64 * n..<dir_len st dir] = drop j (map (\<lambda>j. 64 * n + j) [0..<e] @ [64 * Suc n..<dir_len st dir])"
    by (simp only: split)
  then have rest: "[64 * n + j..<dir_len st dir] = map (\<lambda>j. 64 * n + j) [j..<e] @ [64 * Suc n..<dir_len st dir]"
    using je by (simp add: drop_map)
  have IH: "readdir_pages k actor st dir ai (n + 1) 0 ctx1 =
      snd (emit_all actor (map (\<lambda>i. (slot_name st dir i, slot_ino st dir i)) [64 * Suc n..<dir_len st dir]) ctx1)" for ctx1
    using Suc.hyps(1) [of "n + 1" 0 ctx1] Suc.hyps(2) by simp
  have page: "readdir_page actor (pages st dir n) (minix_last_byte ai n) (64 * j) ctx =
      emit_all actor (map (\<lambda>i. (slot_name st dir i, slot_ino st dir i)) (map (\<lambda>j. 64 * n + j) [j..<e])) ctx"
    using readdir_page_eq [OF e(3,2,4)] page_entries_slots [OF e(2)] e(1) by simp
  show ?case
    using n page IH unfolding rest map_append emit_all_append
    by (subst readdir_pages.simps) (auto split: prod.split bool.split)
qed

lemma readdir_eq:
  assumes "dir_ok st dir" and "align_up (ctx_pos ctx) AUFS_DIR_SIZE = 64 * m"
  shows "minix_readdir k actor dir ctx st =
    Ret (0, snd (emit_all actor (drop m (dir_list st dir)) (ctx\<lparr>ctx_pos := 64 * m\<rparr>)))"
proof -
  obtain ai where ai: "icache st dir = Some ai" and sz: "i_size ai = 64 * dir_len st dir"
    using assms(1) by (auto simp: dir_ok_def)
  show ?thesis
  proof (cases "dir_len st dir \<le> m")
    case True
    then show ?thesis using assms(2) ai sz by (simp add: minix_readdir_def Let_def dir_list_def)
  next
    case False
    have d: "64 * m div 4096 = m div 64" "64 * m mod 4096 = 64 * (m mod 64)"
      using div_mult2_eq [of "64 * m" 64 64] mult_mod_right [of 64 m 64] by simp_all
    have "64 * (m div 64) + m mod 64 = m" by simp
    then show ?thesis
      using False assms(2) ai sz readdir_pages_eq [OF assms(1) ai, of "m div 64" "m mod 64" actor]
      by (simp add: minix_readdir_def Let_def d dir_list_def drop_map)
  qed
qed

end

subsection \<open>The interface of directories\<close>

text \<open>
  What the name operations rely on: a directory is a list of names and inode numbers, looking
  up finds the first entry of a name, adding refuses a name that is there and otherwise appends
  an entry to that directory and leaves every other directory alone.
\<close>

locale directory_api =
  fixes entries :: "fs \<Rightarrow> nat \<Rightarrow> dirent list"
    and wf :: "fs \<Rightarrow> nat \<Rightarrow> bool"
    and lookup :: "nat \<Rightarrow> bytes \<Rightarrow> fs \<Rightarrow> u64 cres"
    and add :: "nat \<Rightarrow> bytes \<Rightarrow> u64 \<Rightarrow> fs \<Rightarrow> (int \<times> fs) cres"
  assumes lookup_entries:
      "wf st dir \<Longrightarrow> name_ok name \<Longrightarrow>
         lookup dir name st = Ret (case map_of (entries st dir) name of None \<Rightarrow> 0 | Some i \<Rightarrow> ucast i)"
    and add_existing:
      "wf st dir \<Longrightarrow> name_ok name \<Longrightarrow> name \<in> fst ` set (entries st dir) \<Longrightarrow>
         add dir name ino st = Ret (- EEXIST, st)"
    and add_fresh:
      "wf st dir \<Longrightarrow> name_ok name \<Longrightarrow> name \<notin> fst ` set (entries st dir) \<Longrightarrow> (ucast ino :: u32) \<noteq> 0 \<Longrightarrow>
         add dir name ino st = Ret (0, st') \<Longrightarrow>
         wf st' dir \<and> entries st' dir = entries st dir @ [(name, ucast ino)]"
    and add_other:
      "wf st dir \<Longrightarrow> name_ok name \<Longrightarrow> (ucast ino :: u32) \<noteq> 0 \<Longrightarrow> add dir name ino st = Ret (0, st') \<Longrightarrow>
         d \<noteq> dir \<Longrightarrow> wf st d \<Longrightarrow> wf st' d \<and> entries st' d = entries st d"
begin

lemma add_succeeds_fresh:
  assumes "wf st dir" and "name_ok name" and "add dir name ino st = Ret (0, st')"
  shows "name \<notin> fst ` set (entries st dir)"
  using add_existing [OF assms(1,2)] assms(3) by force

lemma lookup_after_add:
  assumes "wf st dir" and "name_ok name" and "name_ok other" and "(ucast ino :: u32) \<noteq> 0"
    and "add dir name ino st = Ret (0, st')"
  shows "lookup dir other st' = (if other = name then Ret (ucast (ucast ino :: u32)) else lookup dir other st)"
proof -
  note fresh = add_succeeds_fresh [OF assms(1,2,5)]
  have "wf st' dir" "entries st' dir = entries st dir @ [(name, ucast ino)]"
    using add_fresh [OF assms(1,2) fresh assms(4,5)] by auto
  then show ?thesis
    using lookup_entries [OF _ assms(3)] assms(1) map_of_snoc_fresh [OF fresh] by simp
qed

lemma add_again:
  assumes "wf st dir" and "name_ok name" and "(ucast ino :: u32) \<noteq> 0"
    and "add dir name ino st = Ret (0, st')"
  shows "add dir name ino' st' = Ret (- EEXIST, st')"
proof -
  note fresh = add_succeeds_fresh [OF assms(1,2,4)]
  have "wf st' dir" "entries st' dir = entries st dir @ [(name, ucast ino)]"
    using add_fresh [OF assms(1,2) fresh assms(3,4)] by auto
  then show ?thesis using add_existing [OF _ assms(2)] by simp
qed

lemma names_stay_distinct:
  assumes "wf st dir" and "name_ok name" and "(ucast ino :: u32) \<noteq> 0"
    and "add dir name ino st = Ret (0, st')" and "distinct (map fst (entries st dir))"
  shows "distinct (map fst (entries st' dir))"
proof -
  note fresh = add_succeeds_fresh [OF assms(1,2,4)]
  then show ?thesis using add_fresh [OF assms(1,2) fresh assms(3,4)] assms(5) by simp
qed

end

lemma dir_frame:
  assumes "pages st' d = pages st d" and "dir_len st' d = dir_len st d"
    and "icache st d = Some ai" "icache st' d = Some ai'" "i_size ai' = i_size ai"
  shows "dir_list st' d = dir_list st d" and "dir_ok st' d = dir_ok st d"
  using assms by (simp_all add: dir_list_def dir_ok_def slot_name_def slot_ino_def)

sublocale dir_kernel \<subseteq> directory_api dir_list dir_ok "minix_inode_by_name k" "minix_add_link k"
proof (unfold_locales, goal_cases)
  case (1 st dir name)
  then show ?case by (rule inode_by_name_eq)
next
  case (2 st dir name ino)
  then show ?case by (rule add_link_exists)
next
  case (3 st dir name ino st')
  obtain st1 where prep: "minix_prepare_chunk k dir (64 * dir_len st dir) AUFS_DIR_SIZE
      (dir_end_cleared st dir) = Ret (0, st1)"
    using 3(5) unfolding add_link_goes_to_end [OF 3(1-3)] add_link_at_def Let_def add_link_pos
    by (auto split: sum.splits if_splits)
  from add_link_new [OF 3(1-4) prep] 3(5) show ?case by (metis Inr_inject prod.inject)
next
  case (4 st dir name ino st' d)
  have fresh: "name \<notin> fst ` set (dir_list st dir)" using add_link_exists [OF 4(1,2)] 4(4) by force
  obtain st1 where prep: "minix_prepare_chunk k dir (64 * dir_len st dir) AUFS_DIR_SIZE
      (dir_end_cleared st dir) = Ret (0, st1)"
    using 4(4) unfolding add_link_goes_to_end [OF 4(1,2) fresh] add_link_at_def Let_def add_link_pos
    by (auto split: sum.splits if_splits)
  obtain ai' where ic: "icache st' = (icache st1)(dir \<mapsto> ai')" and pg: "pages st' d = pages st d"
    using add_link_new [OF 4(1,2) fresh 4(3) prep] 4(4,5) by (metis Inr_inject prod.inject)
  obtain ai where ai: "icache st d = Some ai" using 4(6) by (auto simp: dir_ok_def)
  then have "icache (dir_end_cleared st dir) d = Some ai" by (simp add: dir_end_cleared_def Let_def)
  then obtain ai1 where ai1: "icache st1 d = Some ai1" "ai1 = ai\<lparr>ai_zone_ptr := ai_zone_ptr ai1\<rparr>"
    by (rule same_view_inode [OF prepare_view [OF prep]])
  have sz: "i_size ai1 = i_size ai" using arg_cong [OF ai1(2), of i_size] by simp
  then have "dir_len st' d = dir_len st d" using ai ai1(1) ic 4(5) by (simp add: dir_len_def)
  from dir_frame [OF pg this ai _ sz] ai1(1) ic 4(5,6) show ?case by simp
qed

context dir_kernel
begin

lemma add_link_lookup:
  assumes "dir_ok st dir" and "name_ok name" and "name_ok other" and "(ucast ino :: u32) \<noteq> 0"
    and "minix_add_link k dir name ino st = Ret (0, st')"
  shows "minix_inode_by_name k dir other st' =
      (if other = name then Ret (ucast (ucast ino :: u32)) else minix_inode_by_name k dir other st)"
    and "minix_add_link k dir name ino' st' = Ret (- EEXIST, st')"
    and "distinct (map fst (dir_list st dir)) \<Longrightarrow> distinct (map fst (dir_list st' dir))"
  using assms lookup_after_add add_again names_stay_distinct by blast+

end

interpretation ref_dir: dir_kernel ref_kernel
  by unfold_locales simp

subsection \<open>An example directory\<close>

definition demo_dir_inode :: aufs_inode where
  "demo_dir_inode = blank_inode\<lparr>ai_zone_ptr := 7 # replicate 8 0, i_ino := 1, i_size := 128\<rparr>"

definition demo_dir :: fs where
  "demo_dir =
     \<lparr>s_blocksize = 4096,
      s_fs_info =
        \<lparr>asb_magic = AUFS_MAGIC, asb_inode_blocks = 1, asb_zone_size = 4096, asb_root_inode = 1,
         asb_inodes_in_block = 64, asb_inode_map_blocks = 1, asb_zone_map_blocks = 1,
         asb_blocks_per_zone = 1, asb_alignment_num_blocks = 1, s_zmap = [1], s_imap = [2], s_sbh = 0\<rparr>,
      b_data = (\<lambda>_. []), b_dirty = (\<lambda>_. False), icache = [1 \<mapsto> demo_dir_inode, 2 \<mapsto> demo_dir_inode\<lparr>i_ino := 2, i_size := 0\<rparr>],
      pages = (\<lambda>d n. if d = 1 \<and> n = 0 then blit 64 (slot_bytes 1 [46, 46]) (blit 0 (slot_bytes 1 [46]) (replicate 4096 0))
                     else replicate 4096 0)\<rparr>"

lemma demo_dir_entries: "dir_list demo_dir 1 = [([46], 1), ([46, 46], 1)]" "dir_ok demo_dir 1"
  by (rule two_slots [where ai = demo_dir_inode]; simp add: demo_dir_def demo_dir_inode_def)+

lemma demo_dir_prepare:
  assumes "s_blocksize st = 4096" and "s_fs_info st = s_fs_info demo_dir" and "d = 1 \<or> d = 2"
    and "icache st = icache demo_dir" and "pos + len \<le> 4096" and "0 < len"
  shows "minix_prepare_chunk ref_kernel d pos len st = Ret (0, st)"
proof -
  obtain ai where ai: "icache st d = Some ai" "ai_zone_ptr ai = 7 # replicate 8 0"
    using assms(3,4) by (auto simp: demo_dir_def demo_dir_inode_def)
  have g: "geometry_ok st" and b: "bpz st = 1"
    using assms(1,2) by (simp_all add: geometry_ok_def AUFS_SB_def demo_dir_def)
  have "(4095 + (pos + len)) div 4096 = 1" by (rule div_nat_eqI) (use assms(5,6) in auto)
  moreover have "pos div 4096 = 0" using assms(5,6) by simp
  moreover have "aufs_get_block bo d 0 (s_blocksize st) True st = Ret (0, Some 7, st)" for bo
    using get_block_mapped [OF g ai(1), of 0 bo True] ai(2) b by (simp add: ZONE_PTR_IN_INODE_NUM_def)
  ultimately show ?thesis
    using assms(1) by (simp add: minix_prepare_chunk_def ref_kernel_def map_range_def)
qed

lemma demo_dir_names: "name_ok [46]" "name_ok [46, 46]" "name_ok [97]" "name_ok [98]"
  by (simp_all add: name_ok_def AUFS_NAME_LEN_def)

lemma demo_dir_add:
  obtains st' where "minix_add_link ref_kernel 1 [97] 2 demo_dir = Ret (0, st')"
    and "dir_list st' 1 = [([46], 1), ([46, 46], 1), ([97], 2)]"
proof -
  let ?c = "dir_end_cleared demo_dir 1"
  have dl: "dir_len demo_dir 1 = 2" by (simp add: dir_len_def demo_dir_def demo_dir_inode_def)
  have "minix_prepare_chunk ref_kernel 1 (64 * dir_len demo_dir 1) AUFS_DIR_SIZE ?c = Ret (0, ?c)"
    unfolding dl by (rule demo_dir_prepare) (simp_all add: dir_end_cleared_def Let_def demo_dir_def AUFS_DIR_SIZE_def)
  note prep = this
  have fresh: "[97] \<notin> fst ` set (dir_list demo_dir 1)" by (simp add: demo_dir_entries(1) del: One_nat_def)
  have two: "(ucast (2 :: u64) :: u32) \<noteq> 0" by simp
  from ref_dir.add_link_new [OF demo_dir_entries(2) demo_dir_names(3) fresh two prep] obtain st' where
    "minix_add_link ref_kernel 1 [97] 2 demo_dir =
       Ret (if k_dirsync ref_kernel 1 then k_write_page ref_kernel 1 (dir_len demo_dir 1 div 64) else 0, st')"
    "dir_list st' 1 = dir_list demo_dir 1 @ [([97], ucast (2 :: u64))]" by blast
  then show ?thesis using that by (simp add: demo_dir_entries(1) del: One_nat_def)
qed

subsection \<open>Properties\<close>

text \<open>
  C24: looking up a name in a well-formed directory whose pages can be read returns the inode number of the first entry
  of that name, and 0 when there is none; no page is read outside its bounds.
\<close>

theorem inode_by_name_finds_entry:
  assumes "dir_kernel k" and "dir_ok st dir" and "name_ok name"
  shows "minix_inode_by_name k dir name st =
    Ret (case map_of (dir_list st dir) name of None \<Rightarrow> 0 | Some ino \<Rightarrow> ucast ino)"
  using assms by (rule dir_kernel.inode_by_name_eq)

theorem inode_by_name_finds_entry_witness:
  "minix_inode_by_name ref_kernel 1 [46, 46] demo_dir = Ret 1 \<and>
   minix_inode_by_name ref_kernel 1 [98] demo_dir = Ret 0"
  using inode_by_name_finds_entry [OF ref_dir.dir_kernel_axioms demo_dir_entries(2) demo_dir_names(2)]
    inode_by_name_finds_entry [OF ref_dir.dir_kernel_axioms demo_dir_entries(2) demo_dir_names(4)]
  by (simp add: demo_dir_entries(1) del: One_nat_def)

text \<open>
  C23: on a well-formed directory whose pages can be read, \<^verbatim>\<open>minix_add_link\<close> refuses a name that is in the directory with \<^verbatim>\<open>EEXIST\<close> and no change; for a
  new name it prepares the chunk behind the last slot, and then either reports the error of the
  preparation with the directory unchanged, or appends the entry to this directory and leaves
  the pages of every other file alone. Its \<^verbatim>\<open>BUG()\<close> is never reached.
\<close>

theorem add_link_appends_or_refuses:
  assumes "dir_kernel k" and "dir_ok st dir" and "name_ok name" and "(ucast ino :: u32) \<noteq> 0"
  shows "if name \<in> fst ` set (dir_list st dir) then minix_add_link k dir name ino st = Ret (- EEXIST, st)
    else (case minix_prepare_chunk k dir (64 * dir_len st dir) AUFS_DIR_SIZE (dir_end_cleared st dir) of
            Inl f \<Rightarrow> minix_add_link k dir name ino st = Fault f
          | Inr (e, st1) \<Rightarrow>
              if e \<noteq> 0
              then minix_add_link k dir name ino st = Ret (e, st1) \<and> dir_list st1 dir = dir_list st dir \<and>
                   dir_ok st1 dir
              else \<exists>st'. minix_add_link k dir name ino st =
                     Ret (if k_dirsync k dir then k_write_page k dir (dir_len st dir div 64) else 0, st') \<and>
                   dir_list st' dir = dir_list st dir @ [(name, ucast ino)] \<and> dir_ok st' dir \<and>
                   (\<forall>d. d \<noteq> dir \<longrightarrow> pages st' d = pages st d))"
proof (cases "name \<in> fst ` set (dir_list st dir)")
  case True
  then show ?thesis using dir_kernel.add_link_exists [OF assms(1-3)] by simp
next
  case False
  let ?c = "dir_end_cleared st dir"
  let ?prep = "minix_prepare_chunk k dir (64 * dir_len st dir) AUFS_DIR_SIZE ?c"
  note run = dir_kernel.add_link_goes_to_end [OF assms(1-3) False, of ino]
  consider (fault) f where "?prep = Fault f" | (err) e st1 where "?prep = Ret (e, st1)" "e \<noteq> 0"
    | (ok) st1 where "?prep = Ret (0, st1)"
    by (cases ?prep) auto
  then show ?thesis
  proof cases
    case fault
    then show ?thesis using False run by (simp add: add_link_at_def Let_def add_link_pos)
  next
    case (err e st1)
    obtain ai where ai: "icache st dir = Some ai" "i_size ai = 64 * dir_len st dir"
      using assms(2) by (auto simp: dir_ok_def)
    note view = dir_kernel.prepare_view [OF assms(1) err(1)]
    have "icache ?c dir = Some ai" using ai(1) by (simp add: dir_end_cleared_def Let_def)
    then obtain ai1 where ai1: "icache st1 dir = Some ai1" "ai1 = ai\<lparr>ai_zone_ptr := ai_zone_ptr ai1\<rparr>"
      by (rule same_view_inode [OF view])
    have "pages st1 = pages ?c" using view by (simp add: same_view_def)
    moreover have "i_size ai1 = 64 * dir_len st dir" using arg_cong [OF ai1(2), of i_size] ai(2) by simp
    ultimately have "dir_list st1 dir = dir_list st dir" "dir_ok st1 dir"
      using dir_ok_cleared [OF assms(2) _ ai1(1)] by simp_all
    then show ?thesis using False run err by (simp add: add_link_at_def Let_def add_link_pos)
  next
    case (ok st1)
    from dir_kernel.add_link_new [OF assms(1-3) False assms(4) ok] obtain st' where
      "minix_add_link k dir name ino st =
         Ret (if k_dirsync k dir then k_write_page k dir (dir_len st dir div 64) else 0, st')"
      "dir_list st' dir = dir_list st dir @ [(name, ucast ino)]" "dir_ok st' dir"
      "\<And>d. d \<noteq> dir \<Longrightarrow> pages st' d = pages st d" by blast
    then show ?thesis using False ok by auto
  qed
qed

theorem add_link_appends_or_refuses_witness:
  "minix_add_link ref_kernel 1 [46] 2 demo_dir = Ret (- EEXIST, demo_dir)"
  using add_link_appends_or_refuses [OF ref_dir.dir_kernel_axioms demo_dir_entries(2) demo_dir_names(1), of 2]
  by (simp add: demo_dir_entries(1) del: One_nat_def)

text \<open>
  After a successful \<^verbatim>\<open>minix_add_link\<close> the new name is found with its inode number, every
  other name is looked up as before, a second addition of the name is refused, and names that
  were distinct stay distinct.
\<close>

lemma add_link_then_lookup:
  assumes "dir_kernel k" and "dir_ok st dir" and "name_ok name" and "name_ok other"
    and "(ucast ino :: u32) \<noteq> 0" and "minix_add_link k dir name ino st = Ret (0, st')"
  shows "minix_inode_by_name k dir other st' =
      (if other = name then Ret (ucast (ucast ino :: u32)) else minix_inode_by_name k dir other st) \<and>
    minix_add_link k dir name ino' st' = Ret (- EEXIST, st') \<and>
    (distinct (map fst (dir_list st dir)) \<longrightarrow> distinct (map fst (dir_list st' dir)))"
proof -
  note facts = dir_kernel.add_link_lookup [OF assms]
  show ?thesis using facts by blast
qed

text \<open>
  \<^verbatim>\<open>minix_make_empty\<close> turns a new inode into a well-formed directory with exactly the entries
  for itself and its parent.
\<close>

lemma make_empty_two_entries:
  assumes "dir_kernel k" and "icache st inode = Some ai" and "i_size ai = 0" and "icache st dir = Some di"
    and "(ucast (i_ino ai) :: u32) \<noteq> 0" and "(ucast (i_ino di) :: u32) \<noteq> 0"
    and "\<forall>n. length (pages st inode n) = 4096" and "k_grab_page k inode 0"
    and "minix_prepare_chunk k inode 0 (2 * AUFS_DIR_SIZE) st = Ret (0, st1)"
  shows "\<exists>st'. minix_make_empty k inode dir st =
      Ret (if k_dirsync k inode then k_write_page k inode 0 else 0, st') \<and> dir_ok st' inode \<and>
    dir_list st' inode = [([46], ucast (i_ino ai)), ([46, 46], ucast (i_ino di))] \<and>
    (\<forall>d. d \<noteq> inode \<longrightarrow> pages st' d = pages st d)"
  using dir_kernel.make_empty_entries [OF assms] by metis

text \<open>
  C25: on a well-formed directory whose pages can be read, \<^verbatim>\<open>minix_readdir\<close> from a position offers exactly the entries from there on, each once and in
  order, until the caller refuses one, and leaves the position at the first entry not taken.
\<close>

theorem readdir_lists_entries:
  assumes "dir_kernel k" and "dir_ok st dir" and "align_up (ctx_pos ctx) AUFS_DIR_SIZE = 64 * m"
  shows "minix_readdir k actor dir ctx st =
    Ret (0, snd (emit_all actor (drop m (dir_list st dir)) (ctx\<lparr>ctx_pos := 64 * m\<rparr>)))"
  using assms by (rule dir_kernel.readdir_eq)

theorem readdir_lists_entries_witness:
  "minix_readdir ref_kernel (\<lambda>_ _. True) 1 \<lparr>ctx_pos = 64, ctx_out = []\<rparr> demo_dir =
     Ret (0, \<lparr>ctx_pos = 128, ctx_out = [([46, 46], 1)]\<rparr>)"
  using readdir_lists_entries [OF ref_dir.dir_kernel_axioms demo_dir_entries(2),
      of "\<lparr>ctx_pos = 64, ctx_out = []\<rparr>" 1 "\<lambda>_ _. True"]
  by (simp add: demo_dir_entries(1) align_up_def AUFS_DIR_SIZE_def del: One_nat_def)
    (simp add: AUFS_DIR_SIZE_def)

end
