(* ===== verification/Zone_Ownership.thy ===== *)
theory Zone_Ownership
  imports Kern_Inode
begin

text \<open>
  Which file owns which zone. The zone pointers of an inode are those of its in-core copy
  while it is cached and those of its disk record otherwise (\<open>zone_of\<close>). The invariant
  \<open>own_inv\<close> says that every pointer of a live inode is the place of a used zone and that no
  two pointers are equal; every operation of the module that touches zones, inodes or the
  bitmaps keeps it, and so does the kernel dropping an inode from the cache. It follows
  that two different blocks of files never share a disk block and that no file block is a
  metadata block.
\<close>

subsection \<open>Places of zones\<close>

definition meta_end :: "aufs_super_block \<Rightarrow> nat" where
  "meta_end sbi =
     1 + unat (asb_inode_map_blocks sbi) + unat (asb_zone_map_blocks sbi) + unat (asb_inode_blocks sbi)"

text \<open>The formatter chose the place \<open>rb\<close> of zone 1, the module that of the others.\<close>

definition zone_loc :: "nat \<Rightarrow> aufs_super_block \<Rightarrow> nat \<Rightarrow> nat" where
  "zone_loc rb sbi z = (if z = 1 then rb else zone_start sbi z)"

definition placement_ok :: "nat \<Rightarrow> aufs_super_block \<Rightarrow> nat \<Rightarrow> bool" where
  "placement_ok rb sbi n \<longleftrightarrow>
     meta_end sbi \<le> rb \<and> rb + unat (asb_blocks_per_zone sbi) \<le> zone_start sbi 2 \<and>
     zone_start sbi n < 2147483648"

lemma zone_start_step: "z < z' \<Longrightarrow> zone_start sbi z + unat (asb_blocks_per_zone sbi) \<le> zone_start sbi z'"
proof -
  assume "z < z'"
  then have "(z + 1) * unat (asb_blocks_per_zone sbi) \<le> z' * unat (asb_blocks_per_zone sbi)"
    by (intro mult_le_mono1) simp
  then show ?thesis by (simp add: zone_start_def)
qed

lemma zone_loc_step:
  assumes "placement_ok rb sbi n" and "1 \<le> z" and "z < z'"
  shows "zone_loc rb sbi z + unat (asb_blocks_per_zone sbi) \<le> zone_loc rb sbi z'"
proof (cases "z = 1")
  case True
  then have "2 \<le> z'" using assms(3) by simp
  then have "zone_start sbi 2 \<le> zone_start sbi z'"
    using zone_start_step [of 2 z' sbi] by (cases "z' = 2") auto
  then show ?thesis using assms True by (simp add: zone_loc_def placement_ok_def)
next
  case False
  then show ?thesis using assms zone_start_step [OF assms(3), of sbi] by (simp add: zone_loc_def)
qed

lemma zone_loc_disjoint:
  assumes "placement_ok rb sbi n" and "1 \<le> z" and "1 \<le> z'"
    and "a < unat (asb_blocks_per_zone sbi)" and "b < unat (asb_blocks_per_zone sbi)"
    and "zone_loc rb sbi z + a = zone_loc rb sbi z' + b"
  shows "z = z'"
proof (rule linorder_cases)
  assume "z < z'"
  from zone_loc_step [OF assms(1,2) this] show ?thesis using assms(4,6) by linarith
next
  assume "z' < z"
  from zone_loc_step [OF assms(1,3) this] show ?thesis using assms(5,6) by linarith
qed

lemma data_start_ge: "asb_ok sbi \<Longrightarrow> meta_end sbi + unat (asb_blocks_per_zone sbi) \<le> data_start sbi"
  unfolding data_start_def meta_end_def by (rule align_up_ge) (simp add: asb_ok_def)

lemma zone_loc_meta:
  assumes "asb_ok sbi" and "placement_ok rb sbi n"
  shows "meta_end sbi \<le> zone_loc rb sbi z"
  using assms data_start_ge [OF assms(1)]
  by (auto simp: zone_loc_def placement_ok_def zone_start_def)

subsection \<open>Live inodes and their zones\<close>

definition inode_cap :: "aufs_super_block \<Rightarrow> nat" where
  "inode_cap sbi = 64 * unat (asb_inode_blocks sbi)"

definition live_inodes :: "bitops \<Rightarrow> fs \<Rightarrow> nat set" where
  "live_inodes bo st = {no \<in> used_inodes bo st. 0 < no \<and> no < inode_cap (AUFS_SB st)}"

definition disk_zone :: "fs \<Rightarrow> nat \<Rightarrow> nat \<Rightarrow> nat" where
  "disk_zone st no i = unat (be32_at (b_data st (inode_blk (AUFS_SB st) no)) (inode_off no + 4 * i))"

definition zone_of :: "fs \<Rightarrow> nat \<Rightarrow> nat \<Rightarrow> nat" where
  "zone_of st no i =
     (case icache st no of Some ai \<Rightarrow> unat (ai_zone_ptr ai ! i) | None \<Rightarrow> disk_zone st no i)"

text \<open>The disk block of block \<open>ib\<close> of a file, when its zone is allocated.\<close>

definition file_block :: "fs \<Rightarrow> nat \<Rightarrow> nat \<Rightarrow> nat" where
  "file_block st no ib = zone_of st no (ib div bpz st) + ib mod bpz st"

definition mapped :: "fs \<Rightarrow> nat \<Rightarrow> nat \<Rightarrow> bool" where
  "mapped st no ib \<longleftrightarrow>
     ib div bpz st < ZONE_PTR_IN_INODE_NUM \<and> zone_of st no (ib div bpz st) \<noteq> 0"

text \<open>
  The parts of the invariant: bitmaps and layout, cached inodes (a pointer on disk is unset or
  the cached one, whether the inode was written since or not), ownership, and that the disk
  records of unused inodes have no zones.
\<close>

definition layout_inv :: "bitops \<Rightarrow> nat \<Rightarrow> fs \<Rightarrow> bool" where
  "layout_inv bo rb st \<longleftrightarrow>
     maps_ok st \<and> geometry_ok st \<and> placement_ok rb (AUFS_SB st) (n_zones st) \<and>
     s_zmap (AUFS_SB st) = [1..<1 + unat (asb_zone_map_blocks (AUFS_SB st))] \<and>
     s_imap (AUFS_SB st) =
       [1 + unat (asb_zone_map_blocks (AUFS_SB st))..<
        1 + unat (asb_zone_map_blocks (AUFS_SB st)) + unat (asb_inode_map_blocks (AUFS_SB st))] \<and>
     {0, 1} \<subseteq> used_zones bo st \<and> 0 \<in> used_inodes bo st \<and>
     {inode_cap (AUFS_SB st)..<n_inodes st} \<subseteq> used_inodes bo st"

definition cache_inv :: "bitops \<Rightarrow> fs \<Rightarrow> bool" where
  "cache_inv bo st \<longleftrightarrow>
     (\<forall>no ai. icache st no = Some ai \<longrightarrow>
        no \<in> live_inodes bo st \<and> i_ino ai = of_nat no \<and>
        length (ai_zone_ptr ai) = ZONE_PTR_IN_INODE_NUM \<and>
        (\<forall>i < ZONE_PTR_IN_INODE_NUM.
            disk_zone st no i = 0 \<or> disk_zone st no i = unat (ai_zone_ptr ai ! i)))"

definition blank_inv :: "bitops \<Rightarrow> fs \<Rightarrow> bool" where
  "blank_inv bo st \<longleftrightarrow>
     (\<forall>no i. 0 < no \<longrightarrow> no < inode_cap (AUFS_SB st) \<longrightarrow> no \<notin> used_inodes bo st \<longrightarrow>
        i < ZONE_PTR_IN_INODE_NUM \<longrightarrow> disk_zone st no i = 0)"

definition owner_inv :: "bitops \<Rightarrow> nat \<Rightarrow> fs \<Rightarrow> bool" where
  "owner_inv bo rb st \<longleftrightarrow>
     (\<forall>no \<in> live_inodes bo st. \<forall>i < ZONE_PTR_IN_INODE_NUM.
        zone_of st no i \<noteq> 0 \<longrightarrow>
          zone_of st no i \<in> zone_loc rb (AUFS_SB st) ` (used_zones bo st - {0})) \<and>
     (\<forall>no \<in> live_inodes bo st. \<forall>no' \<in> live_inodes bo st.
        \<forall>i < ZONE_PTR_IN_INODE_NUM. \<forall>i' < ZONE_PTR_IN_INODE_NUM.
          zone_of st no i \<noteq> 0 \<longrightarrow> zone_of st no i = zone_of st no' i' \<longrightarrow> no = no' \<and> i = i')"

definition own_inv :: "bitops \<Rightarrow> nat \<Rightarrow> fs \<Rightarrow> bool" where
  "own_inv bo rb st \<longleftrightarrow>
     layout_inv bo rb st \<and> cache_inv bo st \<and> owner_inv bo rb st \<and> blank_inv bo st"

subsection \<open>What the invariant gives\<close>

lemma owner_zone:
  assumes "own_inv bo rb st" and "no \<in> live_inodes bo st" and "mapped st no ib"
  obtains z where "1 \<le> z" and "z \<in> used_zones bo st"
    and "zone_of st no (ib div bpz st) = zone_loc rb (AUFS_SB st) z"
proof -
  have "zone_of st no (ib div bpz st) \<in> zone_loc rb (AUFS_SB st) ` (used_zones bo st - {0})"
    using assms by (auto simp: own_inv_def owner_inv_def mapped_def)
  then obtain z where "z \<in> used_zones bo st - {0}"
    and "zone_of st no (ib div bpz st) = zone_loc rb (AUFS_SB st) z" by blast
  then show ?thesis by (intro that [of z]) auto
qed

lemma file_blocks_disjoint:
  assumes inv: "own_inv bo rb st"
    and live: "no \<in> live_inodes bo st" "no' \<in> live_inodes bo st"
    and map: "mapped st no ib" "mapped st no' ib'"
    and eq: "file_block st no ib = file_block st no' ib'"
  shows "no = no' \<and> ib = ib'"
proof -
  let ?q = "ib div bpz st" and ?q' = "ib' div bpz st"
  have lay: "placement_ok rb (AUFS_SB st) (n_zones st)" and pos: "0 < bpz st"
    using inv by (auto simp: own_inv_def layout_inv_def geometry_ok_def)
  obtain z where z: "1 \<le> z" "zone_of st no ?q = zone_loc rb (AUFS_SB st) z"
    using owner_zone [OF inv live(1) map(1)] by metis
  obtain z' where z': "1 \<le> z'" "zone_of st no' ?q' = zone_loc rb (AUFS_SB st) z'"
    using owner_zone [OF inv live(2) map(2)] by metis
  have "ib mod bpz st < bpz st" "ib' mod bpz st < bpz st" using pos by simp_all
  then have "z = z'"
    by (rule zone_loc_disjoint [OF lay z(1) z'(1)]) (use eq z(2) z'(2) in \<open>simp add: file_block_def\<close>)
  then have same: "zone_of st no ?q = zone_of st no' ?q'" using z(2) z'(2) by simp
  then have "no = no'" and q: "?q = ?q'"
    using inv live map by (auto simp: own_inv_def owner_inv_def mapped_def)
  moreover have "ib mod bpz st = ib' mod bpz st" using eq same by (simp add: file_block_def)
  ultimately show ?thesis by (metis div_mult_mod_eq)
qed

lemma file_block_not_meta:
  assumes "own_inv bo rb st" and "no \<in> live_inodes bo st" and "mapped st no ib"
  shows "meta_end (AUFS_SB st) \<le> file_block st no ib"
proof -
  obtain z where "zone_of st no (ib div bpz st) = zone_loc rb (AUFS_SB st) z"
    using owner_zone [OF assms] by metis
  moreover have "meta_end (AUFS_SB st) \<le> zone_loc rb (AUFS_SB st) z"
    using assms(1) by (intro zone_loc_meta) (auto simp: own_inv_def layout_inv_def maps_ok_def)
  ultimately show ?thesis by (simp add: file_block_def)
qed

subsection \<open>Frame facts\<close>

lemma inode_blk_not_map:
  assumes "layout_inv bo rb st"
  shows "inode_blk (AUFS_SB st) no \<notin> set (s_zmap (AUFS_SB st))"
    and "inode_blk (AUFS_SB st) no \<notin> set (s_imap (AUFS_SB st))"
  using assms by (auto simp: layout_inv_def inode_blk_def)

lemma cached_live: "own_inv bo rb st \<Longrightarrow> icache st no = Some ai \<Longrightarrow> no \<in> live_inodes bo st"
  by (auto simp: own_inv_def cache_inv_def)

lemma inode_blk_below_meta: "no < inode_cap sbi \<Longrightarrow> inode_blk sbi no < meta_end sbi"
  by (simp add: inode_cap_def inode_blk_def meta_end_def less_mult_imp_div_less mult.commute)

lemma live_blk_below_meta: "no \<in> live_inodes bo st \<Longrightarrow> inode_blk (AUFS_SB st) no < meta_end (AUFS_SB st)"
  by (rule inode_blk_below_meta) (simp add: live_inodes_def)

lemma live_bound:
  assumes "layout_inv bo rb st" and "no \<in> live_inodes bo st"
  shows "no < 2147483648" and "inode_blk (AUFS_SB st) no < 2147483648" and "0 < no"
proof -
  let ?sbi = "AUFS_SB st"
  have area: "area_ok st (s_imap ?sbi) (zone_bits st)" "asb_ok ?sbi"
    and "placement_ok rb ?sbi (n_zones st)"
    using assms(1) by (auto simp: layout_inv_def maps_ok_def)
  have "no < n_inodes st"
    using assms(2) by (simp add: live_inodes_def used_inodes_def area_used_def n_inodes_def)
  also have "\<dots> < 2147483648" using area(1) by (simp add: n_inodes_def area_ok_def)
  finally show "no < 2147483648" .
  show "0 < no" using assms(2) by (simp add: live_inodes_def)
  have "inode_blk ?sbi no < meta_end ?sbi" using assms(2) by (rule live_blk_below_meta)
  also have "\<dots> \<le> zone_start ?sbi (n_zones st)"
    using data_start_ge [OF area(2)] by (simp add: zone_start_def)
  also have "\<dots> < 2147483648"
    using \<open>placement_ok rb ?sbi (n_zones st)\<close> by (simp add: placement_ok_def)
  finally show "inode_blk ?sbi no < 2147483648" .
qed

text \<open>A change of bitmap buffers only does not change any zone pointer.\<close>

lemma frame_zones:
  assumes "layout_inv bo rb st" and "map_frame bhs st st'"
    and "bhs = s_zmap (AUFS_SB st) \<or> bhs = s_imap (AUFS_SB st)"
  shows "disk_zone st' no i = disk_zone st no i" and "AUFS_SB st' = AUFS_SB st"
    and "s_blocksize st' = s_blocksize st" and "zone_bits st' = zone_bits st"
    and "n_zones st' = n_zones st" and "n_inodes st' = n_inodes st"
    and "geometry_ok st' = geometry_ok st"
proof -
  show sb: "AUFS_SB st' = AUFS_SB st" and bs: "s_blocksize st' = s_blocksize st"
    using assms(2) by (simp_all add: map_frame_def AUFS_SB_def)
  show "zone_bits st' = zone_bits st" "n_zones st' = n_zones st" "n_inodes st' = n_inodes st"
      "geometry_ok st' = geometry_ok st"
    by (simp_all add: zone_bits_def n_zones_def n_inodes_def geometry_ok_def sb bs)
  have "inode_blk (AUFS_SB st) no \<notin> set bhs" using inode_blk_not_map [OF assms(1)] assms(3) by blast
  then show "disk_zone st' no i = disk_zone st no i"
    using assms(2) by (simp add: disk_zone_def sb map_frame_def)
qed

lemma blank_inv_frame:
  assumes "blank_inv bo st" and "used_inodes bo st \<subseteq> used_inodes bo st'" and "AUFS_SB st' = AUFS_SB st"
    and "\<And>no i. no < inode_cap (AUFS_SB st) \<Longrightarrow> no \<notin> used_inodes bo st' \<Longrightarrow> i < ZONE_PTR_IN_INODE_NUM \<Longrightarrow>
      disk_zone st' no i = disk_zone st no i"
  shows "blank_inv bo st'"
  using assms unfolding blank_inv_def by auto

lemma put_inode_same [simp]:
  "AUFS_SB (put_inode k ai st) = AUFS_SB st" "zone_bits (put_inode k ai st) = zone_bits st"
  "n_zones (put_inode k ai st) = n_zones st" "n_inodes (put_inode k ai st) = n_inodes st"
  "geometry_ok (put_inode k ai st) = geometry_ok st" "maps_ok (put_inode k ai st) = maps_ok st"
  "used_zones bo (put_inode k ai st) = used_zones bo st"
  "used_inodes bo (put_inode k ai st) = used_inodes bo st"
  "live_inodes bo (put_inode k ai st) = live_inodes bo st"
  "disk_zone (put_inode k ai st) no i = disk_zone st no i"
  "layout_inv bo rb (put_inode k ai st) = layout_inv bo rb st"
  "blank_inv bo (put_inode k ai st) = blank_inv bo st"
  by (simp_all add: blank_inv_def AUFS_SB_def zone_bits_def n_zones_def n_inodes_def geometry_ok_def maps_ok_def
      used_zones_def used_inodes_def live_inodes_def disk_zone_def layout_inv_def area_ok_def
      area_used_def)

lemma zone_of_put_inode [simp]:
  "zone_of (put_inode k ai st) no i = (if no = k then unat (ai_zone_ptr ai ! i) else zone_of st no i)"
  by (simp add: zone_of_def split: option.split)

subsection \<open>Block mapping keeps the invariant\<close>

text \<open>Giving a zone that no inode owns yet to an unset pointer of a live inode.\<close>

lemma owner_inv_assign:
  assumes own: "owner_inv bo rb st" and pl: "placement_ok rb (AUFS_SB st) n"
    and pos: "0 < bpz st"
    and live: "no \<in> live_inodes bo st" "i < ZONE_PTR_IN_INODE_NUM" "zone_of st no i = 0"
    and z: "z \<notin> used_zones bo st" "2 \<le> z"
    and st': "used_zones bo st' = insert z (used_zones bo st)" "AUFS_SB st' = AUFS_SB st"
      "live_inodes bo st' = live_inodes bo st"
      "\<And>m j. j < ZONE_PTR_IN_INODE_NUM \<Longrightarrow> m \<in> live_inodes bo st \<Longrightarrow> zone_of st' m j =
         (if m = no \<and> j = i then zone_loc rb (AUFS_SB st) z else zone_of st m j)"
  shows "owner_inv bo rb st'"
proof -
  let ?loc = "zone_loc rb (AUFS_SB st)"
  have inj: "\<And>m m' j j'. m \<in> live_inodes bo st \<Longrightarrow> m' \<in> live_inodes bo st \<Longrightarrow>
      j < ZONE_PTR_IN_INODE_NUM \<Longrightarrow> j' < ZONE_PTR_IN_INODE_NUM \<Longrightarrow> zone_of st m j \<noteq> 0 \<Longrightarrow>
      zone_of st m j = zone_of st m' j' \<Longrightarrow> m = m' \<and> j = j'"
    using own by (simp add: owner_inv_def)
  have img: "\<And>m j. m \<in> live_inodes bo st \<Longrightarrow> j < ZONE_PTR_IN_INODE_NUM \<Longrightarrow> zone_of st m j \<noteq> 0 \<Longrightarrow>
      zone_of st m j \<in> ?loc ` (used_zones bo st - {0})"
    using own by (simp add: owner_inv_def)
  have fresh: "zone_of st m j \<noteq> ?loc z"
    if a: "m \<in> live_inodes bo st" "j < ZONE_PTR_IN_INODE_NUM" "zone_of st m j \<noteq> 0" for m j
  proof
    assume eq: "zone_of st m j = ?loc z"
    obtain y where y: "y \<in> used_zones bo st" "y \<noteq> 0" "zone_of st m j = ?loc y"
      using img [OF a] by blast
    have "?loc y + 0 = ?loc z + 0" using eq y(3) by simp
    then have "y = z" using zone_loc_disjoint [OF pl _ _ pos pos] y(2) z(2) by simp
    then show False using y(1) z(1) by simp
  qed
  have img': "zone_of st' m j \<in> ?loc ` (insert z (used_zones bo st) - {0})"
    if "m \<in> live_inodes bo st" "j < ZONE_PTR_IN_INODE_NUM" "zone_of st' m j \<noteq> 0" for m j
  proof (cases "m = no \<and> j = i")
    case True
    then show ?thesis using st'(4) [OF that(2,1)] z(2) by auto
  next
    case False
    then show ?thesis using st'(4) [OF that(2,1)] img [OF that(1,2)] that(3) by auto
  qed
  have inj': "m = m' \<and> j = j'"
    if m: "m \<in> live_inodes bo st" "m' \<in> live_inodes bo st" and
      j: "j < ZONE_PTR_IN_INODE_NUM" "j' < ZONE_PTR_IN_INODE_NUM" and
      nz: "zone_of st' m j \<noteq> 0" and eq: "zone_of st' m j = zone_of st' m' j'" for m m' j j'
  proof -
    note v = st'(4) [OF j(1) m(1)] st'(4) [OF j(2) m(2)]
    show ?thesis
      using fresh [OF m(1) j(1)] fresh [OF m(2) j(2)] inj [OF m j] nz eq
      unfolding v by (simp split: if_splits)
  qed
  show ?thesis unfolding owner_inv_def st'(1-3) using img' inj' by blast
qed

lemma new_zone_pointer:
  assumes "asb_ok sbi" and "z < 2147483648" and "zone_start sbi z < 2147483648"
  shows "unat (scast (ucast (zone_block sbi (of_nat z)) :: u32) :: u64) = zone_start sbi z"
proof -
  have u: "unat (ucast (zone_block sbi (of_nat z)) :: u32) = zone_start sbi z"
    using unat_zone_block [OF assms(1,2)] assms(3) by (simp add: unat_ucast_u64_u32)
  then show ?thesis using assms(3) by (simp add: scast_u32_small unat_of_nat_small)
qed

lemma live_inodes_frame:
  assumes "used_inodes bo st' = used_inodes bo st" and "AUFS_SB st' = AUFS_SB st"
  shows "live_inodes bo st' = live_inodes bo st"
  using assms by (simp add: live_inodes_def)

lemma zone_below:
  assumes "layout_inv bo rb st" and "z < n_zones st"
  shows "z < 2147483648" and "zone_start (AUFS_SB st) z < 2147483648"
proof -
  have "n_zones st < 2147483648" and pl: "zone_start (AUFS_SB st) (n_zones st) < 2147483648"
    using assms(1) by (auto simp: layout_inv_def maps_ok_def area_ok_def n_zones_def placement_ok_def)
  then show "z < 2147483648" using assms(2) by simp
  show "zone_start (AUFS_SB st) z < 2147483648"
    using zone_start_step [OF assms(2), of "AUFS_SB st"] pl by linarith
qed

text \<open>
  The two outcomes of the zone allocator under the invariant: no zone is left, or the least
  unused one is marked, lies where \<open>zone_loc\<close> says and was owned by nobody.
\<close>

lemma new_zone_cases:
  assumes "minix_bitmap bo" and inv: "layout_inv bo rb st"
  obtains (full) "aufs_new_zone bo st = Ret (0, st)" and "used_zones bo st = {..< n_zones st}"
  | (fresh) z st1 zone where "aufs_new_zone bo st = Ret (zone, st1)" and "2 \<le> z"
      and "z < n_zones st" and "z \<notin> used_zones bo st" and "\<forall>m < z. m \<in> used_zones bo st"
      and "unat (scast zone :: u64) = zone_loc rb (AUFS_SB st) z"
      and "used_zones bo st1 = insert z (used_zones bo st)"
      and "used_inodes bo st1 = used_inodes bo st" and "layout_inv bo rb st1"
      and "map_frame (s_zmap (AUFS_SB st)) st st1" and "icache st1 = icache st"
proof (cases "used_zones bo st = {..< n_zones st}")
  case True
  have maps: "maps_ok st" using inv by (simp add: layout_inv_def)
  from minix_bitmap.new_zone_full [OF assms(1) maps True] True show ?thesis by (rule full)
next
  case False
  have maps: "maps_ok st" using inv by (simp add: layout_inv_def)
  obtain z st1 where a: "aufs_new_zone bo st = Ret (ucast (zone_block (AUFS_SB st) (of_nat z)), st1)"
    and z: "z < n_zones st" "z \<notin> used_zones bo st" "\<forall>m < z. m \<in> used_zones bo st"
    and uz: "used_zones bo st1 = insert z (used_zones bo st)"
    and ui: "used_inodes bo st1 = used_inodes bo st" and m1: "maps_ok st1"
    and fr: "map_frame (s_zmap (AUFS_SB st)) st st1" and ic: "icache st1 = icache st"
    using minix_bitmap.new_zone_free [OF assms(1) maps False] by metis
  have z2: "2 \<le> z"
  proof (rule ccontr)
    assume "\<not> 2 \<le> z"
    then have "z = 0 \<or> z = 1" by auto
    then show False using z(2) inv by (auto simp: layout_inv_def)
  qed
  have ptr: "unat (scast (ucast (zone_block (AUFS_SB st) (of_nat z)) :: u32) :: u64) =
      zone_loc rb (AUFS_SB st) z"
    using new_zone_pointer zone_below [OF inv z(1)] z2 maps by (simp add: zone_loc_def maps_ok_def)
  note f = frame_zones [OF inv fr disjI1 [OF refl]]
  have lay: "layout_inv bo rb st1"
    using inv m1 uz ui by (simp add: layout_inv_def f)
  show ?thesis by (rule fresh [OF a z2 z ptr uz ui lay fr ic])
qed

lemma zone_of_frame:
  assumes "layout_inv bo rb st" and "map_frame bhs st st'"
    and "bhs = s_zmap (AUFS_SB st) \<or> bhs = s_imap (AUFS_SB st)" and "icache st' = icache st"
  shows "zone_of st' no i = zone_of st no i"
  using frame_zones(1) [OF assms(1-3)] assms(4) by (simp add: zone_of_def split: option.split)

lemma get_block_fresh_inv:
  assumes inv: "own_inv bo rb st" and ai: "icache st no = Some ai"
    and idx: "idx < ZONE_PTR_IN_INODE_NUM" "ai_zone_ptr ai ! idx = 0"
    and z: "2 \<le> z" "z \<notin> used_zones bo st"
    and ptr: "unat p = zone_loc rb (AUFS_SB st) z"
    and uz: "used_zones bo st1 = insert z (used_zones bo st)"
    and ui: "used_inodes bo st1 = used_inodes bo st" and lay: "layout_inv bo rb st1"
    and fr: "map_frame (s_zmap (AUFS_SB st)) st st1" and ic: "icache st1 = icache st"
  shows "own_inv bo rb (put_inode no (ai\<lparr>ai_zone_ptr := (ai_zone_ptr ai)[idx := p]\<rparr>) st1)"
    (is "own_inv bo rb ?st'")
proof -
  have l0: "layout_inv bo rb st" and c0: "cache_inv bo st" and o0: "owner_inv bo rb st"
    using inv by (auto simp: own_inv_def)
  note f = frame_zones [OF l0 fr disjI1 [OF refl]]
  have live: "live_inodes bo st1 = live_inodes bo st" using ui f(2) by (rule live_inodes_frame)
  have cached: "no \<in> live_inodes bo st" "length (ai_zone_ptr ai) = ZONE_PTR_IN_INODE_NUM"
    using c0 ai by (auto simp: cache_inv_def)
  have pl: "placement_ok rb (AUFS_SB st) (n_zones st)" and pos: "0 < bpz st"
    using l0 by (auto simp: layout_inv_def geometry_ok_def)
  have zo: "zone_of st1 m j = zone_of st m j" for m j
    using zone_of_frame [OF l0 fr disjI1 [OF refl] ic] .
  have "owner_inv bo rb ?st'"
    by (rule owner_inv_assign [OF o0 pl pos cached(1) idx(1) _ z(2,1)])
      (use ai idx uz live cached(2) ptr zo in
        \<open>auto simp: f zone_of_def [of st no] nth_list_update\<close>)
  moreover have "disk_zone st no idx = 0"
    using c0 ai idx by (fastforce simp: cache_inv_def)
  then have "cache_inv bo ?st'"
    using c0 ai idx cached live ic f(1) by (auto simp: cache_inv_def nth_list_update)
  moreover have "blank_inv bo st1"
    by (rule blank_inv_frame [of bo st]) (use inv ui f in \<open>auto simp: own_inv_def\<close>)
  ultimately show ?thesis using lay by (simp add: own_inv_def)
qed

text \<open>The outcomes of a block mapping: no change, or one new zone in one unset pointer.\<close>

lemma get_block_cases:
  assumes bm: "minix_bitmap bo" and lay: "layout_inv bo rb st"
    and run: "aufs_get_block bo no ib (s_blocksize st) create st = Ret (e, m, st')"
  obtains (same) "st' = st"
  | (alloc) ai idx z st1 p where "icache st no = Some ai" and "idx = unat ib div bpz st mod 2 ^ 32"
      and "idx < ZONE_PTR_IN_INODE_NUM" and "ai_zone_ptr ai ! idx = 0"
      and "st' = put_inode no (ai\<lparr>ai_zone_ptr := (ai_zone_ptr ai)[idx := p]\<rparr>) st1"
      and "2 \<le> z" and "z \<notin> used_zones bo st" and "unat p = zone_loc rb (AUFS_SB st) z"
      and "used_zones bo st1 = insert z (used_zones bo st)"
      and "used_inodes bo st1 = used_inodes bo st" and "layout_inv bo rb st1"
      and "map_frame (s_zmap (AUFS_SB st)) st st1" and "icache st1 = icache st"
proof -
  have g: "geometry_ok st" using lay by (simp add: layout_inv_def)
  obtain ai where ai: "icache st no = Some ai"
    using run by (cases "icache st no") (auto simp: aufs_get_block_def)
  define idx where "idx = unat ib div bpz st mod 2 ^ 32"
  note run' = run [unfolded get_block_norm [OF g ai] Let_def, folded idx_def]
  have idx: "idx < ZONE_PTR_IN_INODE_NUM" using run' by (auto split: if_splits)
  show ?thesis
  proof (cases "ai_zone_ptr ai ! idx = 0")
    case False
    then show ?thesis using run' idx same by (auto split: if_splits)
  next
    case True
    from bm lay show ?thesis
    proof (cases rule: new_zone_cases)
      case full
      have "(ai_zone_ptr ai)[idx := 0] = ai_zone_ptr ai" using True by (metis list_update_id)
      then have "st' = st"
        using run' full(1) True idx ai by (auto simp: put_inode_def fun_upd_idem)
      then show ?thesis by (rule same)
    next
      case (fresh z st1 zone)
      have "st' = put_inode no (ai\<lparr>ai_zone_ptr := (ai_zone_ptr ai)[idx := scast zone]\<rparr>) st1"
        using run' True idx fresh(1) by auto
      from alloc [OF ai idx_def idx True this fresh(2,4,6-)] show ?thesis .
    qed
  qed
qed

lemma get_block_own_inv:
  assumes bm: "minix_bitmap bo" and inv: "own_inv bo rb st"
    and run: "aufs_get_block bo no ib (s_blocksize st) create st = Ret (e, m, st')"
  shows "own_inv bo rb st'"
proof -
  have lay: "layout_inv bo rb st" using inv by (simp add: own_inv_def)
  from bm lay run show ?thesis
  proof (cases rule: get_block_cases)
    case (alloc ai idx z st1 p)
    then show ?thesis using get_block_fresh_inv [OF inv alloc(1,3,4)] by blast
  qed (use inv in simp)
qed

subsection \<open>Inode allocation keeps the invariant\<close>

lemma new_inode_fresh_inv:
  assumes inv: "own_inv bo rb st"
    and z: "0 < z" "z < n_inodes st" "z \<notin> used_inodes bo st"
    and ai: "ai_zone_ptr ai = replicate ZONE_PTR_IN_INODE_NUM 0" "i_ino ai = of_nat z" "i_dirty ai"
    and ui: "used_inodes bo st1 = insert z (used_inodes bo st)"
    and uz: "used_zones bo st1 = used_zones bo st" and m1: "maps_ok st1"
    and fr: "map_frame (s_imap (AUFS_SB st)) st st1" and ic: "icache st1 = icache st"
  shows "own_inv bo rb (put_inode z ai st1)"
proof -
  have l0: "layout_inv bo rb st" and c0: "cache_inv bo st" and o0: "owner_inv bo rb st"
    using inv by (auto simp: own_inv_def)
  note f = frame_zones [OF l0 fr disjI2 [OF refl]]
  have zo: "zone_of st1 m j = zone_of st m j" for m j
    using zone_of_frame [OF l0 fr disjI2 [OF refl] ic] .
  have "{inode_cap (AUFS_SB st)..<n_inodes st} \<subseteq> used_inodes bo st"
    using l0 by (simp only: layout_inv_def)
  then have "z < inode_cap (AUFS_SB st)"
    using z(2,3) by (meson atLeastLessThan_iff not_le subsetD)
  then have live: "live_inodes bo st1 = insert z (live_inodes bo st)"
    using z(1) ui f(2) by (auto simp: live_inodes_def)
  have "layout_inv bo rb st1" using l0 m1 unfolding layout_inv_def f ui uz by blast
  moreover have "\<forall>i < ZONE_PTR_IN_INODE_NUM. disk_zone st z i = 0"
    using inv z(1,3) \<open>z < inode_cap (AUFS_SB st)\<close> by (simp add: own_inv_def blank_inv_def)
  then have "cache_inv bo (put_inode z ai st1)"
    using c0 ai live ic by (auto simp: cache_inv_def f)
  moreover have "blank_inv bo st1"
    by (rule blank_inv_frame [of bo st]) (use inv ui f in \<open>auto simp: own_inv_def\<close>)
  moreover have "owner_inv bo rb (put_inode z ai st1)"
    using o0 ai(1) by (auto simp: owner_inv_def live zo uz f)
  ultimately show ?thesis by (simp add: own_inv_def)
qed

text \<open>The two outcomes of the inode allocator.\<close>

lemma new_inode_cases:
  assumes bm: "minix_bitmap (k_bits k)" and lay: "layout_inv (k_bits k) rb st"
    and run: "aufs_new_inode k dir mode st = (r, e, st')"
  obtains (same) "st' = st"
  | (alloc) ino0 z st1 where "k_new_inode k = Some ino0" and "r = Some (of_nat z)"
      and "st' = put_inode z (init_new_inode k ino0 dir mode (of_nat z)) st1"
      and "0 < z" and "z < n_inodes st" and "z \<notin> used_inodes (k_bits k) st"
      and "used_inodes (k_bits k) st1 = insert z (used_inodes (k_bits k) st)"
      and "used_zones (k_bits k) st1 = used_zones (k_bits k) st" and "maps_ok st1"
      and "map_frame (s_imap (AUFS_SB st)) st st1" and "icache st1 = icache st"
proof (cases "k_new_inode k")
  case None
  then show ?thesis using run same by (simp add: aufs_new_inode_def)
next
  case (Some ino0)
  let ?bo = "k_bits k"
  have maps: "maps_ok st" and zero: "0 \<in> used_inodes ?bo st"
    using lay by (auto simp: layout_inv_def)
  show ?thesis
  proof (cases "used_inodes ?bo st = {..< n_inodes st}")
    case True
    then show ?thesis using minix_bitmap.new_inode_full [OF bm maps refl Some True] run same by simp
  next
    case False
    show ?thesis
    proof (rule minix_bitmap.new_inode_free [OF bm maps refl Some zero False, of dir mode])
      fix z st1
      assume new: "aufs_new_inode k dir mode st =
          (Some (of_nat z), 0, put_inode z (init_new_inode k ino0 dir mode (of_nat z)) st1)"
        and z: "0 < z" "z < n_inodes st" "z \<notin> used_inodes ?bo st"
        and st1: "used_inodes ?bo st1 = insert z (used_inodes ?bo st)"
          "used_zones ?bo st1 = used_zones ?bo st" "maps_ok st1"
          "map_frame (s_imap (AUFS_SB st)) st st1" "icache st1 = icache st"
      from new run have "r = Some (of_nat z)"
        "st' = put_inode z (init_new_inode k ino0 dir mode (of_nat z)) st1" by simp_all
      from alloc [OF Some this z st1] show thesis .
    qed
  qed
qed

lemma new_inode_own_inv:
  assumes bm: "minix_bitmap (k_bits k)" and inv: "own_inv (k_bits k) rb st"
    and run: "aufs_new_inode k dir mode st = (r, e, st')"
  shows "own_inv (k_bits k) rb st'"
proof -
  have lay: "layout_inv (k_bits k) rb st" using inv by (simp add: own_inv_def)
  from bm lay run show ?thesis
  proof (cases rule: new_inode_cases)
    case (alloc ino0 z st1)
    show ?thesis unfolding alloc(3)
      by (rule new_inode_fresh_inv [OF inv alloc(4-6) _ _ _ alloc(7-)]) (simp_all add: init_new_inode_def)
  qed (use inv in simp)
qed

subsection \<open>Reading, writing and dropping inodes keeps the invariant\<close>

lemma fill_disk_zones:
  "length (ai_zone_ptr (aufs_inode_fill new (read_disk_inode d off))) = ZONE_PTR_IN_INODE_NUM"
  "i < ZONE_PTR_IN_INODE_NUM \<Longrightarrow>
     unat (ai_zone_ptr (aufs_inode_fill new (read_disk_inode d off)) ! i) = unat (be32_at d (off + 4 * i))"
  by (simp_all add: aufs_inode_fill_def read_disk_inode_def)

text \<open>Caching an inode whose zone pointers are those on disk.\<close>

lemma load_own_inv:
  assumes inv: "own_inv bo rb st" and no: "no \<in> live_inodes bo st" "icache st no = None"
    and ai: "i_ino ai = of_nat no" "length (ai_zone_ptr ai) = ZONE_PTR_IN_INODE_NUM"
      "\<And>i. i < ZONE_PTR_IN_INODE_NUM \<Longrightarrow> unat (ai_zone_ptr ai ! i) = disk_zone st no i"
  shows "own_inv bo rb (put_inode no ai st)"
proof -
  have zo: "zone_of (put_inode no ai st) m i = zone_of st m i" if "i < ZONE_PTR_IN_INODE_NUM" for m i
    using no(2) ai(3) [OF that] by (auto simp: zone_of_def [of st no])
  have "cache_inv bo (put_inode no ai st)"
    using inv no ai by (auto simp: own_inv_def cache_inv_def)
  moreover have "owner_inv bo rb (put_inode no ai st)"
    using inv by (simp add: own_inv_def owner_inv_def zo del: zone_of_put_inode)
  ultimately show ?thesis using inv by (simp add: own_inv_def)
qed

text \<open>The outcomes of loading an inode: no change, or the record on disk is in the cache.\<close>

lemma inode_get_cases:
  assumes lay: "layout_inv bo rb st" and no: "no \<in> live_inodes bo st"
    and run: "aufs_inode_get k (of_nat no) st = Ret (r, st')"
  obtains (same) "st' = st"
  | (loaded) ai where "st' = put_inode no ai st" and "icache st no = None" and "i_ino ai = of_nat no"
      and "length (ai_zone_ptr ai) = ZONE_PTR_IN_INODE_NUM"
      and "\<And>i. i < ZONE_PTR_IN_INODE_NUM \<Longrightarrow> unat (ai_zone_ptr ai ! i) = disk_zone st no i"
proof (cases "st' = st")
  case True
  then show ?thesis by (rule same)
next
  case False
  have ok: "asb_ok (AUFS_SB st)" using lay by (simp add: layout_inv_def maps_ok_def)
  have b: "no < 2147483648" using live_bound(1) [OF lay no] .
  note loc = unat_inode_location [OF ok b]
  have un: "unat (of_nat no :: u64) = no" using b by (intro unat_of_nat_small) simp
  have none: "icache st no = None"
    using run False un by (cases "icache st no") (auto simp: aufs_inode_get_def)
  then obtain new where "k_iget k no = Some new"
    using run False un by (cases "k_iget k no") (auto simp: aufs_inode_get_def)
  then obtain ai where "st' = put_inode no ai st" and "i_ino ai = of_nat no"
    and "ai_zone_ptr ai = ai_zone_ptr (aufs_inode_fill new
           (read_disk_inode (b_data st (inode_blk (AUFS_SB st) no)) (inode_off no)))"
    using run False none loc un
    by (auto simp: aufs_inode_get_def Let_def split: if_splits)
  then show ?thesis using loaded [OF _ none] by (simp add: fill_disk_zones disk_zone_def)
qed

lemma inode_get_own_inv:
  assumes inv: "own_inv bo rb st" and no: "no \<in> live_inodes bo st"
    and run: "aufs_inode_get k (of_nat no) st = Ret (r, st')"
  shows "own_inv bo rb st'"
proof -
  have lay: "layout_inv bo rb st" using inv by (simp add: own_inv_def)
  from lay no run show ?thesis
  proof (cases rule: inode_get_cases)
    case (loaded ai)
    show ?thesis unfolding loaded(1) using loaded(2-) by (intro load_own_inv [OF inv no]) auto
  qed (use inv in simp)
qed

lemma evict_own_inv:
  assumes inv: "own_inv bo rb st"
  shows "own_inv bo rb (evict_inode no st)"
proof -
  have l0: "layout_inv bo rb st" and c0: "cache_inv bo st" and o0: "owner_inv bo rb st"
    using inv by (auto simp: own_inv_def)
  have same: "AUFS_SB (evict_inode no st) = AUFS_SB st" "zone_bits (evict_inode no st) = zone_bits st"
      "used_zones bo (evict_inode no st) = used_zones bo st"
      "used_inodes bo (evict_inode no st) = used_inodes bo st"
      "disk_zone (evict_inode no st) m j = disk_zone st m j" for m j
    by (simp_all add: AUFS_SB_def zone_bits_def used_zones_def used_inodes_def disk_zone_def area_used_def)
  have same_ok: "n_zones (evict_inode no st) = n_zones st" "n_inodes (evict_inode no st) = n_inodes st"
      "geometry_ok (evict_inode no st) = geometry_ok st" "maps_ok (evict_inode no st) = maps_ok st"
    by (simp_all add: n_zones_def n_inodes_def geometry_ok_def maps_ok_def area_ok_def same)
  have live: "live_inodes bo (evict_inode no st) = live_inodes bo st"
    by (simp add: live_inodes_def same)
  have zo: "zone_of (evict_inode no st) m j = 0 \<or> zone_of (evict_inode no st) m j = zone_of st m j"
    if "j < ZONE_PTR_IN_INODE_NUM" for m j
    using c0 that by (cases "m = no") (auto simp: zone_of_def same cache_inv_def split: option.split)
  have "layout_inv bo rb (evict_inode no st)"
    using l0 by (simp only: layout_inv_def same same_ok)
  moreover have "cache_inv bo (evict_inode no st)"
    using c0 by (auto simp: cache_inv_def live same)
  moreover have "owner_inv bo rb (evict_inode no st)"
    using o0 zo unfolding owner_inv_def live same by metis
  moreover have "blank_inv bo (evict_inode no st)"
    by (rule blank_inv_frame [of bo st]) (use inv same in \<open>auto simp: own_inv_def\<close>)
  ultimately show ?thesis by (simp add: own_inv_def)
qed

subsection \<open>Writing inodes back keeps the invariant\<close>

text \<open>A change of one buffer outside the bitmaps.\<close>

lemma layout_other_buffer:
  assumes "layout_inv bo rb st" and "bh \<notin> set (s_zmap (AUFS_SB st))"
    and "bh \<notin> set (s_imap (AUFS_SB st))"
    and "b_data st' = (b_data st)(bh := d)" "s_fs_info st' = s_fs_info st"
    and "s_blocksize st' = s_blocksize st"
  shows "used_zones bo st' = used_zones bo st" and "used_inodes bo st' = used_inodes bo st"
    and "AUFS_SB st' = AUFS_SB st" and "live_inodes bo st' = live_inodes bo st"
    and "layout_inv bo rb st'"
proof -
  show sb: "AUFS_SB st' = AUFS_SB st" using assms(5) by (simp add: AUFS_SB_def)
  have maps: "maps_ok st" using assms(1) by (simp only: layout_inv_def)
  then have pos: "0 < zone_bits st" by (simp add: maps_ok_def zone_bits_def)
  have zb: "zone_bits st' = zone_bits st" "n_zones st' = n_zones st" "n_inodes st' = n_inodes st"
      "geometry_ok st' = geometry_ok st"
    using assms(6) by (simp_all add: zone_bits_def n_zones_def n_inodes_def geometry_ok_def sb)
  have eq: "area_used bo st' bhs n = area_used bo (put_buffer bh d st) bhs n"
      "area_ok st' bhs n = area_ok (put_buffer bh d st) bhs n" for bhs n
    using assms(4) by (simp_all add: area_used_def area_ok_def)
  note z = area_other [OF assms(2) pos] and i = area_other [OF assms(3) pos]
  show uz: "used_zones bo st' = used_zones bo st" and ui: "used_inodes bo st' = used_inodes bo st"
    by (simp_all add: used_zones_def used_inodes_def sb zb eq z i)
  show "live_inodes bo st' = live_inodes bo st" using ui sb by (rule live_inodes_frame)
  have "maps_ok st'" using maps assms(6) by (simp add: maps_ok_def sb zb eq z i)
  then show "layout_inv bo rb st'" using assms(1) by (simp only: layout_inv_def sb zb uz ui maps)
qed

lemma used_zone_small:
  assumes "layout_inv bo rb st" and "z \<in> used_zones bo st" and "z \<noteq> 0"
  shows "zone_loc rb (AUFS_SB st) z < 2147483648"
proof -
  have pl: "placement_ok rb (AUFS_SB st) (n_zones st)" using assms(1) by (simp only: layout_inv_def)
  have "z < n_zones st" using assms(2) by (simp add: used_zones_def area_used_def n_zones_def)
  then have "zone_loc rb (AUFS_SB st) z \<le> zone_loc rb (AUFS_SB st) (n_zones st)"
    using zone_loc_step [OF pl, of z "n_zones st"] assms(3) by linarith
  moreover have "n_zones st \<noteq> 1"
    using \<open>z < n_zones st\<close> assms(3) by auto
  ultimately show ?thesis using pl by (simp add: zone_loc_def placement_ok_def)
qed

lemma cached_pointer_small:
  assumes "own_inv bo rb st" and "icache st no = Some ai" and "i < ZONE_PTR_IN_INODE_NUM"
  shows "unat (ai_zone_ptr ai ! i) < 2147483648"
proof (cases "ai_zone_ptr ai ! i = 0")
  case False
  have zo: "zone_of st no i = unat (ai_zone_ptr ai ! i)" using assms(2) by (simp add: zone_of_def)
  have "no \<in> live_inodes bo st" "layout_inv bo rb st"
    using assms by (auto simp: own_inv_def cache_inv_def)
  moreover have "zone_of st no i \<noteq> 0" using False zo by (simp add: unat_eq_zero)
  ultimately have "zone_of st no i \<in> zone_loc rb (AUFS_SB st) ` (used_zones bo st - {0})"
    using assms(1,3) unfolding own_inv_def owner_inv_def by blast
  then obtain z where "z \<in> used_zones bo st" "z \<noteq> 0" "zone_of st no i = zone_loc rb (AUFS_SB st) z"
    by blast
  then show ?thesis using used_zone_small [OF \<open>layout_inv bo rb st\<close>, of z] zo by simp
qed simp

text \<open>The disk pointers after a record was written: those of the record and, elsewhere, the old ones.\<close>

lemma disk_zone_written:
  assumes bh: "bh = inode_blk (AUFS_SB st) no"
    and len: "inode_off no + sizeof_disk_inode \<le> length (b_data st bh)"
    and zl: "length (di_zone_ptr di) = ZONE_PTR_IN_INODE_NUM"
    and st': "b_data st' = (b_data st)(bh := blit (inode_off no) (disk_inode_enc di) (b_data st bh))"
      "AUFS_SB st' = AUFS_SB st" and i: "i < ZONE_PTR_IN_INODE_NUM"
  shows "disk_zone st' m i = (if m = no then unat (di_zone_ptr di ! i) else disk_zone st m i)"
proof -
  let ?d = "b_data st bh" and ?e = "disk_inode_enc di"
  have el: "length ?e = 64" using zl by (rule length_disk_inode_enc)
  show ?thesis
  proof (cases "m = no")
    case True
    have "di_zone_ptr (read_disk_inode (blit (inode_off no) ?e ?d) (inode_off no)) ! i = di_zone_ptr di ! i"
      using read_disk_inode_blit [OF zl len] by simp
    then show ?thesis using True bh i st' by (simp add: disk_zone_def read_disk_inode_def)
  next
    case False
    show ?thesis
    proof (cases "inode_blk (AUFS_SB st) m = bh")
      case True
      then have "inode_off m \<noteq> inode_off no" using False bh inode_location_inj by metis
      then have "inode_off m + 64 \<le> inode_off no \<or> inode_off no + 64 \<le> inode_off m"
        by (rule inode_off_disjoint)
      moreover have "4 * i + 4 \<le> 64" using i by (simp add: ZONE_PTR_IN_INODE_NUM_def)
      ultimately have "be32_at (blit (inode_off no) ?e ?d) (inode_off m + 4 * i) =
          be32_at ?d (inode_off m + 4 * i)"
        using len el by (intro be32_at_blit_frame) auto
      then show ?thesis using False True st' by (simp add: disk_zone_def)
    next
      case False
      then show ?thesis using \<open>m \<noteq> no\<close> st' by (simp add: disk_zone_def)
    qed
  qed
qed

text \<open>
  The kernel's write-back of a cached inode: \<^verbatim>\<open>minix_write_inode\<close>, after which the inode is
  clean when no error was returned.
\<close>

definition writeback_inode :: "kapi \<Rightarrow> nat \<Rightarrow> bool \<Rightarrow> fs \<Rightarrow> (int \<times> fs) cres" where
  "writeback_inode k no sync_all st =
     (case icache st no of
        None \<Rightarrow> Ret (0, st)
      | Some ai \<Rightarrow>
          (case minix_write_inode k ai sync_all st of
             Inl f \<Rightarrow> Fault f
           | Inr (e, st1) \<Rightarrow> Ret (e, if e = 0 then put_inode no (ai\<lparr>i_dirty := False\<rparr>) st1 else st1)))"

lemma written_zones:
  assumes inv: "own_inv bo rb st" and ai: "icache st no = Some ai"
    and bh: "bh = inode_blk (AUFS_SB st) no"
    and len: "inode_off no + sizeof_disk_inode \<le> length (b_data st bh)"
    and st': "b_data st' = (b_data st)(bh := blit (inode_off no)
        (disk_inode_enc (raw_inode_of k ai)) (b_data st bh))" "AUFS_SB st' = AUFS_SB st"
    and i: "i < ZONE_PTR_IN_INODE_NUM"
  shows "disk_zone st' m i = (if m = no then unat (ai_zone_ptr ai ! i) else disk_zone st m i)"
proof -
  have cl: "length (ai_zone_ptr ai) = ZONE_PTR_IN_INODE_NUM"
    using inv ai by (auto simp: own_inv_def cache_inv_def)
  then have zl: "length (di_zone_ptr (raw_inode_of k ai)) = ZONE_PTR_IN_INODE_NUM"
    by (simp add: raw_inode_of_def)
  have "unat (di_zone_ptr (raw_inode_of k ai) ! i) = unat (ai_zone_ptr ai ! i)"
    using cached_pointer_small [OF inv ai i] i cl by (simp add: raw_inode_of_def unat_ucast_u64_u32)
  then show ?thesis using disk_zone_written [OF bh len zl st' i] by simp
qed

lemma written_own_inv:
  assumes inv: "own_inv bo rb st" and ai: "icache st no = Some ai"
    and bh: "bh = inode_blk (AUFS_SB st) no"
    and len: "inode_off no + sizeof_disk_inode \<le> length (b_data st bh)"
    and st': "b_data st' = (b_data st)(bh := blit (inode_off no)
        (disk_inode_enc (raw_inode_of k ai)) (b_data st bh))"
      "s_fs_info st' = s_fs_info st" "s_blocksize st' = s_blocksize st" "icache st' = icache st"
  shows "own_inv bo rb (put_inode no (ai\<lparr>i_dirty := dirty\<rparr>) st')" and "own_inv bo rb st'"
proof -
  have l0: "layout_inv bo rb st" and c0: "cache_inv bo st" and o0: "owner_inv bo rb st"
    using inv by (auto simp: own_inv_def)
  note lay = layout_other_buffer [OF l0 _ _ st'(1-3)]
  have nm: "bh \<notin> set (s_zmap (AUFS_SB st))" "bh \<notin> set (s_imap (AUFS_SB st))"
    using inode_blk_not_map [OF l0] bh by auto
  note same = lay [OF nm]
  have cl: "no \<in> live_inodes bo st" "i_ino ai = of_nat no" "length (ai_zone_ptr ai) = ZONE_PTR_IN_INODE_NUM"
    using c0 ai by (auto simp: cache_inv_def)
  have dz: "disk_zone st' m i = (if m = no then unat (ai_zone_ptr ai ! i) else disk_zone st m i)"
    if "i < ZONE_PTR_IN_INODE_NUM" for m i
    using written_zones [OF inv ai bh len st'(1) same(3) that] .
  have zo: "zone_of st' m i = zone_of st m i" if "i < ZONE_PTR_IN_INODE_NUM" for m i
    using dz [OF that] ai st'(4) by (simp add: zone_of_def split: option.split)
  have zo': "zone_of (put_inode no (ai\<lparr>i_dirty := dirty\<rparr>) st') m i = zone_of st m i"
    if "i < ZONE_PTR_IN_INODE_NUM" for m i
    using zo [OF that] ai by (simp add: zone_of_def [of st no])
  have own: "owner_inv bo rb st'" "owner_inv bo rb (put_inode no (ai\<lparr>i_dirty := dirty\<rparr>) st')"
    using o0 by (simp_all add: owner_inv_def same zo zo' del: zone_of_put_inode)
  have "cache_inv bo st'"
    using c0 ai st'(4) by (auto simp: cache_inv_def same dz)
  moreover have "cache_inv bo (put_inode no (ai\<lparr>i_dirty := dirty\<rparr>) st')"
    using c0 cl st'(4) by (auto simp: cache_inv_def same dz)
  moreover have "blank_inv bo st'"
  proof (rule blank_inv_frame [of bo st])
    fix m i assume "m \<notin> used_inodes bo st'" "i < ZONE_PTR_IN_INODE_NUM"
    then show "disk_zone st' m i = disk_zone st m i"
      using dz cl(1) same(2) by (auto simp: live_inodes_def)
  qed (use inv same in \<open>auto simp: own_inv_def\<close>)
  ultimately show "own_inv bo rb (put_inode no (ai\<lparr>i_dirty := dirty\<rparr>) st')" "own_inv bo rb st'"
    using own same(5) by (simp_all add: own_inv_def)
qed

text \<open>The outcomes of a write-back: nothing, or the record of the inode is in its buffer.\<close>

lemma writeback_cases:
  assumes inv: "own_inv bo rb st" and run: "writeback_inode k no sync_all st = Ret (e, st')"
  obtains (same) "st' = st"
  | (written) ai where "icache st no = Some ai"
      and "inode_off no + sizeof_disk_inode \<le> length (b_data st (inode_blk (AUFS_SB st) no))"
      and "b_data st' = (b_data st)(inode_blk (AUFS_SB st) no := blit (inode_off no)
        (disk_inode_enc (raw_inode_of k ai)) (b_data st (inode_blk (AUFS_SB st) no)))"
      and "s_fs_info st' = s_fs_info st" and "s_blocksize st' = s_blocksize st" and "pages st' = pages st"
      and "icache st' = (if e = 0 then (icache st)(no \<mapsto> ai\<lparr>i_dirty := False\<rparr>) else icache st)"
proof (cases "icache st no")
  case None
  then show ?thesis using run same by (simp add: writeback_inode_def)
next
  case (Some ai)
  let ?bh = "inode_blk (AUFS_SB st) no"
  have lay: "layout_inv bo rb st" using inv by (simp add: own_inv_def)
  then have ok: "asb_ok (AUFS_SB st)" by (simp add: layout_inv_def maps_ok_def)
  have cl: "no \<in> live_inodes bo st" "i_ino ai = of_nat no"
    using inv Some by (auto simp: own_inv_def cache_inv_def)
  note b = live_bound [OF lay cl(1)]
  note upd = update_inode_eq [OF ok b(3,1,2) cl(2), of k]
  show ?thesis
  proof (cases "k_bread k ?bh")
    case False
    then show ?thesis
      using run Some upd same by (simp add: writeback_inode_def minix_write_inode_def Let_def)
  next
    case True
    then have len: "inode_off no + sizeof_disk_inode \<le> length (b_data st ?bh)"
      using run Some upd by (auto simp: writeback_inode_def minix_write_inode_def Let_def split: if_splits)
    then show ?thesis
      using written [OF Some len] run Some upd True
      by (auto simp: writeback_inode_def minix_write_inode_def sync_dirty_buffer_def Let_def split: if_splits)
  qed
qed

lemma writeback_own_inv:
  assumes inv: "own_inv bo rb st" and run: "writeback_inode k no sync_all st = Ret (e, st')"
  shows "own_inv bo rb st'"
  using inv run
proof (cases rule: writeback_cases)
  case (written ai)
  define st1 where "st1 = st'\<lparr>icache := icache st\<rparr>"
  have st1: "b_data st1 = b_data st'" "s_fs_info st1 = s_fs_info st'" "s_blocksize st1 = s_blocksize st'"
    "icache st1 = icache st"
    by (simp_all add: st1_def)
  note keep = written_own_inv [OF inv written(1) refl written(2), of st1 k, unfolded st1, OF written(3-5) refl]
  have "st' = (if e = 0 then put_inode no (ai\<lparr>i_dirty := False\<rparr>) st1 else st1)"
    using written(7) by (auto simp: st1_def put_inode_def)
  then show ?thesis using keep by simp
qed (use inv in simp)

subsection \<open>The mounted file system as a transition system\<close>

text \<open>
  One step of the mounted file system, in any order and with any behaviour of the kernel
  functions: a block mapping, an inode allocation, the lookup of an inode some directory
  names, a write-back, the kernel dropping an inode (even an unwritten one), a change of an inode's other fields
  (the VFS, \<^verbatim>\<open>setattr\<close>, the directory code), a write to a data block or to a page. Inode numbers that are looked up are in use and
  data is written behind the metadata; \<open>module_step\<close> below is without these two conditions.
\<close>

inductive fs_step :: "bitops \<Rightarrow> fs \<Rightarrow> fs \<Rightarrow> bool" for bo :: bitops where
  step_get_block:
    "aufs_get_block bo no ib (s_blocksize st) create st = Ret (e, m, st') \<Longrightarrow> fs_step bo st st'"
| step_new_inode:
    "k_bits k = bo \<Longrightarrow> aufs_new_inode k dir mode st = (r, e, st') \<Longrightarrow> fs_step bo st st'"
| step_inode_get:
    "no \<in> live_inodes bo st \<Longrightarrow> aufs_inode_get k (of_nat no) st = Ret (r, st') \<Longrightarrow> fs_step bo st st'"
| step_writeback:
    "writeback_inode k no sync_all st = Ret (e, st') \<Longrightarrow> fs_step bo st st'"
| step_evict:
    "fs_step bo st (evict_inode no st)"
| step_touch:
    "icache st no = Some ai \<Longrightarrow> ai_zone_ptr ai' = ai_zone_ptr ai \<Longrightarrow> i_ino ai' = i_ino ai \<Longrightarrow>
     fs_step bo st (put_inode no ai' st)"
| step_data:
    "meta_end (AUFS_SB st) \<le> bh \<Longrightarrow> fs_step bo st (put_buffer bh d st)"
| step_pages:
    "fs_step bo st (st\<lparr>pages := pgs\<rparr>)"
| step_dirty:
    "fs_step bo st (mark_buffer_dirty bh st)"

inductive_cases fs_stepE: "fs_step bo st st'"

text \<open>A state that agrees on everything the invariant reads.\<close>

lemma touch_own_inv:
  assumes inv: "own_inv bo rb st" and ai: "icache st no = Some ai" "ai_zone_ptr ai' = ai_zone_ptr ai"
    "i_ino ai' = i_ino ai"
  shows "own_inv bo rb (put_inode no ai' st)"
proof -
  have zo: "zone_of (put_inode no ai' st) m i = zone_of st m i" for m i
    using ai by (simp add: zone_of_def [of st no])
  have "cache_inv bo (put_inode no ai' st)"
    using inv ai by (auto simp: own_inv_def cache_inv_def)
  moreover have "owner_inv bo rb (put_inode no ai' st)"
    using inv by (simp add: own_inv_def owner_inv_def zo del: zone_of_put_inode)
  ultimately show ?thesis using inv by (simp add: own_inv_def)
qed

lemma data_own_inv:
  assumes inv: "own_inv bo rb st" and bh: "meta_end (AUFS_SB st) \<le> bh"
  shows "own_inv bo rb (put_buffer bh d st)"
proof -
  let ?st' = "put_buffer bh d st"
  have l0: "layout_inv bo rb st" using inv by (simp add: own_inv_def)
  have zm: "s_zmap (AUFS_SB st) = [1..<1 + unat (asb_zone_map_blocks (AUFS_SB st))]"
    and im: "s_imap (AUFS_SB st) =
       [1 + unat (asb_zone_map_blocks (AUFS_SB st))..<
        1 + unat (asb_zone_map_blocks (AUFS_SB st)) + unat (asb_inode_map_blocks (AUFS_SB st))]"
    using l0 by (simp_all only: layout_inv_def)
  have nm: "bh \<notin> set (s_zmap (AUFS_SB st))" "bh \<notin> set (s_imap (AUFS_SB st))"
    using bh unfolding zm im meta_end_def by auto
  note same = layout_other_buffer [OF l0 nm put_buffer_sel(1,4,3)]
  have dz: "disk_zone ?st' m i = disk_zone st m i" if "m < inode_cap (AUFS_SB st)" for m i
  proof -
    have "inode_blk (AUFS_SB st) m \<noteq> bh" using bh inode_blk_below_meta [OF that] by simp
    then show ?thesis by (simp add: disk_zone_def same)
  qed
  have lb: "m < inode_cap (AUFS_SB st)" if "m \<in> live_inodes bo st" for m
    using that by (simp add: live_inodes_def)
  have zo: "zone_of ?st' m i = zone_of st m i" if "m \<in> live_inodes bo st" for m i
    using dz [OF lb [OF that]] by (simp add: zone_of_def split: option.split)
  have "cache_inv bo ?st'" using inv by (simp add: own_inv_def cache_inv_def same dz lb)
  moreover have "owner_inv bo rb ?st'" using inv by (simp add: own_inv_def owner_inv_def same zo)
  moreover have "blank_inv bo ?st'"
    by (rule blank_inv_frame [of bo st]) (use inv same dz in \<open>auto simp: own_inv_def\<close>)
  ultimately show ?thesis using same(5) by (simp add: own_inv_def)
qed

lemma page_own_inv:
  assumes "own_inv bo rb st"
    and "s_fs_info st' = s_fs_info st" "s_blocksize st' = s_blocksize st" "b_data st' = b_data st"
      "icache st' = icache st"
  shows "own_inv bo rb st'"
proof -
  let ?st' = "st'"
  have sb: "AUFS_SB ?st' = AUFS_SB st" "zone_bits ?st' = zone_bits st"
    using assms(2,3) by (simp_all add: AUFS_SB_def zone_bits_def)
  then have nz: "n_zones ?st' = n_zones st" "n_inodes ?st' = n_inodes st"
    "geometry_ok ?st' = geometry_ok st" "maps_ok ?st' = maps_ok st"
    "used_zones bo ?st' = used_zones bo st" "used_inodes bo ?st' = used_inodes bo st"
    using assms(2-5) by (simp_all add: n_zones_def n_inodes_def geometry_ok_def maps_ok_def area_ok_def
        used_zones_def used_inodes_def area_used_def)
  have live: "live_inodes bo ?st' = live_inodes bo st" using nz(6) sb(1) by (rule live_inodes_frame)
  have dz: "disk_zone ?st' m i = disk_zone st m i" "zone_of ?st' m i = zone_of st m i" for m i
    using assms(4,5) by (simp_all add: disk_zone_def zone_of_def sb split: option.split)
  have "layout_inv bo rb ?st' = layout_inv bo rb st" by (simp only: layout_inv_def sb nz)
  then show ?thesis
    using assms by (simp add: own_inv_def cache_inv_def owner_inv_def blank_inv_def live dz nz sb)
qed

lemma step_own_inv:
  assumes "fs_step bo st st'" and "minix_bitmap bo" and "own_inv bo rb st"
  shows "own_inv bo rb st'"
  using assms
proof (induction rule: fs_step.induct)
  case (step_new_inode k dir mode st r e st')
  then show ?case using new_inode_own_inv by metis
next
  case (step_pages st pgs)
  show ?case by (rule page_own_inv [of bo rb st]) (simp_all add: \<open>own_inv bo rb st\<close>)
next
  case (step_dirty st bh)
  show ?case by (rule page_own_inv [of bo rb st]) (simp_all add: \<open>own_inv bo rb st\<close>)
qed (auto intro: get_block_own_inv inode_get_own_inv writeback_own_inv evict_own_inv touch_own_inv
      data_own_inv)

lemma reachable_own_inv:
  assumes "(fs_step bo)\<^sup>*\<^sup>* st0 st" and "minix_bitmap bo" and "own_inv bo rb st0"
  shows "own_inv bo rb st"
  using assms by (induction rule: rtranclp_induct) (auto intro: step_own_inv)

text \<open>Generic block functions run with the module's callback are sequences of steps.\<close>

lemma block_io_step: "block_io (aufs_get_block bo no) st st' \<Longrightarrow> fs_step bo st st'"
  by (erule block_ioE) (auto intro: fs_step.intros)

lemma block_ios_steps: "(block_io (aufs_get_block bo no))\<^sup>*\<^sup>* st st' \<Longrightarrow> (fs_step bo)\<^sup>*\<^sup>* st st'"
  by (induction rule: rtranclp_induct) (auto intro: rtranclp.rtrancl_into_rtrancl block_io_step)

subsection \<open>What a block mapping returns\<close>

lemma file_block_word:
  assumes inv: "own_inv bo rb st" and live: "no \<in> live_inodes bo st" and m: "mapped st no ib"
  shows "file_block st no ib < 4294967296"
proof -
  obtain z where z: "1 \<le> z" "z \<in> used_zones bo st"
    "zone_of st no (ib div bpz st) = zone_loc rb (AUFS_SB st) z"
    using owner_zone [OF inv live m] by metis
  have lay: "layout_inv bo rb st" using inv by (simp add: own_inv_def)
  then have pos: "0 < bpz st" and lt: "bpz st \<le> 1048576"
    by (auto simp: layout_inv_def geometry_ok_def maps_ok_def asb_ok_def)
  have "zone_loc rb (AUFS_SB st) z < 2147483648" using used_zone_small [OF lay z(2)] z(1) by simp
  moreover have "ib mod bpz st < bpz st" using pos by simp
  ultimately show ?thesis using lt z(3) by (simp add: file_block_def)
qed

lemma offset_word:
  assumes "r + unat p < 4294967296"
  shows "unat (of_nat r + p :: u64) = r + unat p"
proof -
  have "unat (of_nat r :: u64) = r" using assms by (intro unat_of_nat_small) simp
  then show ?thesis using assms by (simp add: unat_add_no_wrap)
qed

text \<open>The outcome of the mapping for a file block without a zone: the file gets the least unused zone.\<close>

lemma get_block_fresh:
  assumes bm: "minix_bitmap bo" and inv: "own_inv bo rb st" and ai: "icache st no = Some ai"
    and idx: "unat ib div bpz st < ZONE_PTR_IN_INODE_NUM" and zero: "zone_of st no (unat ib div bpz st) = 0"
    and avail: "used_zones bo st \<noteq> {..< n_zones st}"
  obtains z b st' where "aufs_get_block bo no ib (s_blocksize st) create st = Ret (0, Some b, st')"
    and "unat b = zone_loc rb (AUFS_SB st) z + unat ib mod bpz st" and "meta_end (AUFS_SB st) \<le> zone_loc rb (AUFS_SB st) z"
    and "z \<notin> used_zones bo st" and "{..< z} \<subseteq> used_zones bo st" and "used_zones bo st' = insert z (used_zones bo st)"
    and "own_inv bo rb st'" and "live_inodes bo st' = live_inodes bo st" and "AUFS_SB st' = AUFS_SB st"
    and "\<And>m j. zone_of st' m j = (if m = no \<and> j = unat ib div bpz st then zone_loc rb (AUFS_SB st) z else zone_of st m j)"
    and "\<And>x. x \<notin> set (s_zmap (AUFS_SB st)) \<Longrightarrow> b_data st' x = b_data st x"
proof -
  let ?q = "unat ib div bpz st"
  have lay: "layout_inv bo rb st" and g: "geometry_ok st" using inv by (auto simp: own_inv_def layout_inv_def)
  have cl: "no \<in> live_inodes bo st" "length (ai_zone_ptr ai) = ZONE_PTR_IN_INODE_NUM"
    using inv ai by (auto simp: own_inv_def cache_inv_def)
  have z0: "ai_zone_ptr ai ! ?q = 0" using zero ai by (simp add: zone_of_def unat_eq_zero)
  from bm lay show ?thesis
  proof (cases rule: new_zone_cases)
    case full
    then show ?thesis using avail by simp
  next
    case (fresh z st1 zone)
    let ?st' = "put_inode no (ai\<lparr>ai_zone_ptr := (ai_zone_ptr ai)[?q := scast zone]\<rparr>) st1"
    note f = frame_zones [OF lay fresh(10) disjI1 [OF refl]]
    note run = get_block_unmapped [OF g ai idx z0 fresh(1), of create]
    have inv': "own_inv bo rb ?st'" using get_block_own_inv [OF bm inv run] .
    have live: "live_inodes bo ?st' = live_inodes bo st" using live_inodes_frame [OF fresh(8) f(2)] by simp
    have ge: "meta_end (AUFS_SB st) \<le> zone_loc rb (AUFS_SB st) z"
      using lay by (intro zone_loc_meta) (auto simp: layout_inv_def maps_ok_def)
    have zo: "zone_of ?st' m j = (if m = no \<and> j = ?q then zone_loc rb (AUFS_SB st) z else zone_of st m j)" for m j
      using zone_of_frame [OF lay fresh(10) disjI1 [OF refl] fresh(11), of m j] ai cl(2) idx fresh(6)
      by (auto simp: zone_of_def [of st no] nth_list_update)
    have "mapped ?st' no (unat ib)" using idx ge by (simp add: mapped_def zo f meta_end_def del: zone_of_put_inode)
    from file_block_word [OF inv' _ this] cl(1) live fresh(6)
    have "unat ib mod bpz st + unat (scast zone :: u64) < 4294967296"
      by (simp add: file_block_def zo f del: zone_of_put_inode)
    then have b: "unat (of_nat (unat ib mod bpz st) + scast zone :: u64) = zone_loc rb (AUFS_SB st) z + unat ib mod bpz st"
      using fresh(6) by (simp add: offset_word)
    have uz: "used_zones bo ?st' = insert z (used_zones bo st)" "{..< z} \<subseteq> used_zones bo st"
      using fresh(5,7) by auto
    have data: "b_data ?st' x = b_data st x" if "x \<notin> set (s_zmap (AUFS_SB st))" for x
      using fresh(10) that by (simp add: map_frame_def)
    have sb: "AUFS_SB ?st' = AUFS_SB st" by (simp add: f)
    show ?thesis by (rule that [OF run b ge fresh(4) uz(2,1) inv' live sb zo data])
  qed
qed

lemma get_block_result:
  assumes bm: "minix_bitmap bo" and inv: "own_inv bo rb st" and ai: "icache st no = Some ai"
    and idx: "unat ib div bpz st < ZONE_PTR_IN_INODE_NUM"
    and avail: "mapped st no (unat ib) \<or> used_zones bo st \<noteq> {..< n_zones st}"
  obtains b st' where "aufs_get_block bo no ib (s_blocksize st) create st = Ret (0, Some b, st')"
    and "unat b = file_block st' no (unat ib)" and "mapped st' no (unat ib)"
    and "own_inv bo rb st'" and "live_inodes bo st' = live_inodes bo st" and "AUFS_SB st' = AUFS_SB st"
    and "\<And>m j. mapped st m j \<Longrightarrow> mapped st' m j \<and> file_block st' m j = file_block st m j"
proof (cases "zone_of st no (unat ib div bpz st) = 0")
  case False
  let ?p = "ai_zone_ptr ai ! (unat ib div bpz st)"
  have g: "geometry_ok st" and live: "no \<in> live_inodes bo st"
    using inv ai by (auto simp: own_inv_def layout_inv_def cache_inv_def)
  have zq: "zone_of st no (unat ib div bpz st) = unat ?p" using ai by (simp add: zone_of_def)
  then have nz: "?p \<noteq> 0" and m: "mapped st no (unat ib)" using False idx by (auto simp: mapped_def)
  have "unat (of_nat (unat ib mod bpz st) + ?p :: u64) = file_block st no (unat ib)"
    using file_block_word [OF inv live m] zq by (subst offset_word) (simp_all add: file_block_def add.commute)
  then show ?thesis using that [OF get_block_mapped [OF g ai idx nz]] m inv by simp
next
  case True
  then have "used_zones bo st \<noteq> {..< n_zones st}" using avail by (simp add: mapped_def)
  then obtain z b st' where
    run: "aufs_get_block bo no ib (s_blocksize st) create st = Ret (0, Some b, st')"
    and b: "unat b = zone_loc rb (AUFS_SB st) z + unat ib mod bpz st" and ge: "meta_end (AUFS_SB st) \<le> zone_loc rb (AUFS_SB st) z"
    and "z \<notin> used_zones bo st" "{..< z} \<subseteq> used_zones bo st" "used_zones bo st' = insert z (used_zones bo st)"
    and inv': "own_inv bo rb st'" and live: "live_inodes bo st' = live_inodes bo st" and sb: "AUFS_SB st' = AUFS_SB st"
    and zo: "\<And>m j. zone_of st' m j = (if m = no \<and> j = unat ib div bpz st then zone_loc rb (AUFS_SB st) z else zone_of st m j)"
    and "\<And>x. x \<notin> set (s_zmap (AUFS_SB st)) \<Longrightarrow> b_data st' x = b_data st x"
    by (rule get_block_fresh [where create = create, OF bm inv ai idx True]) (rule that)
  have m': "mapped st' no (unat ib)" "unat b = file_block st' no (unat ib)"
    using idx ge b by (simp_all add: mapped_def file_block_def zo sb meta_end_def)
  have old: "mapped st' m j \<and> file_block st' m j = file_block st m j" if "mapped st m j" for m j
    using that True by (auto simp: mapped_def file_block_def zo sb)
  show ?thesis by (rule that [OF run m'(2,1) inv' live sb old])
qed

subsection \<open>Steps that can break the invariant\<close>

text \<open>
  The relation \<open>fs_step\<close> leaves out two things the code does: it writes file data only behind the metadata, and it looks up
  only inode numbers in use. Here are all steps of the module: file data goes to whatever block \<^verbatim>\<open>aufs_get_block\<close> returns, and any inode
  number a directory holds may be looked up. Two of these steps are exceptional: a write without a zone when none is free, which goes to
  one of the first blocks of the device, and the lookup of a number that is not in use. Every other step keeps the invariant.
\<close>

inductive module_step :: "bitops \<Rightarrow> fs \<Rightarrow> fs \<Rightarrow> bool" for bo :: bitops where
  mod_fs: "fs_step bo st st' \<Longrightarrow> module_step bo st st'"
| mod_write:
    "aufs_get_block bo no ib (s_blocksize st) create st = Ret (0, Some b, st1) \<Longrightarrow>
     module_step bo st (put_buffer (unat b) d st1)"
| mod_inode_get: "aufs_inode_get k no st = Ret (r, st') \<Longrightarrow> module_step bo st st'"

definition overrun_step :: "bitops \<Rightarrow> fs \<Rightarrow> fs \<Rightarrow> bool" where
  "overrun_step bo st st' \<longleftrightarrow>
     (\<exists>no ib create b st1 d. used_zones bo st = {..< n_zones st} \<and> unat b < bpz st \<and>
        aufs_get_block bo no ib (s_blocksize st) create st = Ret (0, Some b, st1) \<and> st' = put_buffer (unat b) d st1)"

definition stray_lookup :: "bitops \<Rightarrow> fs \<Rightarrow> fs \<Rightarrow> bool" where
  "stray_lookup bo st st' \<longleftrightarrow>
     (\<exists>k no r. unat no \<notin> live_inodes bo st \<and> aufs_inode_get k no st = Ret (r, st'))"

text \<open>Indexes are cut to 32 bits, so a file block is mapped as one of the first nine zones.\<close>

lemma get_block_reduce:
  assumes inv: "own_inv bo rb st" and ai: "icache st no = Some ai"
    and run: "aufs_get_block bo no ib (s_blocksize st) create st = Ret (e, m, st')"
  obtains jb where "aufs_get_block bo no (of_nat jb) (s_blocksize st) create st = Ret (e, m, st')"
    and "unat (of_nat jb :: u64) = jb" and "jb div bpz st < ZONE_PTR_IN_INODE_NUM"
proof -
  have g: "geometry_ok st" and asb: "asb_ok (AUFS_SB st)" using inv by (auto simp: own_inv_def layout_inv_def maps_ok_def)
  then have pos: "0 < bpz st" "bpz st \<le> 1048576" by (auto simp: geometry_ok_def asb_ok_def)
  define idx where "idx = unat ib div bpz st mod 2 ^ 32"
  define jb where "jb = idx * bpz st + unat ib mod bpz st"
  have idx: "idx < ZONE_PTR_IN_INODE_NUM"
    using run [unfolded get_block_norm [OF g ai] Let_def, folded idx_def] by (auto split: if_splits)
  have jd: "jb div bpz st = idx" "jb mod bpz st = unat ib mod bpz st" using pos by (simp_all add: jb_def)
  have "idx * bpz st \<le> 8 * 1048576" using idx pos(2) by (intro mult_le_mono) (simp_all add: ZONE_PTR_IN_INODE_NUM_def)
  moreover have "unat ib mod bpz st < bpz st" using pos(1) by simp
  ultimately have "jb < 18446744073709551616" using pos(2) by (simp add: jb_def)
  then have un: "unat (of_nat jb :: u64) = jb" by (intro unat_of_nat_small) simp
  have "aufs_get_block bo no (of_nat jb) (s_blocksize st) create st = aufs_get_block bo no ib (s_blocksize st) create st"
    unfolding get_block_norm [OF g ai] un jd Let_def idx_def mod_mod_trivial ..
  with run have "aufs_get_block bo no (of_nat jb) (s_blocksize st) create st = Ret (e, m, st')" by (simp only:)
  moreover have "jb div bpz st < ZONE_PTR_IN_INODE_NUM" using idx unfolding jd(1) .
  ultimately show ?thesis using un by (intro that)
qed

lemma write_keeps_or_overruns:
  assumes bm: "minix_bitmap bo" and inv: "own_inv bo rb st"
    and run: "aufs_get_block bo no ib (s_blocksize st) create st = Ret (0, Some b, st1)"
  shows "own_inv bo rb (put_buffer (unat b) d st1) \<or> (used_zones bo st = {..< n_zones st} \<and> unat b < bpz st)"
proof -
  obtain ai where ai: "icache st no = Some ai"
    using run by (cases "icache st no") (auto simp: aufs_get_block_def)
  obtain jb where jb: "aufs_get_block bo no (of_nat jb) (s_blocksize st) create st = Ret (0, Some b, st1)"
    "unat (of_nat jb :: u64) = jb" "jb div bpz st < ZONE_PTR_IN_INODE_NUM"
    by (rule get_block_reduce [OF inv ai run])
  show ?thesis
  proof (cases "mapped st no jb \<or> used_zones bo st \<noteq> {..< n_zones st}")
    case True
    then have avail: "mapped st no (unat (of_nat jb :: u64)) \<or> used_zones bo st \<noteq> {..< n_zones st}" by (simp add: jb(2))
    have idx: "unat (of_nat jb :: u64) div bpz st < ZONE_PTR_IN_INODE_NUM" using jb by simp
    from get_block_result [OF bm inv ai idx avail, of create] jb(1,2)
    have b: "unat b = file_block st1 no jb" "mapped st1 no jb" "own_inv bo rb st1" "live_inodes bo st1 = live_inodes bo st"
      by (metis Inr_inject old.prod.inject option.inject)+
    have "meta_end (AUFS_SB st1) \<le> unat b"
      using file_block_not_meta [OF b(3) _ b(2)] cached_live [OF inv ai] b(1,4) by simp
    then show ?thesis using data_own_inv [OF b(3)] by blast
  next
    case False
    have maps: "maps_ok st" and g: "geometry_ok st" using inv by (auto simp: own_inv_def layout_inv_def)
    then have pos: "0 < bpz st" "bpz st \<le> 1048576" by (auto simp: geometry_ok_def maps_ok_def asb_ok_def)
    have small: "jb div bpz st mod 2 ^ 32 = jb div bpz st" using jb(3) by (simp add: ZONE_PTR_IN_INODE_NUM_def)
    have z: "aufs_new_zone bo st = Ret (0, st)" using minix_bitmap.new_zone_full [OF bm maps] False by simp
    have "ai_zone_ptr ai ! (jb div bpz st) = 0" using False jb(3) ai by (simp add: mapped_def zone_of_def unat_eq_zero)
    then have "b = of_nat (jb mod bpz st)"
      using jb(1,3) z unfolding get_block_norm [OF g ai] jb(2) small Let_def by simp
    moreover have "jb mod bpz st < bpz st" using pos by simp
    ultimately have "unat b < bpz st" using unat_of_nat_small [of "jb mod bpz st", where ?'a = 64] pos(2) by simp
    then show ?thesis using False by simp
  qed
qed

lemma module_step_own_inv:
  assumes "module_step bo st st'" and bm: "minix_bitmap bo" and inv: "own_inv bo rb st"
  shows "own_inv bo rb st' \<or> overrun_step bo st st' \<or> stray_lookup bo st st'"
  using assms
proof (induction rule: module_step.induct)
  case (mod_fs st st')
  then show ?case using step_own_inv by blast
next
  case (mod_write no ib st create b st1 d)
  then show ?case using write_keeps_or_overruns unfolding overrun_step_def by blast
next
  case (mod_inode_get k no st r st')
  show ?case
  proof (cases "unat no \<in> live_inodes bo st")
    case True
    have "aufs_inode_get k (of_nat (unat no)) st = Ret (r, st')" using mod_inode_get(1) by simp
    then show ?thesis using step_own_inv [OF step_inode_get [OF True] bm] mod_inode_get by blast
  qed (use mod_inode_get in \<open>auto simp: stray_lookup_def\<close>)
qed

end
