(* ===== verification/Kern_Namei.thy ===== *)
theory Kern_Namei
  imports Kern_Dir Zone_Ownership
begin

text \<open>
  \<^verbatim>\<open>kern/namei.c\<close>: the name operations, over the directory code and the allocators. A dentry is
  its parent directory and name; what a call attaches to it is part of the result
  (\<open>Some\<close> of the inode after \<^verbatim>\<open>d_instantiate\<close>). Every operation is shown to be a sequence of steps
  of the file system, so it keeps the ownership invariant.
\<close>

subsection \<open>The operations\<close>

definition inode_inc_link_count :: "nat \<Rightarrow> fs \<Rightarrow> fs" where
  "inode_inc_link_count no st =
     (case icache st no of
        None \<Rightarrow> st
      | Some ai \<Rightarrow> put_inode no (ai\<lparr>i_nlink := i_nlink ai + 1, i_dirty := True\<rparr>) st)"

definition inode_dec_link_count :: "nat \<Rightarrow> fs \<Rightarrow> fs" where
  "inode_dec_link_count no st =
     (case icache st no of
        None \<Rightarrow> st
      | Some ai \<Rightarrow> put_inode no (ai\<lparr>i_nlink := i_nlink ai - 1, i_dirty := True\<rparr>) st)"

text \<open>\<^verbatim>\<open>minix_set_inode\<close> on the inode of a number.\<close>

definition set_inode_at :: "nat \<Rightarrow> fs \<Rightarrow> int \<times> fs" where
  "set_inode_at no st =
     (case icache st no of
        None \<Rightarrow> (0, st)
      | Some ai \<Rightarrow> (fst (minix_set_inode ai), put_inode no (snd (minix_set_inode ai)) st))"

definition add_nondir :: "kapi \<Rightarrow> nat \<Rightarrow> bytes \<Rightarrow> u64 \<Rightarrow> fs \<Rightarrow> (int \<times> nat option \<times> fs) cres" where
  "add_nondir k dir name ino st =
     (case minix_add_link k dir name ino st of
        Inl f \<Rightarrow> Fault f
      | Inr (err, st1) \<Rightarrow>
          if err = 0 then Ret (0, Some (unat ino), st1)
          else Ret (err, None, k_iput k (unat ino) (inode_dec_link_count (unat ino) st1)))"

definition mkdir_fail :: "kapi \<Rightarrow> nat \<Rightarrow> nat \<Rightarrow> fs \<Rightarrow> fs" where
  "mkdir_fail k dir ino st =
     inode_dec_link_count dir
       (k_iput k ino (inode_dec_link_count ino (inode_dec_link_count ino st)))"

definition minix_mkdir :: "kapi \<Rightarrow> nat \<Rightarrow> bytes \<Rightarrow> u16 \<Rightarrow> fs \<Rightarrow> (int \<times> nat option \<times> fs) cres" where
  "minix_mkdir k dir name mode st =
     (let st1 = inode_inc_link_count dir st
      in case icache st1 dir of
           None \<Rightarrow> Fault NullDeref
         | Some di \<Rightarrow>
             (case aufs_new_inode k di (S_IFDIR OR mode) st1 of
                (None, err, st2) \<Rightarrow> Ret (err, None, inode_dec_link_count dir st2)
              | (Some ino, _, st2) \<Rightarrow>
                  let st3 = inode_inc_link_count (unat ino) (snd (set_inode_at (unat ino) st2))
                  in case minix_make_empty k (unat ino) dir st3 of
                       Inl f \<Rightarrow> Fault f
                     | Inr (err, st4) \<Rightarrow>
                         if err \<noteq> 0 then Ret (err, None, mkdir_fail k dir (unat ino) st4)
                         else (case minix_add_link k dir name ino st4 of
                                 Inl f \<Rightarrow> Fault f
                               | Inr (err2, st5) \<Rightarrow>
                                   if err2 \<noteq> 0 then Ret (err2, None, mkdir_fail k dir (unat ino) st5)
                                   else Ret (0, Some (unat ino), st5))))"

definition minix_tmpfile :: "kapi \<Rightarrow> nat \<Rightarrow> u16 \<Rightarrow> fs \<Rightarrow> (int \<times> nat option \<times> fs) cres" where
  "minix_tmpfile k dir mode st =
     (case icache st dir of
        None \<Rightarrow> Fault NullDeref
      | Some di \<Rightarrow>
          (case aufs_new_inode k di mode st of
             (None, error, st1) \<Rightarrow> Ret (error, None, st1)
           | (Some ino, error, st1) \<Rightarrow>
               Ret (error, Some (unat ino),
                    k_d_tmpfile k (unat ino)
                      (mark_inode_dirty (unat ino) (snd (set_inode_at (unat ino) st1))))))"

text \<open>
  \<^verbatim>\<open>minix_lookup\<close>: \<open>Inl e\<close> is an error pointer, \<open>Inr None\<close> a negative dentry, \<open>Inr (Some i)\<close> a
  dentry of inode \<open>i\<close>.
\<close>

definition minix_lookup :: "kapi \<Rightarrow> nat \<Rightarrow> bytes \<Rightarrow> fs \<Rightarrow> ((int + nat option) \<times> fs) cres" where
  "minix_lookup k dir name st =
     (if AUFS_NAME_LEN < length name then Ret (Inl (- ENAMETOOLONG), st)
      else
        (case minix_inode_by_name k dir name st of
           Inl f \<Rightarrow> Fault f
         | Inr ino \<Rightarrow>
             if ino = 0 then Ret (Inr None, st)
             else (case aufs_inode_get k ino st of
                     Inl f \<Rightarrow> Fault f
                   | Inr (Inl e, st1) \<Rightarrow> Ret (Inl e, st1)
                   | Inr (Inr i, st1) \<Rightarrow> Ret (Inr (Some i), st1))))"

text \<open>
  \<^verbatim>\<open>minix_mknod\<close> prints \<^verbatim>\<open>inode->i_ino\<close> before it tests the pointer, and returns without releasing
  the inode when its type is not supported.
\<close>

definition minix_mknod ::
    "kapi \<Rightarrow> nat \<Rightarrow> bytes \<Rightarrow> u16 \<Rightarrow> u32 \<Rightarrow> fs \<Rightarrow> (int \<times> nat option \<times> fs) cres" where
  "minix_mknod k dir name mode rdev st =
     (if \<not> k_valid_dev k rdev then Ret (- EINVAL, None, st)
      else
        (case icache st dir of
           None \<Rightarrow> Fault NullDeref
         | Some di \<Rightarrow>
             (case aufs_new_inode k di mode st of
                (None, error, st1) \<Rightarrow> Fault NullDeref
              | (Some ino, error, st1) \<Rightarrow>
                  (case set_inode_at (unat ino) st1 of
                     (ret, st2) \<Rightarrow>
                       if ret \<noteq> 0 then Ret (ret, None, st2)
                       else add_nondir k dir name ino (mark_inode_dirty (unat ino) st2)))))"

definition minix_create :: "kapi \<Rightarrow> nat \<Rightarrow> bytes \<Rightarrow> u16 \<Rightarrow> fs \<Rightarrow> (int \<times> nat option \<times> fs) cres" where
  "minix_create k dir name mode st = minix_mknod k dir name mode 0 st"

subsection \<open>Every operation is a sequence of steps\<close>

text \<open>What the module relies on of the kernel's inode functions.\<close>

locale name_effects = block_layer +
  assumes iput_drops: "k_iput k no st = st \<or> k_iput k no st = evict_inode no st"
    and d_tmpfile_links:
      "k_d_tmpfile k no st = st \<or> (\<exists>ai nl. icache st no = Some ai \<and>
         k_d_tmpfile k no st = put_inode no (ai\<lparr>i_nlink := nl, i_dirty := True\<rparr>) st)"

text \<open>The same with directory pages that can be read.\<close>

locale name_kernel = dir_kernel + name_effects

text \<open>A change of fields other than the zone pointers and the number, of one cached inode.\<close>

lemma touch_steps:
  assumes "icache st no = Some ai" and "ai_zone_ptr ai' = ai_zone_ptr ai" and "i_ino ai' = i_ino ai"
  shows "(fs_step bo)\<^sup>*\<^sup>* st (put_inode no ai' st)"
  using assms by (intro r_into_rtranclp step_touch)

lemma link_count_steps:
  "(fs_step bo)\<^sup>*\<^sup>* st (inode_inc_link_count no st)" "(fs_step bo)\<^sup>*\<^sup>* st (inode_dec_link_count no st)"
  "(fs_step bo)\<^sup>*\<^sup>* st (mark_inode_dirty no st)" "(fs_step bo)\<^sup>*\<^sup>* st (snd (set_inode_at no st))"
  by (auto simp: inode_inc_link_count_def inode_dec_link_count_def mark_inode_dirty_def
      set_inode_at_def minix_set_inode_def split: option.split intro!: touch_steps)

lemma put_page_step: "fs_step bo st (put_page no n d st)"
  unfolding put_page_def by (rule step_pages)

lemma put_page_steps: "(fs_step bo)\<^sup>*\<^sup>* (put_page no n d st) st' \<Longrightarrow> (fs_step bo)\<^sup>*\<^sup>* st st'"
  by (rule converse_rtranclp_into_rtranclp [where r = "fs_step bo"]) (rule put_page_step)

lemma commit_steps:
  assumes "dir_commit_chunk k dir n pos len st = Ret (e, st')"
  shows "(fs_step bo)\<^sup>*\<^sup>* st st'"
  using assms
  by (auto simp: dir_commit_chunk_def Let_def split: option.splits if_splits intro!: touch_steps)

context block_layer
begin

lemma prepare_steps:
  assumes "minix_prepare_chunk k no pos len st = Ret (e, st')"
  shows "(fs_step (k_bits k))\<^sup>*\<^sup>* st st'"
  using assms unfolding minix_prepare_chunk_def by (intro block_ios_steps write_begin_io)

lemma add_link_at_steps:
  assumes "add_link_at k dir name ino n p st = Ret (e, st')"
  shows "(fs_step (k_bits k))\<^sup>*\<^sup>* st st'"
proof -
  obtain e1 st1 where prep: "minix_prepare_chunk k dir (n * PAGE_SIZE + p) AUFS_DIR_SIZE st = Ret (e1, st1)"
    using assms by (auto simp: add_link_at_def Let_def split: sum.splits)
  note a = prepare_steps [OF prep]
  show ?thesis
  proof (cases "e1 = 0")
    case False
    then show ?thesis using a assms prep by (simp add: add_link_at_def Let_def)
  next
    case True
    with assms prep obtain pg e2 st2 ai2 where
      c: "dir_commit_chunk k dir n (n * PAGE_SIZE + p) AUFS_DIR_SIZE (put_page dir n pg st1) = Ret (e2, st2)"
      and ai2: "icache st2 dir = Some ai2"
      and st': "st' = put_inode dir (ai2\<lparr>i_mtime := k_time k, i_ctime := k_time k, i_dirty := True\<rparr>) st2"
      by (auto simp: add_link_at_def Let_def split: sum.splits if_splits option.splits)
    have "(fs_step (k_bits k))\<^sup>*\<^sup>* st1 (put_page dir n pg st1)" by (intro r_into_rtranclp put_page_step)
    moreover have "(fs_step (k_bits k))\<^sup>*\<^sup>* (put_page dir n pg st1) st2" using c by (rule commit_steps)
    moreover have "(fs_step (k_bits k))\<^sup>*\<^sup>* st2 st'"
      unfolding st' by (rule touch_steps [OF ai2]) simp_all
    ultimately show ?thesis using a by (meson rtranclp_trans)
  qed
qed

lemma add_link_steps:
  assumes "minix_add_link k dir name ino st = Ret (e, st')"
  shows "(fs_step (k_bits k))\<^sup>*\<^sup>* st st'"
proof -
  have cleared: "(fs_step (k_bits k))\<^sup>*\<^sup>* st st'"
    if "add_link_at k dir name ino n p (put_page dir n d st) = Ret (e, st')" for n p d
    using put_page_steps [OF add_link_at_steps [OF that]] .
  show ?thesis
    using assms add_link_at_steps cleared
    by (auto simp: minix_add_link_def split: option.splits sum.splits prod.splits slot.splits)
qed

lemma make_empty_steps:
  assumes "minix_make_empty k inode dir st = Ret (e, st')"
  shows "(fs_step (k_bits k))\<^sup>*\<^sup>* st st'"
proof (cases "st' = st")
  case False
  obtain e1 st1 where prep: "minix_prepare_chunk k inode 0 (2 * AUFS_DIR_SIZE) st = Ret (e1, st1)"
    using assms False by (auto simp: minix_make_empty_def split: option.splits sum.splits if_splits)
  note a = prepare_steps [OF prep]
  show ?thesis
  proof (cases "e1 = 0")
    case False
    then show ?thesis
      using a assms prep \<open>st' \<noteq> st\<close> by (auto simp: minix_make_empty_def split: option.splits if_splits)
  next
    case True
    with assms prep \<open>st' \<noteq> st\<close> obtain pg where
      "dir_commit_chunk k inode 0 0 (2 * AUFS_DIR_SIZE) (put_page inode 0 pg st1) = Ret (e, st')"
      by (auto simp: minix_make_empty_def Let_def split: option.splits if_splits)
    from put_page_steps [OF commit_steps [OF this]] have "(fs_step (k_bits k))\<^sup>*\<^sup>* st1 st'" .
    with a show ?thesis by (rule rtranclp_trans)
  qed
qed simp

end

lemma new_inode_steps:
  "aufs_new_inode k dir mode st = (r, e, st') \<Longrightarrow> (fs_step (k_bits k))\<^sup>*\<^sup>* st st'"
  by (rule r_into_rtranclp) (rule step_new_inode [OF refl])

lemmas steps_trans = rtranclp_trans [where r = "fs_step bo" for bo]

context name_effects
begin

lemma iput_steps: "(fs_step bo)\<^sup>*\<^sup>* st (k_iput k no st)"
  using iput_drops [of no st] step_evict [of bo st no] by auto

lemma d_tmpfile_steps: "(fs_step bo)\<^sup>*\<^sup>* st (k_d_tmpfile k no st)"
  using d_tmpfile_links [of no st] by (auto intro!: touch_steps)

lemma mkdir_fail_steps: "(fs_step bo)\<^sup>*\<^sup>* st (mkdir_fail k dir ino st)"
  unfolding mkdir_fail_def
  by (rule steps_trans [OF steps_trans [OF steps_trans [OF link_count_steps(2) link_count_steps(2)] iput_steps]
        link_count_steps(2)])

lemma add_nondir_steps:
  assumes "add_nondir k dir name ino st = Ret (e, r, st')"
  shows "(fs_step (k_bits k))\<^sup>*\<^sup>* st st'"
proof -
  obtain e1 st1 where a: "minix_add_link k dir name ino st = Ret (e1, st1)"
    using assms by (auto simp: add_nondir_def split: sum.splits)
  have "(fs_step (k_bits k))\<^sup>*\<^sup>* st1 (k_iput k (unat ino) (inode_dec_link_count (unat ino) st1))"
    by (rule steps_trans [OF link_count_steps(2) iput_steps])
  then have "(fs_step (k_bits k))\<^sup>*\<^sup>* st1 st'"
    using assms a by (auto simp: add_nondir_def split: if_splits)
  with add_link_steps [OF a] show ?thesis by (rule steps_trans)
qed

lemma mknod_steps:
  assumes "minix_mknod k dir name mode rdev st = Ret (e, r, st')"
  shows "(fs_step (k_bits k))\<^sup>*\<^sup>* st st'"
proof (cases "k_valid_dev k rdev")
  case True
  then obtain di ino error st1 where n: "aufs_new_inode k di mode st = (Some ino, error, st1)"
    and di: "icache st dir = Some di"
    using assms by (auto simp: minix_mknod_def split: option.splits prod.splits)
  let ?st2 = "snd (set_inode_at (unat ino) st1)"
  have a: "(fs_step (k_bits k))\<^sup>*\<^sup>* st ?st2"
    using new_inode_steps [OF n] link_count_steps(4) by (rule steps_trans)
  have "st' = ?st2 \<or> add_nondir k dir name ino (mark_inode_dirty (unat ino) ?st2) = Ret (e, r, st')"
    using assms n di True by (auto simp: minix_mknod_def split: prod.splits if_splits)
  then have "(fs_step (k_bits k))\<^sup>*\<^sup>* ?st2 st'"
    using steps_trans [OF link_count_steps(3) add_nondir_steps] by auto
  with a show ?thesis by (rule steps_trans)
qed (use assms in \<open>simp add: minix_mknod_def\<close>)

lemma tmpfile_steps:
  assumes "minix_tmpfile k dir mode st = Ret (e, r, st')"
  shows "(fs_step (k_bits k))\<^sup>*\<^sup>* st st'"
proof -
  obtain di ino error st1 where n: "aufs_new_inode k di mode st = (ino, error, st1)"
    and di: "icache st dir = Some di"
    using assms by (auto simp: minix_tmpfile_def split: option.splits prod.splits)
  have b: "(fs_step (k_bits k))\<^sup>*\<^sup>* st1 (k_d_tmpfile k no (mark_inode_dirty no (snd (set_inode_at no st1))))" for no
    by (rule steps_trans [OF link_count_steps(4) steps_trans [OF link_count_steps(3) d_tmpfile_steps]])
  have "(fs_step (k_bits k))\<^sup>*\<^sup>* st1 st'"
    using assms n di b by (auto simp: minix_tmpfile_def split: option.splits)
  with new_inode_steps [OF n] show ?thesis by (rule steps_trans)
qed

lemma mkdir_tail_steps:
  assumes "(case minix_add_link k dir name ino st of
       Inl f \<Rightarrow> Fault f
     | Inr (err2, st5) \<Rightarrow>
         if err2 \<noteq> 0 then Ret (err2, None, mkdir_fail k dir (unat ino) st5)
         else Ret (0, Some (unat ino), st5)) = Ret (e, r, st')"
  shows "(fs_step (k_bits k))\<^sup>*\<^sup>* st st'"
proof -
  obtain e1 st1 where a: "minix_add_link k dir name ino st = Ret (e1, st1)"
    using assms by (auto split: sum.splits)
  have "(fs_step (k_bits k))\<^sup>*\<^sup>* st1 st'"
    using assms a mkdir_fail_steps by (auto split: if_splits)
  with add_link_steps [OF a] show ?thesis by (rule steps_trans)
qed

lemma mkdir_steps:
  assumes "minix_mkdir k dir name mode st = Ret (e, r, st')"
  shows "(fs_step (k_bits k))\<^sup>*\<^sup>* st st'"
proof -
  let ?st1 = "inode_inc_link_count dir st"
  obtain di where di: "icache ?st1 dir = Some di"
    using assms by (auto simp: minix_mkdir_def Let_def split: option.splits)
  obtain ino error st2 where n: "aufs_new_inode k di (S_IFDIR OR mode) ?st1 = (ino, error, st2)"
    by (metis prod_cases3)
  have a: "(fs_step (k_bits k))\<^sup>*\<^sup>* st st2"
    using link_count_steps(1) new_inode_steps [OF n] by (rule steps_trans)
  show ?thesis
  proof (cases ino)
    case None
    then have "st' = inode_dec_link_count dir st2" using assms di n by (simp add: minix_mkdir_def Let_def)
    then show ?thesis using steps_trans [OF a link_count_steps(2)] by simp
  next
    case (Some j)
    let ?st3 = "inode_inc_link_count (unat j) (snd (set_inode_at (unat j) st2))"
    have b: "(fs_step (k_bits k))\<^sup>*\<^sup>* st2 ?st3" by (rule steps_trans [OF link_count_steps(4,1)])
    obtain e4 st4 where m: "minix_make_empty k (unat j) dir ?st3 = Ret (e4, st4)"
      using assms di n Some by (auto simp: minix_mkdir_def Let_def split: sum.splits)
    have "(fs_step (k_bits k))\<^sup>*\<^sup>* st4 st'"
    proof (cases "e4 = 0")
      case True
      show ?thesis
        by (rule mkdir_tail_steps) (use assms di n Some m True in \<open>simp add: minix_mkdir_def Let_def\<close>)
    next
      case False
      then show ?thesis
        using assms di n Some m mkdir_fail_steps by (auto simp: minix_mkdir_def Let_def)
    qed
    with make_empty_steps [OF m] a b show ?thesis by (blast intro: steps_trans)
  qed
qed

lemma lookup_step:
  assumes "minix_lookup k dir name st = Ret (r, st')"
  shows "st' = st \<or> module_step bo st st'"
proof (cases "st' = st")
  case False
  then obtain ino r1 where "aufs_inode_get k ino st = Ret (r1, st')"
    using assms by (auto simp: minix_lookup_def split: sum.splits if_splits)
  then show ?thesis using mod_inode_get by blast
qed simp

end

interpretation ref_effects: name_effects ref_kernel
proof (unfold_locales, goal_cases)
  case (1 no st)
  then show ?case by (auto simp: ref_kernel_def split: option.split)
next
  case (2 no st)
  then show ?case by (auto simp: ref_kernel_def split: option.split)
qed

interpretation ref_names: name_kernel ref_kernel
  by unfold_locales

end
