(* ===== verification/Kern_Block_Props.thy ===== *)
theory Kern_Block_Props
  imports Zone_Ownership
begin

text \<open>
  The properties of the block layer of the module: bitmap routines, allocators, block
  mapping, inode records and zone ownership. The first part builds a small mounted file
  system (blocks of four bytes, 64 blocks per zone, one root directory) on which the
  hypotheses of the properties are shown to hold.
\<close>

subsection \<open>An example file system\<close>

definition demo_sb :: aufs_super_block where
  "demo_sb =
     \<lparr>asb_magic = AUFS_MAGIC, asb_inode_blocks = 1, asb_zone_size = 256, asb_root_inode = 1,
      asb_inodes_in_block = 64, asb_inode_map_blocks = 1, asb_zone_map_blocks = 1,
      asb_blocks_per_zone = 64, asb_alignment_num_blocks = 4, s_zmap = [1], s_imap = [2], s_sbh = 0\<rparr>"

definition demo_record :: bytes where
  "demo_record = be32_enc 4 @ replicate 60 0"

definition demo_fs :: fs where
  "demo_fs =
     \<lparr>s_blocksize = 4, s_fs_info = demo_sb,
      b_data = (\<lambda>n. if n = 1 \<or> n = 2 then [3, 0, 0, 0]
                    else if n = 3 then replicate 64 0 @ demo_record @ replicate 3968 0 else []),
      b_dirty = (\<lambda>_. False), icache = Map.empty, pages = (\<lambda>_ _. [])\<rparr>"

lemma demo_used: "used_zones le_bitops demo_fs = {0, 1}" "used_inodes le_bitops demo_fs = {0, 1}"
proof -
  have "le_test_bit [3, 0, 0, 0] z \<longleftrightarrow> z = 0 \<or> z = 1" if "z < 32" for z
  proof -
    have "z \<in> set [0..<32]" using that by simp
    then show ?thesis by (auto simp: upt_rec le_test_bit_def bit_numeral_rec)
  qed
  then show "used_zones le_bitops demo_fs = {0, 1}" "used_inodes le_bitops demo_fs = {0, 1}"
    by (auto simp: used_zones_def used_inodes_def area_used_def AUFS_SB_def demo_fs_def demo_sb_def
        zone_bits_def le_bitops_def)
qed

lemma demo_live: "live_inodes le_bitops demo_fs = {1}"
  unfolding live_inodes_def demo_used
  by (auto simp: inode_cap_def AUFS_SB_def demo_fs_def demo_sb_def)

lemma demo_map_ok: "map_ok [a, b, c, d]"
proof -
  have "length [a, b, c, d] = 4" by simp
  then show ?thesis by (simp only: map_ok_def) simp
qed

lemma demo_layout: "layout_inv le_bitops 4 demo_fs"
proof -
  have "maps_ok demo_fs" "geometry_ok demo_fs" "placement_ok 4 (AUFS_SB demo_fs) (n_zones demo_fs)"
    by (simp_all add: maps_ok_def asb_ok_def area_ok_def demo_map_ok geometry_ok_def placement_ok_def
        n_zones_def zone_bits_def zone_start_def data_start_def meta_end_def align_up_def AUFS_SB_def demo_fs_def demo_sb_def)
  then show ?thesis
    unfolding layout_inv_def demo_used
    by (simp add: n_inodes_def zone_bits_def inode_cap_def AUFS_SB_def demo_fs_def demo_sb_def)
qed

lemma demo_zone: "zone_of demo_fs 1 i = (if i = 0 then 4 else 0)" if "i < 9"
proof -
  have "i \<in> set [0..<9]" using that by simp
  then show ?thesis 
  by (auto simp: upt_rec zone_of_def disk_zone_def be32_at_def demo_fs_def demo_sb_def demo_record_def AUFS_SB_def
     inode_blk_def inode_off_def be32_enc_def nth_append word32_of_bytes_def)
qed
lemma demo_blank: "blank_inv le_bitops demo_fs"
  unfolding blank_inv_def demo_used
proof (intro allI impI)
  fix no i
  assume a: "0 < no" "no < inode_cap (AUFS_SB demo_fs)" "no \<notin> {0, 1}" "i < ZONE_PTR_IN_INODE_NUM"
  then have no: "2 \<le> no" "no < 64" "i < 9"
    by (auto simp: inode_cap_def AUFS_SB_def demo_fs_def demo_sb_def ZONE_PTR_IN_INODE_NUM_def)
  let ?d = "replicate 64 0 @ demo_record @ replicate 3968 (0 :: u8)"
  have "?d ! m = 0" if "128 \<le> m" "m < 4096" for m
    using that by (auto simp: demo_record_def nth_append)
  then have "be32_at ?d (64 * no + 4 * i) = 0"
    using no by (simp add: be32_at_def word32_of_bytes_def)
  then show "disk_zone demo_fs no i = 0"
    using no by (simp add: disk_zone_def inode_blk_def inode_off_def AUFS_SB_def demo_fs_def demo_sb_def)
qed

lemma demo_own: "own_inv le_bitops 4 demo_fs"
  using demo_layout demo_zone demo_live demo_used demo_blank
  by (auto simp: own_inv_def cache_inv_def owner_inv_def ZONE_PTR_IN_INODE_NUM_def zone_loc_def demo_fs_def)

definition demo_inode :: aufs_inode where
  "demo_inode =
     \<lparr>ai_zone_ptr = 4 # replicate 8 0, i_ino = 1, i_mode = 0x41ED, i_size = 128, i_blocks = 0, i_uid = 0,
      i_gid = 0, i_nlink = 2, i_ctime = 0, i_mtime = 0, i_atime = 0, i_op = aufs_dir_inode_ops,
      i_fop = aufs_dir_ops, a_ops = aufs_aops, i_dirty = False\<rparr>"

text \<open>The same file system with its root inode in the cache, and with every zone in use.\<close>

definition demo_open :: fs where
  "demo_open = put_inode 1 demo_inode demo_fs"

definition demo_full :: fs where
  "demo_full = put_buffer 1 [255, 255, 255, 255] demo_open"

lemma demo_open_own: "own_inv le_bitops 4 demo_open"
  unfolding demo_open_def
proof (rule load_own_inv [OF demo_own])
  fix i assume i: "i < ZONE_PTR_IN_INODE_NUM"
  then have "i \<in> set [0..<9]" by (simp add: ZONE_PTR_IN_INODE_NUM_def)
  then have "unat (ai_zone_ptr demo_inode ! i) = (if i = 0 then 4 else 0)"
    by (auto simp: upt_rec demo_inode_def)
  moreover have "disk_zone demo_fs 1 i = zone_of demo_fs 1 i" by (simp add: zone_of_def demo_fs_def)
  ultimately show "unat (ai_zone_ptr demo_inode ! i) = disk_zone demo_fs 1 i"
    using demo_zone [of i] i by (simp add: ZONE_PTR_IN_INODE_NUM_def)
next
  show "1 \<in> live_inodes le_bitops demo_fs" by (simp add: demo_live)
qed (simp_all add: demo_fs_def demo_inode_def ZONE_PTR_IN_INODE_NUM_def)

lemma demo_open_facts:
  "s_blocksize demo_open = 4" "mapped demo_open (Suc 0) 0" "file_block demo_open (Suc 0) 0 = 4"
  "asb_blocks_per_zone (AUFS_SB demo_open) = 64" "live_inodes le_bitops demo_open = {Suc 0}"
  "used_zones le_bitops demo_open \<noteq> {..<n_zones demo_open}"
  "icache demo_open (Suc 0) = Some demo_inode" "meta_end (AUFS_SB demo_open) = 4"
proof -
  show "live_inodes le_bitops demo_open = {Suc 0}" by (simp add: demo_open_def demo_live)
  have "31 \<notin> used_zones le_bitops demo_open" "31 < n_zones demo_open"
    by (simp_all add: demo_open_def demo_used)
      (simp add: n_zones_def zone_bits_def AUFS_SB_def demo_fs_def demo_sb_def)
  then show "used_zones le_bitops demo_open \<noteq> {..<n_zones demo_open}" by auto
qed (simp_all add: mapped_def file_block_def zone_of_def ZONE_PTR_IN_INODE_NUM_def demo_open_def
      AUFS_SB_def demo_fs_def demo_sb_def demo_inode_def meta_end_def)

lemma demo_least: "z \<notin> {0, 1} \<Longrightarrow> {..< z} \<subseteq> {0, 1} \<Longrightarrow> z = (2 :: nat)"
proof (rule ccontr)
  assume "z \<notin> {0, 1}" and sub: "{..< z} \<subseteq> {0, 1}" and "z \<noteq> 2"
  then have "2 \<in> {..< z}" by auto
  with sub show False by auto
qed

lemma demo_get_block:
  "\<exists>st' ai. aufs_get_block le_bitops 1 64 4 True demo_open = Ret (0, Some 196, st') \<and>
            icache st' 1 = Some ai \<and> \<not> i_dirty ai"
proof -
  have "map_sum id (\<lambda>(e, b, st'). (e, b, map_option i_dirty (icache st' 1)))
      (aufs_get_block le_bitops 1 64 4 True demo_open) = Ret (0, Some 196, Some False)"
    by code_simp
  then show ?thesis by (cases "aufs_get_block le_bitops 1 64 4 True demo_open") auto
qed

lemma demo_full_facts:
  "maps_ok demo_full" "geometry_ok demo_full" "used_zones le_bitops demo_full = {..<n_zones demo_full}"
  "icache demo_full (Suc 0) = Some demo_inode" "asb_blocks_per_zone (AUFS_SB demo_full) = 64"
  "s_blocksize demo_full = 4"
proof -
  have "le_test_bit [255, 255, 255, 255] z" if "z < 32" for z
  proof -
    have "z \<in> set [0..<32]" using that by simp
    then show ?thesis by (auto simp: upt_rec le_test_bit_def bit_numeral_rec)
  qed
  then show "used_zones le_bitops demo_full = {..<n_zones demo_full}"
    by (auto simp: used_zones_def area_used_def n_zones_def AUFS_SB_def demo_full_def demo_open_def
        demo_fs_def demo_sb_def zone_bits_def le_bitops_def)
qed (simp_all add: maps_ok_def geometry_ok_def asb_ok_def area_ok_def demo_map_ok zone_bits_def
      demo_full_def demo_open_def AUFS_SB_def demo_fs_def demo_sb_def)

subsection \<open>Properties\<close>

text \<open>
  C1: in a state reached from one that satisfies the ownership invariant by steps of \<open>fs_step\<close> (data is written behind
  the metadata, inode numbers that are looked up are in use), take a file block inside the nine zones of an inode that already has
  a zone, or any such block while a zone is free. The block \<^verbatim>\<open>aufs_get_block\<close> maps it to lies behind the metadata and is different
  from the block of every other mapped file block of any file. Without a free zone this fails.
\<close>

theorem get_block_exclusive:
  assumes "(fs_step bo)\<^sup>*\<^sup>* st0 st" and bm: "minix_bitmap bo" and "own_inv bo rb st0"
    and run: "aufs_get_block bo no ib (s_blocksize st) create st = Ret (0, Some b, st')"
    and avail: "mapped st no (unat ib) \<or> used_zones bo st \<noteq> {..< n_zones st}"
    and idx: "unat ib div bpz st < ZONE_PTR_IN_INODE_NUM"
  shows "meta_end (AUFS_SB st) \<le> unat b \<and>
    (\<forall>no' ib'. no' \<in> live_inodes bo st \<and> mapped st no' ib' \<and> (no', ib') \<noteq> (no, unat ib) \<longrightarrow>
       unat b \<noteq> file_block st no' ib')"
proof -
  have inv: "own_inv bo rb st" using reachable_own_inv assms(1-3) by blast
  obtain ai where ai: "icache st no = Some ai"
    using run by (cases "icache st no") (auto simp: aufs_get_block_def)
  note live = cached_live [OF inv ai]
  obtain b' st1 where r: "aufs_get_block bo no ib (s_blocksize st) create st = Ret (0, Some b', st1)"
    "unat b' = file_block st1 no (unat ib)" "mapped st1 no (unat ib)" "own_inv bo rb st1"
    "live_inodes bo st1 = live_inodes bo st" "AUFS_SB st1 = AUFS_SB st"
    and old: "\<And>m j. mapped st m j \<Longrightarrow> mapped st1 m j \<and> file_block st1 m j = file_block st m j"
    by (rule get_block_result [OF bm inv ai idx avail, of create]) blast
  have b: "unat b = file_block st1 no (unat ib)" using r(1,2) run by simp
  have "unat b \<noteq> file_block st no' ib'"
    if "no' \<in> live_inodes bo st" "mapped st no' ib'" "(no', ib') \<noteq> (no, unat ib)" for no' ib'
    using file_blocks_disjoint [OF r(4) _ _ r(3), of no' ib'] live that r(5) b old [OF that(2)] by auto
  moreover have "meta_end (AUFS_SB st) \<le> unat b"
    using file_block_not_meta [OF r(4) _ r(3)] live r(5,6) b by simp
  ultimately show ?thesis by blast
qed

theorem get_block_exclusive_witness:
  "196 \<noteq> file_block demo_open 1 0 \<and> meta_end (AUFS_SB demo_open) \<le> 196"
proof -
  obtain st' where run:
    "aufs_get_block le_bitops 1 64 (s_blocksize demo_open) True demo_open = Ret (0, Some 196, st')"
    using demo_get_block by (auto simp: demo_open_facts)
  from get_block_exclusive [OF rtranclp.rtrancl_refl le_map.minix_bitmap_axioms demo_open_own run]
  show ?thesis by (auto simp: demo_open_facts ZONE_PTR_IN_INODE_NUM_def)
qed



text \<open>
  C5: \<^verbatim>\<open>aufs_new_zone\<close> returns 0 and changes nothing exactly when every zone is used; otherwise
  it takes the least unused zone, marks that one only, returns its first block and leaves the
  inode bitmap and every other buffer alone.
\<close>

theorem aufs_new_zone_first_free:
  assumes "minix_bitmap bo" and "maps_ok st"
  shows "(used_zones bo st = {..< n_zones st} \<and> aufs_new_zone bo st = Ret (0, st)) \<or>
    (\<exists>z st'. z < n_zones st \<and> z \<notin> used_zones bo st \<and> {..< z} \<subseteq> used_zones bo st \<and>
       aufs_new_zone bo st = Ret (of_nat (zone_start (AUFS_SB st) z), st') \<and>
       used_zones bo st' = insert z (used_zones bo st) \<and> used_inodes bo st' = used_inodes bo st \<and>
       maps_ok st' \<and> map_frame (s_zmap (AUFS_SB st)) st st')"
proof (cases "used_zones bo st = {..< n_zones st}")
  case True
  then show ?thesis using minix_bitmap.new_zone_full [OF assms] by simp
next
  case False
  obtain z st' where a: "aufs_new_zone bo st = Ret (ucast (zone_block (AUFS_SB st) (of_nat z)), st')"
    and r: "z < n_zones st" "z \<notin> used_zones bo st" "\<forall>m < z. m \<in> used_zones bo st"
      "used_zones bo st' = insert z (used_zones bo st)" "used_inodes bo st' = used_inodes bo st"
      "maps_ok st'" "map_frame (s_zmap (AUFS_SB st)) st st'"
    using minix_bitmap.new_zone_free [OF assms False] by metis
  have "z < 2147483648" "asb_ok (AUFS_SB st)"
    using r(1) assms(2) by (auto simp: maps_ok_def area_ok_def n_zones_def)
  then have "(ucast (zone_block (AUFS_SB st) (of_nat z)) :: u32) = of_nat (zone_start (AUFS_SB st) z)"
    using unat_zone_block by (metis of_nat_unat)
  then show ?thesis using a r by auto
qed

theorem aufs_new_zone_first_free_witness:
  "\<exists>st'. aufs_new_zone le_bitops demo_fs = Ret (196, st') \<and> used_zones le_bitops st' = {0, 1, 2}"
proof -
  have maps: "maps_ok demo_fs" using demo_layout by (simp only: layout_inv_def)
  have "31 < n_zones demo_fs" by (simp add: n_zones_def zone_bits_def AUFS_SB_def demo_fs_def demo_sb_def)
  moreover have "31 \<notin> used_zones le_bitops demo_fs" by (simp add: demo_used)
  ultimately have "used_zones le_bitops demo_fs \<noteq> {..< n_zones demo_fs}" by blast
  then show ?thesis
    using aufs_new_zone_first_free [OF le_map.minix_bitmap_axioms maps]
  proof (elim disjE exE conjE)
    fix z st'
    assume z: "z \<notin> used_zones le_bitops demo_fs" "{..< z} \<subseteq> used_zones le_bitops demo_fs"
      and r: "aufs_new_zone le_bitops demo_fs = Ret (of_nat (zone_start (AUFS_SB demo_fs) z), st')"
        "used_zones le_bitops st' = insert z (used_zones le_bitops demo_fs)"
    have "z = 2" using z unfolding demo_used by (rule demo_least)
    moreover have "zone_start (AUFS_SB demo_fs) 2 = 196"
      by (simp add: zone_start_def data_start_def align_up_def AUFS_SB_def demo_fs_def demo_sb_def)
    ultimately show ?thesis using r unfolding demo_used by auto
  qed simp
qed

text \<open>
  C6: with inode 0 reserved and memory for the inode, \<^verbatim>\<open>aufs_new_inode\<close> fails with \<^verbatim>\<open>ENOSPC\<close> and no change exactly when
  every inode number is used; otherwise it takes the least unused number, marks that one only,
  and enters into the cache a dirty inode of that number with no zones and the current times.
\<close>

theorem aufs_new_inode_first_free:
  assumes "minix_bitmap (k_bits k)" and "maps_ok st" and "k_new_inode k = Some ino0"
    and "0 \<in> used_inodes (k_bits k) st"
  shows "(used_inodes (k_bits k) st = {..< n_inodes st} \<and>
      aufs_new_inode k dir mode st = (None, - ENOSPC, st)) \<or>
    (\<exists>z ai st'. 0 < z \<and> z < n_inodes st \<and> z \<notin> used_inodes (k_bits k) st \<and>
       {..< z} \<subseteq> used_inodes (k_bits k) st \<and>
       aufs_new_inode k dir mode st = (Some (of_nat z), 0, put_inode z ai st') \<and>
       i_ino ai = of_nat z \<and> i_dirty ai \<and> i_blocks ai = 0 \<and>
       ai_zone_ptr ai = replicate ZONE_PTR_IN_INODE_NUM 0 \<and>
       i_ctime ai = k_time k \<and> i_mtime ai = k_time k \<and> i_atime ai = k_time k \<and>
       used_inodes (k_bits k) st' = insert z (used_inodes (k_bits k) st) \<and>
       used_zones (k_bits k) st' = used_zones (k_bits k) st \<and> icache st' = icache st \<and>
       maps_ok st' \<and> map_frame (s_imap (AUFS_SB st)) st st')"
proof (cases "used_inodes (k_bits k) st = {..< n_inodes st}")
  case True
  then show ?thesis using minix_bitmap.new_inode_full [OF assms(1,2) refl assms(3)] by simp
next
  case False
  obtain z st' where "aufs_new_inode k dir mode st =
        (Some (of_nat z), 0, put_inode z (init_new_inode k ino0 dir mode (of_nat z)) st')"
      "0 < z" "z < n_inodes st" "z \<notin> used_inodes (k_bits k) st" "\<forall>m < z. m \<in> used_inodes (k_bits k) st"
      "used_inodes (k_bits k) st' = insert z (used_inodes (k_bits k) st)"
      "used_zones (k_bits k) st' = used_zones (k_bits k) st" "maps_ok st'"
      "map_frame (s_imap (AUFS_SB st)) st st'" "icache st' = icache st"
    using minix_bitmap.new_inode_free [OF assms(1,2) refl assms(3,4) False, of dir mode] by metis
  then show ?thesis by (intro disjI2 exI conjI) (assumption | force simp: init_new_inode_def)+
qed

theorem aufs_new_inode_first_free_witness:
  "\<exists>st'. aufs_new_inode ref_kernel demo_inode 0x81A4 demo_open = (Some 2, 0, st') \<and>
         used_inodes le_bitops st' = {0, 1, 2}"
proof -
  have bits: "k_bits ref_kernel = le_bitops" "k_new_inode ref_kernel = Some blank_inode"
    by (simp_all add: ref_kernel_def)
  have maps: "maps_ok demo_open" using demo_open_own by (simp only: own_inv_def layout_inv_def)
  have used: "used_inodes le_bitops demo_open = {0, 1}" by (simp add: demo_open_def demo_used)
  have "31 < n_inodes demo_open"
    by (simp add: n_inodes_def zone_bits_def AUFS_SB_def demo_open_def demo_fs_def demo_sb_def)
  moreover have "31 \<notin> used_inodes le_bitops demo_open" by (simp add: used)
  ultimately have "used_inodes le_bitops demo_open \<noteq> {..< n_inodes demo_open}" by blast
  moreover have zero: "0 \<in> used_inodes le_bitops demo_open" by (simp add: used)
  ultimately show ?thesis
    using aufs_new_inode_first_free [of ref_kernel demo_open blank_inode demo_inode "0x81A4",
        unfolded bits, OF le_map.minix_bitmap_axioms maps refl zero]
  proof (elim disjE exE conjE)
    fix z ai st'
    assume z: "z \<notin> used_inodes le_bitops demo_open" "{..< z} \<subseteq> used_inodes le_bitops demo_open"
      and r: "aufs_new_inode ref_kernel demo_inode 0x81A4 demo_open =
          (Some (of_nat z), 0, put_inode z ai st')"
        "used_inodes le_bitops st' = insert z (used_inodes le_bitops demo_open)"
    have "z = 2" using z unfolding used by (rule demo_least)
    then show ?thesis using r unfolding used by auto
  qed simp
qed

text \<open>
  A file block whose zone pointer is set is mapped to the block at the same distance from
  that zone's start, and nothing changes.
\<close>

lemma get_block_mapped_block:
  assumes "own_inv bo rb st" and "icache st no = Some ai" and "mapped st no (unat iblock)"
  shows "\<exists>b. aufs_get_block bo no iblock (s_blocksize st) create st = Ret (0, Some b, st) \<and>
             unat b = unat (ai_zone_ptr ai ! (unat iblock div bpz st)) + unat iblock mod bpz st"
proof -
  let ?p = "ai_zone_ptr ai ! (unat iblock div bpz st)" and ?r = "unat iblock mod bpz st"
  have g: "geometry_ok st" and live: "no \<in> live_inodes bo st"
    using assms(1,2) by (auto simp: own_inv_def layout_inv_def cache_inv_def)
  have zq: "zone_of st no (unat iblock div bpz st) = unat ?p" using assms(2) by (simp add: zone_of_def)
  have nz: "?p \<noteq> 0" and idx: "unat iblock div bpz st < ZONE_PTR_IN_INODE_NUM"
    using assms(3) zq by (auto simp: mapped_def)
  have small: "?r + unat ?p < 4294967296"
    using file_block_word [OF assms(1) live assms(3)] zq by (simp add: file_block_def)
  then have "unat (of_nat ?r :: u64) = ?r" by (intro unat_of_nat_small) simp
  then have "unat (of_nat ?r + ?p) = unat ?p + ?r" using small by (simp add: unat_add_no_wrap)
  then show ?thesis using get_block_mapped [OF g assms(2) idx nz] by blast
qed



text \<open>
  C19: when every zone is used, \<^verbatim>\<open>aufs_get_block\<close> reports success for an unmapped file block inside
  the nine zones and maps it to one of the first blocks of the device: to the super block when the file block is
  the first of its zone. Writing the file then overwrites metadata.
\<close>

theorem get_block_full_maps_metadata:
  assumes "minix_bitmap bo" and "maps_ok st" and "geometry_ok st" and "icache st no = Some ai"
    and "unat iblock div bpz st < ZONE_PTR_IN_INODE_NUM"
    and "ai_zone_ptr ai ! (unat iblock div bpz st) = 0"
    and "used_zones bo st = {..< n_zones st}"
  shows "aufs_get_block bo no iblock (s_blocksize st) create st =
      Ret (0, Some (of_nat (unat iblock mod bpz st)), st)"
proof -
  let ?q = "unat iblock div bpz st"
  have "(ai_zone_ptr ai)[?q := 0] = ai_zone_ptr ai" using assms(6) by (metis list_update_id)
  then show ?thesis
    using get_block_unmapped [OF assms(3-6) minix_bitmap.new_zone_full [OF assms(1,2,7)]] assms(4)
    by (simp add: put_inode_def fun_upd_idem)
qed

theorem get_block_full_maps_metadata_witness:
  "aufs_get_block le_bitops 1 64 4 True demo_full = Ret (0, Some 0, demo_full)"
  using get_block_full_maps_metadata [OF le_map.minix_bitmap_axioms demo_full_facts(1,2,4), of 64 True]
  by (simp add: demo_full_facts demo_inode_def ZONE_PTR_IN_INODE_NUM_def)

text \<open>
  C20: a file block behind the nine zones of an inode and below 2 to the 32 makes \<^verbatim>\<open>aufs_get_block\<close> read outside the
  pointer array: the comparison with the array length comes after the access.
\<close>

theorem get_block_reads_outside:
  assumes "geometry_ok st" and "icache st no = Some ai"
    and "ZONE_PTR_IN_INODE_NUM * bpz st \<le> unat iblock" and "unat iblock < 2 ^ 32"
  shows "aufs_get_block bo no iblock (s_blocksize st) create st = Fault OutOfBounds"
proof (rule get_block_outside [OF assms(1,2)])
  have pos: "0 < bpz st" using assms(1) by (simp add: geometry_ok_def)
  then show "ZONE_PTR_IN_INODE_NUM \<le> unat iblock div bpz st"
    using assms(3) by (simp add: less_eq_div_iff_mult_less_eq)
  show "unat iblock div bpz st < 2 ^ 32" using assms(4) by (meson div_le_dividend le_less_trans)
qed

theorem get_block_reads_outside_witness:
  "aufs_get_block le_bitops 1 576 4 False demo_full = Fault OutOfBounds"
  using get_block_reads_outside [OF demo_full_facts(2,4), of 576 le_bitops False]
  by (simp add: demo_full_facts ZONE_PTR_IN_INODE_NUM_def)

text \<open>
  C21: while a zone is free, \<^verbatim>\<open>aufs_get_block\<close> gives it to a clean inode without marking it dirty, so the kernel may
  drop the inode next; then the file block is unmapped again while its zone stays used.
\<close>

theorem get_block_clean_inode_loses_zone:
  assumes bm: "minix_bitmap bo" and inv: "own_inv bo rb st" and ai: "icache st no = Some ai"
    and clean: "\<not> i_dirty ai"
    and idx: "unat iblock div bpz st < ZONE_PTR_IN_INODE_NUM" and un: "\<not> mapped st no (unat iblock)"
    and nf: "used_zones bo st \<noteq> {..< n_zones st}"
  shows "\<exists>b st' z. aufs_get_block bo no iblock (s_blocksize st) create st = Ret (0, Some b, st') \<and>
     mapped st' no (unat iblock) \<and> map_option i_dirty (icache st' no) = Some False \<and>
     \<not> mapped (evict_inode no st') no (unat iblock) \<and>
     z \<notin> used_zones bo st \<and> z \<in> used_zones bo (evict_inode no st')"
proof -
  let ?q = "unat iblock div bpz st"
  have lay: "layout_inv bo rb st" and g: "geometry_ok st"
    using inv by (auto simp: own_inv_def layout_inv_def)
  have zq: "ai_zone_ptr ai ! ?q = 0"
    using un idx ai by (auto simp: mapped_def zone_of_def unat_eq_zero)
  then have dz: "disk_zone st no ?q = 0"
    using inv ai clean idx by (fastforce simp: own_inv_def cache_inv_def)
  obtain b st' where run: "aufs_get_block bo no iblock (s_blocksize st) create st = Ret (0, Some b, st')"
    and m': "mapped st' no (unat iblock)"
    using get_block_result [OF bm inv ai idx disjI2 [OF nf]] by metis
  from bm lay show ?thesis
  proof (cases rule: new_zone_cases)
    case full
    then show ?thesis using nf by simp
  next
    case (fresh z st1 zone)
    let ?ai = "ai\<lparr>ai_zone_ptr := (ai_zone_ptr ai)[?q := scast zone]\<rparr>"
    have st': "st' = put_inode no ?ai st1"
      using run get_block_unmapped [OF g ai idx zq fresh(1), of create] by simp
    note f = frame_zones [OF lay fresh(10) disjI1 [OF refl]]
    have ic: "icache st' no = Some ?ai" by (simp add: st')
    have "map_option i_dirty (icache st' no) = Some False" using ic clean by simp
    moreover have "\<not> mapped (evict_inode no st') no (unat iblock)"
      using dz f by (simp add: mapped_def zone_of_def st' disk_zone_def AUFS_SB_def)
    moreover have "z \<in> used_zones bo (evict_inode no st')"
      using fresh(7) by (simp add: used_zones_def area_used_def st' zone_bits_def AUFS_SB_def)
    ultimately show ?thesis using run m' fresh(4) by blast
  qed
qed

theorem get_block_clean_inode_loses_zone_witness:
  "\<exists>b st'. aufs_get_block le_bitops 1 64 4 False demo_open = Ret (0, Some b, st') \<and>
     mapped st' 1 64 \<and> \<not> mapped (evict_inode 1 st') 1 64"
proof -
  have "\<not> mapped demo_open (Suc 0) (unat (64 :: u64))"
    using demo_open_facts(4,7) by (simp add: mapped_def zone_of_def demo_inode_def)
  from get_block_clean_inode_loses_zone [OF le_map.minix_bitmap_axioms demo_open_own demo_open_facts(7)
      _ _ this demo_open_facts(6), of False]
  show ?thesis by (auto simp: demo_open_facts ZONE_PTR_IN_INODE_NUM_def demo_inode_def)
qed

text \<open>
  C22: on a big-endian machine the search routine written out in \<^verbatim>\<open>minix.h\<close> stays inside the
  bitmap and returns the least number whose bit the header's test routine reads as zero, or the
  number of bits when there is none; setting a bit through the header's macro changes what the
  test routine reads for that number only.
\<close>

theorem minix_be16_search_and_set:
  assumes "long_bitops ffz kset ktas ktac" and "map_ok d"
  shows "\<exists>k. minix_find_first_zero_bit ffz d (of_nat (8 * length d)) = Ret k \<and> k \<le> 8 * length d \<and>
     (\<forall>m < k. minix_test_bit m d) \<and> (k < 8 * length d \<longrightarrow> \<not> minix_test_bit k d \<and>
       (\<forall>m < 8 * length d. minix_test_bit m (minix_set_bit kset k d) \<longleftrightarrow> m = k \<or> minix_test_bit m d))"
proof -
  have set: "minix_test_bit m (minix_set_bit kset k d) \<longleftrightarrow> m = k \<or> minix_test_bit m d"
    if "k < 8 * length d" "m < 8 * length d" for k m
    using long_bitops.kset_bit [OF assms] xor_16_less that assms(2)
    by (simp add: minix_set_bit_def minix_test_bit_long map_ok_def)
  obtain k where "minix_find_first_zero_bit ffz d (of_nat (8 * length d)) = Ret k" "k \<le> 8 * length d"
    "\<forall>m < k. minix_test_bit m d" "k < 8 * length d \<longrightarrow> \<not> minix_test_bit k d"
    using long_bitops.be16_find_first_zero [OF assms] by blast
  then show ?thesis using set by blast
qed

theorem minix_be16_search_and_set_witness:
  "\<exists>k. minix_find_first_zero_bit low_zero16 [255, 255, 0, 1] 32 = Ret k \<and> k \<le> 32 \<and>
     (k < 32 \<longrightarrow> \<not> minix_test_bit k [255, 255, 0, 1])"
  using minix_be16_search_and_set [OF ref_long.long_bitops_axioms demo_map_ok [of 255 255 0 1]]
  by auto

end
