(* ===== verification/Kern_Name_Props.thy ===== *)
theory Kern_Name_Props
  imports Kern_Namei Kern_Block_Props
begin

text \<open>
  The properties of the name operations: creating and looking up files and directories, and
  what the error paths do.
\<close>

subsection \<open>A new inode and the directory it is entered into\<close>

text \<open>The inode allocator does not change directories.\<close>

lemma new_inode_result:
  assumes bm: "minix_bitmap (k_bits k)" and inv: "own_inv (k_bits k) rb st" and new: "k_new_inode k = Some ino0"
    and run: "aufs_new_inode k di mode st = (Some ino, e, st1)"
  obtains z where "ino = of_nat z" and "unat ino = z" and "z < 2147483648" and "0 < z"
    and "z \<notin> used_inodes (k_bits k) st" and "icache st z = None" and "e = 0"
    and "icache st1 = (icache st)(z \<mapsto> init_new_inode k ino0 di mode ino)" and "pages st1 = pages st"
proof -
  have maps: "maps_ok st" and zero: "0 \<in> used_inodes (k_bits k) st"
    using inv by (auto simp: own_inv_def layout_inv_def)
  have nf: "used_inodes (k_bits k) st \<noteq> {..< n_inodes st}"
    using minix_bitmap.new_inode_full [OF bm maps refl new, of di mode] run by auto
  from minix_bitmap.new_inode_free [OF bm maps refl new zero nf, of di mode] obtain z st2 where
    a: "aufs_new_inode k di mode st =
         (Some (of_nat z), 0, put_inode z (init_new_inode k ino0 di mode (of_nat z)) st2)"
    and z: "0 < z" "z < n_inodes st" "z \<notin> used_inodes (k_bits k) st"
    and fr: "map_frame (s_imap (AUFS_SB st)) st st2" "icache st2 = icache st" by metis
  have zb: "z < 2147483648" using z(2) maps by (auto simp: maps_ok_def area_ok_def n_inodes_def)
  have un: "unat (of_nat z :: u64) = z" using zb by (intro unat_of_nat_small) simp
  have none: "icache st z = None"
  proof (rule ccontr)
    assume "icache st z \<noteq> None"
    then obtain ai where "icache st z = Some ai" by auto
    then have "z \<in> live_inodes (k_bits k) st" by (rule cached_live [OF inv])
    then show False using z(3) by (simp add: live_inodes_def)
  qed
  show ?thesis
    using that [of z] a run z(1,3) zb un none fr by (auto simp: map_frame_def)
qed

lemma dir_ok_kept:
  assumes "dir_ok st d" and "pages st' d = pages st d"
    and "map_option i_size (icache st' d) = map_option i_size (icache st d)"
  shows "dir_ok st' d" and "dir_list st' d = dir_list st d"
proof -
  obtain ai where ai: "icache st d = Some ai" using assms(1) by (auto simp: dir_ok_def)
  then obtain ai' where ai': "icache st' d = Some ai'" "i_size ai' = i_size ai" using assms(3) by auto
  then have "dir_len st' d = dir_len st d" using ai by (simp add: dir_len_def)
  from dir_frame [OF assms(2) this ai ai'] assms(1) show "dir_ok st' d" "dir_list st' d = dir_list st d"
    by simp_all
qed

lemma small_ino: "z < 2147483648 \<Longrightarrow> ucast (ucast (of_nat z :: u64) :: u32) = (of_nat z :: u64)"
  by (rule ucast_ucast_u64_small) (simp add: unat_of_nat_small)

lemma ino32_nonzero: "0 < z \<Longrightarrow> z < 2147483648 \<Longrightarrow> (ucast (of_nat z :: u64) :: u32) \<noteq> 0"
proof
  assume z: "0 < z" "z < 2147483648" and "(ucast (of_nat z :: u64) :: u32) = 0"
  then have zero: "(of_nat z :: u64) = 0" using small_ino [of z] by simp
  have "unat (of_nat z :: u64) = z" using z by (intro unat_of_nat_small) simp
  then show False using z(1) unfolding zero by simp
qed

context name_kernel
begin

lemma add_link_keeps_cached:
  assumes "dir_ok st dir" and "name_ok name" and "(ucast ino :: u32) \<noteq> 0"
    and "minix_add_link k dir name ino st = Ret (0, st')" and "icache st z = Some ai" and "z \<noteq> dir"
  shows "\<exists>ai'. icache st' z = Some ai' \<and> ai' = ai\<lparr>ai_zone_ptr := ai_zone_ptr ai'\<rparr>"
proof -
  have fresh: "name \<notin> fst ` set (dir_list st dir)" using add_succeeds_fresh [OF assms(1,2,4)] .
  obtain st1 where prep: "minix_prepare_chunk k dir (64 * dir_len st dir) AUFS_DIR_SIZE
      (dir_end_cleared st dir) = Ret (0, st1)"
    using assms(4) unfolding add_link_goes_to_end [OF assms(1,2) fresh] add_link_at_def Let_def add_link_pos
    by (auto split: sum.splits if_splits)
  from add_link_new [OF assms(1,2) fresh assms(3) prep] assms(4) obtain ai1 where
    ic: "icache st' = (icache st1)(dir \<mapsto> ai1)" by (metis Inr_inject prod.inject)
  have "icache (dir_end_cleared st dir) z = Some ai" using assms(5) by (simp add: dir_end_cleared_def Let_def)
  then show ?thesis
    using same_view_inode [OF prepare_view [OF prep]] ic assms(6) by (metis fun_upd_other)
qed

lemma create_effect:
  assumes bm: "minix_bitmap (k_bits k)" and inv: "own_inv (k_bits k) rb st" and new: "k_new_inode k = Some ino0"
    and ok: "dir_ok st dir" and nm: "name_ok name"
    and run: "minix_create k dir name mode st = Ret (0, Some i, st')"
  shows "i \<notin> used_inodes (k_bits k) st" and "i \<in> live_inodes (k_bits k) st'"
    and "dir_list st' dir = dir_list st dir @ [(name, of_nat i)]" and "dir_ok st' dir"
    and "minix_lookup k dir name st' = Ret (Inr (Some i), st')"
proof -
  obtain di where di: "icache st dir = Some di" using ok by (auto simp: dir_ok_def)
  have dev: "k_valid_dev k 0" using run by (auto simp: minix_create_def minix_mknod_def split: if_splits)
  obtain ino e st1 where n: "aufs_new_inode k di mode st = (Some ino, e, st1)"
    using run dev di by (auto simp: minix_create_def minix_mknod_def split: option.splits prod.splits)
  obtain z where z: "ino = of_nat z" "unat ino = z" "z < 2147483648" "0 < z"
    "z \<notin> used_inodes (k_bits k) st" "icache st z = None"
    "icache st1 = (icache st)(z \<mapsto> init_new_inode k ino0 di mode ino)" "pages st1 = pages st"
    using new_inode_result [OF bm inv new n] by metis
  have zd: "z \<noteq> dir" using z(6) di by auto
  let ?ai = "init_new_inode k ino0 di mode ino"
  define st2 where "st2 = mark_inode_dirty z (snd (set_inode_at z st1))"
  have ic2: "icache st2 = (icache st)(z \<mapsto> (snd (minix_set_inode ?ai))\<lparr>i_dirty := True\<rparr>)"
    and pg2: "pages st2 = pages st"
    using z(7,8) by (simp_all add: st2_def set_inode_at_def)
  have "add_nondir k dir name ino st2 = Ret (0, Some i, st')"
    using run dev di n
    by (cases "set_inode_at (unat ino) st1")
      (simp add: minix_create_def minix_mknod_def st2_def flip: z(2) split: if_splits)
  then have link: "minix_add_link k dir name ino st2 = Ret (0, st')" and i: "i = z"
    using z(2) by (auto simp: add_nondir_def split: sum.splits if_splits)
  have ok2: "dir_ok st2 dir" "dir_list st2 dir = dir_list st dir"
    by (rule dir_ok_kept [OF ok]; simp add: pg2 ic2 zd zd [symmetric])+
  have nz: "(ucast ino :: u32) \<noteq> 0" unfolding z(1) using z(4,3) by (rule ino32_nonzero)
  have fresh: "name \<notin> fst ` set (dir_list st2 dir)" using add_succeeds_fresh [OF ok2(1) nm link] .
  note add = add_fresh [OF ok2(1) nm fresh nz link]
  have w: "(ucast ino :: u32) = of_nat i" unfolding z(1) i by (rule ucast_u64_u32_of_nat)
  show "i \<notin> used_inodes (k_bits k) st" using z(5) i by simp
  show "dir_list st' dir = dir_list st dir @ [(name, of_nat i)]" "dir_ok st' dir"
    using add ok2(2) w by simp_all
  obtain ai' where cached: "icache st' z = Some ai'"
    using add_link_keeps_cached [OF ok2(1) nm nz link _ zd] ic2 by auto
  have "own_inv (k_bits k) rb st'"
    using reachable_own_inv [OF mknod_steps bm inv] run by (simp add: minix_create_def)
  then show "i \<in> live_inodes (k_bits k) st'" using cached i by (auto simp: own_inv_def cache_inv_def)
  have "minix_inode_by_name k dir name st' = Ret ino"
    using add_link_lookup(1) [OF ok2(1) nm nm nz link] small_ino [OF z(3)] z(1) by simp
  moreover have "ino \<noteq> 0" using nz by auto
  moreover have "\<not> AUFS_NAME_LEN < length name" using nm by (simp add: name_ok_def)
  ultimately show "minix_lookup k dir name st' = Ret (Inr (Some i), st')"
    using cached z(2) i by (simp add: minix_lookup_def aufs_inode_get_def)
qed

lemma make_empty_succeeds:
  assumes "minix_make_empty k inode dir st = Ret (0, st')" and ai: "icache st inode = Some ai" "i_size ai = 0"
    and di: "icache st dir = Some di"
    and nz: "(ucast (i_ino ai) :: u32) \<noteq> 0" "(ucast (i_ino di) :: u32) \<noteq> 0"
    and pgs: "\<forall>n. length (pages st inode n) = 4096"
  shows "dir_list st' inode = [([46], ucast (i_ino ai)), ([46, 46], ucast (i_ino di))]"
    and "dir_ok st' inode" and "\<And>d. d \<noteq> inode \<Longrightarrow> pages st' d = pages st d"
    and "\<And>d. d \<noteq> inode \<Longrightarrow> map_option i_size (icache st' d) = map_option i_size (icache st d)"
proof -
  have grab: "k_grab_page k inode 0" using assms(1) ai di by (auto simp: minix_make_empty_def split: if_splits)
  obtain st1 where prep: "minix_prepare_chunk k inode 0 (2 * AUFS_DIR_SIZE) st = Ret (0, st1)"
    using assms(1) ai di grab by (auto simp: minix_make_empty_def split: sum.splits if_splits)
  obtain s where
    r: "minix_make_empty k inode dir st = Ret (if k_dirsync k inode then k_write_page k inode 0 else 0, s)"
    and f: "dir_list s inode = [([46], ucast (i_ino ai)), ([46, 46], ucast (i_ino di))]" "dir_ok s inode"
      "\<forall>d. d \<noteq> inode \<longrightarrow> pages s d = pages st d"
      "\<exists>pg ai'. s = put_inode inode ai' (put_page inode 0 pg st1)"
    by (rule make_empty_entries [OF ai di nz pgs grab prep])
  have "s = st'" using r assms(1) by simp
  with f have facts: "dir_list st' inode = [([46], ucast (i_ino ai)), ([46, 46], ucast (i_ino di))]"
    "dir_ok st' inode" "\<forall>d. d \<noteq> inode \<longrightarrow> pages st' d = pages st d"
    "\<exists>pg ai'. st' = put_inode inode ai' (put_page inode 0 pg st1)"
    by simp_all
  then have ic: "\<forall>d. d \<noteq> inode \<longrightarrow> icache st' d = icache st1 d" by auto
  have "map_option i_size (icache st1 d) = map_option i_size (icache st d)" for d
  proof -
    have "map_option i_size (map_option (ai_zone_ptr_update (\<lambda>_. [])) (icache st1 d)) =
        map_option i_size (map_option (ai_zone_ptr_update (\<lambda>_. [])) (icache st d))"
      using prepare_view [OF prep] by (simp add: same_view_def)
    then show ?thesis by (simp add: option.map_comp o_def)
  qed
  with facts ic show "dir_list st' inode = [([46], ucast (i_ino ai)), ([46, 46], ucast (i_ino di))]"
    "dir_ok st' inode" "\<And>d. d \<noteq> inode \<Longrightarrow> pages st' d = pages st d"
    "\<And>d. d \<noteq> inode \<Longrightarrow> map_option i_size (icache st' d) = map_option i_size (icache st d)" by simp_all
qed

lemma mkdir_effect:
  assumes bm: "minix_bitmap (k_bits k)" and inv: "own_inv (k_bits k) rb st" and new: "k_new_inode k = Some ino0"
    and owner: "\<And>di m. i_size (k_init_owner k ino0 di m) = 0"
    and ok: "dir_ok st dir" and nm: "name_ok name" and pgs: "\<And>d n. length (pages st d n) = 4096"
    and run: "minix_mkdir k dir name mode st = Ret (0, Some i, st')"
  shows "i \<notin> used_inodes (k_bits k) st" and "dir_ok st' dir" and "dir_ok st' i"
    and "dir_list st' dir = dir_list st dir @ [(name, of_nat i)]"
    and "dir_list st' i = [([46], of_nat i), ([46, 46], of_nat dir)]"
proof -
  let ?st1 = "inode_inc_link_count dir st"
  obtain ai where ai: "icache st dir = Some ai" using ok by (auto simp: dir_ok_def)
  have live: "dir \<in> live_inodes (k_bits k) st" "i_ino ai = of_nat dir"
    using inv ai by (auto simp: own_inv_def cache_inv_def)
  have db: "dir < 2147483648" "0 < dir" using live_bound [OF _ live(1)] inv by (auto simp: own_inv_def)
  let ?di = "ai\<lparr>i_nlink := i_nlink ai + 1, i_dirty := True\<rparr>"
  have st1: "icache ?st1 = (icache st)(dir \<mapsto> ?di)" "pages ?st1 = pages st"
    using ai by (simp_all add: inode_inc_link_count_def)
  have inv1: "own_inv (k_bits k) rb ?st1" using reachable_own_inv [OF link_count_steps(1) bm inv] .
  have used1: "used_inodes (k_bits k) ?st1 = used_inodes (k_bits k) st"
    using ai by (simp add: inode_inc_link_count_def)
  obtain ino e st2 where n: "aufs_new_inode k ?di (S_IFDIR OR mode) ?st1 = (Some ino, e, st2)"
    using run st1(1) by (auto simp: minix_mkdir_def Let_def split: option.splits prod.splits)
  obtain z where z: "ino = of_nat z" "unat ino = z" "z < 2147483648" "0 < z"
    "z \<notin> used_inodes (k_bits k) ?st1" "icache ?st1 z = None"
    "icache st2 = (icache ?st1)(z \<mapsto> init_new_inode k ino0 ?di (S_IFDIR OR mode) ino)" "pages st2 = pages ?st1"
    using new_inode_result [OF bm inv1 new n] by metis
  have zd: "z \<noteq> dir" using z(6) st1(1) by auto
  define st3 where "st3 = inode_inc_link_count z (snd (set_inode_at z st2))"
  obtain a3 where a3: "icache st3 = (icache ?st1)(z \<mapsto> a3)" "i_size a3 = 0" "i_ino a3 = ino" and pg3: "pages st3 = pages st"
    using z(7,8) owner st1(2)
    by (auto simp: st3_def inode_inc_link_count_def set_inode_at_def minix_set_inode_def init_new_inode_def)
  obtain st4 where m: "minix_make_empty k z dir st3 = Ret (0, st4)"
    and link: "minix_add_link k dir name ino st4 = Ret (0, st')" and i: "i = z"
    using run st1(1) n
    by (auto simp: minix_mkdir_def Let_def z(2) st3_def [symmetric] split: sum.splits prod.splits if_splits)
  have d3: "icache st3 dir = Some ?di" using a3(1) st1(1) zd by simp
  have nz: "(ucast ino :: u32) \<noteq> 0" "(ucast (of_nat dir :: u64) :: u32) \<noteq> 0"
    unfolding z(1) using ino32_nonzero z(3,4) db by blast+
  note me = make_empty_succeeds [OF m _ a3(2) d3]
  have e4: "dir_list st4 z = [([46], ucast ino), ([46, 46], ucast (of_nat dir :: u64))]" "dir_ok st4 z"
    "pages st4 dir = pages st dir" "map_option i_size (icache st4 dir) = map_option i_size (icache st dir)"
    using me a3 nz live(2) pgs pg3 zd st1 ai by auto
  have ok4: "dir_ok st4 dir" "dir_list st4 dir = dir_list st dir" by (rule dir_ok_kept [OF ok e4(3,4)])+
  have fresh: "name \<notin> fst ` set (dir_list st4 dir)" using add_succeeds_fresh [OF ok4(1) nm link] .
  note add = add_fresh [OF ok4(1) nm fresh nz(1) link]
    and other = add_other [OF ok4(1) nm nz(1) link zd e4(2)]
  have w: "(ucast ino :: u32) = of_nat i" "(ucast (of_nat dir :: u64) :: u32) = of_nat dir"
    unfolding z(1) i by (rule ucast_u64_u32_of_nat)+
  show "i \<notin> used_inodes (k_bits k) st" using z(5) i used1 by simp
  show "dir_ok st' dir" "dir_list st' dir = dir_list st dir @ [(name, of_nat i)]" using add ok4(2) w by simp_all
  show "dir_ok st' i" "dir_list st' i = [([46], of_nat i), ([46, 46], of_nat dir)]"
    using other e4(1) w i by simp_all
qed

end

subsection \<open>An example\<close>

text \<open>The example file system with the page of its root directory.\<close>

definition demo_pages :: "nat \<Rightarrow> nat \<Rightarrow> bytes" where
  "demo_pages d n =
     (if d = 1 \<and> n = 0 then blit 64 (slot_bytes 1 [46, 46]) (blit 0 (slot_bytes 1 [46]) (replicate 4096 0))
      else replicate 4096 0)"

definition demo_town :: fs where
  "demo_town = demo_open\<lparr>pages := demo_pages\<rparr>"

lemma demo_town_own: "own_inv le_bitops 4 demo_town"
  by (rule page_own_inv [OF demo_open_own]) (simp_all add: demo_town_def)

lemma demo_town_dir: "dir_list demo_town 1 = [([46], 1), ([46, 46], 1)]" "dir_ok demo_town 1"
  by (rule two_slots [where ai = demo_inode];
      simp add: demo_town_def demo_open_def demo_inode_def demo_pages_def)+

lemma demo_pages_length: "length (pages demo_town d n) = 4096"
  by (simp add: demo_town_def demo_pages_def)

lemma map_blocks_mapped:
  assumes "geometry_ok st" and "icache st no = Some ai"
    and "\<forall>ib \<in> set ibs. ib < bpz st" and "ai_zone_ptr ai ! 0 \<noteq> 0"
  shows "map_blocks (aufs_get_block bo no) ibs st = Ret (0, st)"
  using assms(3)
proof (induction ibs)
  case (Cons ib ibs)
  have lt: "ib < bpz st" using Cons.prems by simp
  have le: "bpz st \<le> bpz st * unat (s_blocksize st)" using assms(1) by (simp add: geometry_ok_def)
  have "bpz st * unat (s_blocksize st) < 4294967296" using assms(1) by (simp add: geometry_ok_def)
  with le have "bpz st < 4294967296" by (rule le_less_trans)
  then have "unat (of_nat ib :: u64) = ib" using lt by (intro unat_of_nat_small) simp
  then have "aufs_get_block bo no (of_nat ib) (s_blocksize st) True st =
      Ret (0, Some (of_nat (ib mod bpz st) + ai_zone_ptr ai ! 0), st)"
    using get_block_mapped [OF assms(1,2), of "of_nat ib" bo True] assms(4) lt
    by (simp add: ZONE_PTR_IN_INODE_NUM_def)
  then show ?case using Cons by simp
qed simp

lemma demo_prepare:
  assumes "s_blocksize st = 4" and "s_fs_info st = demo_sb" and "icache st no = Some ai"
    and "ai_zone_ptr ai ! 0 \<noteq> 0" and "pos + len \<le> 256"
  shows "minix_prepare_chunk ref_kernel no pos len st = Ret (0, st)"
proof -
  have g: "geometry_ok st" and b: "bpz st = 64"
    using assms(1,2) by (simp_all add: geometry_ok_def AUFS_SB_def demo_sb_def)
  have "(3 + (pos + len)) div 4 \<le> 64" using assms(5) by simp
  then have "map_blocks (aufs_get_block le_bitops no) [pos div 4..<(3 + (pos + len)) div 4] st = Ret (0, st)"
    by (intro map_blocks_mapped [OF g assms(3) _ assms(4)]) (auto simp: b)
  then show ?thesis
    using assms(1) by (simp add: minix_prepare_chunk_def ref_kernel_def map_range_def)
qed

lemma demo_new_inode:
  assumes "s_blocksize st = 4" and "s_fs_info st = demo_sb" and "b_data st = b_data demo_fs"
  shows "aufs_new_inode ref_kernel di mode st =
      (Some 2, 0, put_inode 2 (init_new_inode ref_kernel blank_inode di mode 2)
         (mark_buffer_dirty 2 (put_buffer 2 [7, 0, 0, 0] st)))"
proof -
  have d: "b_data st 2 = [3, 0, 0, 0]" using assms(3) by (simp add: demo_fs_def)
  have "bits_per_block st = 32" using assms(1) by (simp add: bits_per_block_def)
  moreover have "find_first_zero le_bitops [3, 0, 0, 0] 32 = 2" by code_simp
  ultimately have "new_inode_scan le_bitops st 0 [2] = Some (0, 2, 2)" using d by simp
  moreover have "test_and_set le_bitops 2 [3, 0, 0, 0] = (False, [7, 0, 0, 0])" by code_simp
  ultimately show ?thesis using assms(2) d by (simp add: aufs_new_inode_def AUFS_SB_def demo_sb_def Let_def)
qed

lemma demo_create:
  obtains st' where "minix_create ref_kernel 1 [97] 0x81A4 demo_town = Ret (0, Some 2, st')"
proof -
  let ?ai = "init_new_inode ref_kernel blank_inode demo_inode 0x81A4 2"
  let ?st1 = "put_inode 2 ?ai (mark_buffer_dirty 2 (put_buffer 2 [7, 0, 0, 0] demo_town))"
  let ?ai2 = "?ai\<lparr>i_op := minix_file_inode_operations, i_fop := aufs_file_ops, a_ops := aufs_aops, i_dirty := True\<rparr>"
  let ?st2 = "put_inode 2 ?ai2 ?st1"
  have reg: "S_ISREG 0x81A4" by (simp add: S_ISREG_def S_IFMT_def S_IFREG_def)
  have mode: "i_mode ?ai = 0x81A4" by (simp add: init_new_inode_def ref_kernel_def)
  have new: "aufs_new_inode ref_kernel demo_inode 0x81A4 demo_town = (Some 2, 0, ?st1)"
    by (rule demo_new_inode) (simp_all add: demo_town_def demo_open_def, simp add: demo_fs_def, simp add: demo_fs_def)
  have ic: "icache demo_town 1 = Some demo_inode" by (simp add: demo_town_def demo_open_def)
  have ok: "dir_ok ?st2 1" "dir_list ?st2 1 = dir_list demo_town 1"
    by (rule dir_ok_kept [OF demo_town_dir(2)]; simp)+
  let ?c = "dir_end_cleared ?st2 1"
  have dl: "dir_len ?st2 1 = 2" by (simp add: dir_len_def demo_town_def demo_open_def demo_inode_def)
  have prep: "minix_prepare_chunk ref_kernel 1 (64 * dir_len ?st2 1) AUFS_DIR_SIZE ?c = Ret (0, ?c)"
    unfolding dl
    by (rule demo_prepare [where ai = demo_inode])
      (simp_all add: dir_end_cleared_def Let_def demo_town_def demo_open_def demo_fs_def AUFS_DIR_SIZE_def
        demo_inode_def)
  have fresh: "[97] \<notin> fst ` set (dir_list ?st2 1)" unfolding ok(2) demo_town_dir(1) by simp
  have two: "(ucast (2 :: u64) :: u32) \<noteq> 0" by simp
  obtain st' where "minix_add_link ref_kernel 1 [97] 2 ?st2 =
      Ret (if k_dirsync ref_kernel 1 then k_write_page ref_kernel 1 (dir_len ?st2 1 div 64) else 0, st')"
    by (rule ref_dir.add_link_new [OF ok(1) demo_dir_names(3) fresh two prep])
  then have link: "minix_add_link ref_kernel 1 [97] 2 ?st2 = Ret (0, st')" unfolding ref_kernel_sel if_cancel .
  have "minix_create ref_kernel 1 [97] 0x81A4 demo_town = Ret (0, Some 2, st')"
    using new ic reg mode link
    by (simp add: minix_create_def minix_mknod_def set_inode_at_def minix_set_inode_def add_nondir_def)
  then show ?thesis by (rule that)
qed

lemma entry_ino_nonzero: "dir_ok st d \<Longrightarrow> (n, ino) \<in> set (dir_list st d) \<Longrightarrow> ino \<noteq> 0"
  by (auto simp: dir_ok_def dir_list_def)

lemma ucast_u32_u64_nonzero: "(ucast (w :: u32) :: u64) = 0 \<longleftrightarrow> w = 0"
  by (metis unat_ucast_u32_u64 unat_eq_zero)

subsection \<open>Properties\<close>

text \<open>
  C10: on a well-formed directory whose pages can be read, a successful \<^verbatim>\<open>minix_create\<close> appends one entry to the directory, for an inode number that was
  unused before and is in use afterwards, and looking the name up gives exactly that inode.
\<close>

theorem create_then_lookup:
  assumes "name_kernel k" and "minix_bitmap (k_bits k)" and "own_inv (k_bits k) rb st"
    and "k_new_inode k = Some ino0" and "dir_ok st dir" and "name_ok name"
    and "minix_create k dir name mode st = Ret (0, Some i, st')"
  shows "i \<notin> used_inodes (k_bits k) st \<and> i \<in> live_inodes (k_bits k) st' \<and>
    dir_list st' dir = dir_list st dir @ [(name, of_nat i)] \<and> dir_ok st' dir \<and>
    minix_lookup k dir name st' = Ret (Inr (Some i), st')"
  using name_kernel.create_effect [OF assms] by blast

theorem create_then_lookup_witness:
  "\<exists>st'. minix_create ref_kernel 1 [97] 0x81A4 demo_town = Ret (0, Some 2, st') \<and>
     dir_list st' 1 = [([46], 1), ([46, 46], 1), ([97], 2)] \<and>
     minix_lookup ref_kernel 1 [97] st' = Ret (Inr (Some 2), st')"
proof -
  obtain st' where run: "minix_create ref_kernel 1 [97] 0x81A4 demo_town = Ret (0, Some 2, st')"
    by (rule demo_create)
  have bm: "minix_bitmap (k_bits ref_kernel)" "own_inv (k_bits ref_kernel) 4 demo_town"
    using le_map.minix_bitmap_axioms demo_town_own by simp_all
  from create_then_lookup [OF ref_names.name_kernel_axioms bm _ demo_town_dir(2) demo_dir_names(3) run] run
  show ?thesis by (simp add: demo_town_dir(1) del: One_nat_def)
qed

text \<open>
  C26: looking a name up in a well-formed directory whose pages can be read. A name of more than 60 bytes is refused with
  \<^verbatim>\<open>ENAMETOOLONG\<close>, a name without an entry gives a negative dentry, and the name of a cached inode gives that inode, all without a change. The
  name of an inode (below \<open>2 ^ 31\<close>) that is not cached loads its record from the inode table: without memory the result is \<^verbatim>\<open>ENOMEM\<close>, when the
  block cannot be read or the record is neither a file nor a directory it is \<^verbatim>\<open>EIO\<close>, each without a change, and otherwise the inode of the
  record, with the tables of its type, is added to the cache and is the result.
\<close>

theorem lookup_result:
  assumes "dir_kernel k" and ok: "dir_ok st dir" and name: "0 \<notin> set name" and asb: "asb_ok (AUFS_SB st)"
    and small: "\<forall>ino. map_of (dir_list st dir) name = Some ino \<longrightarrow> unat ino < 2 ^ 31"
  shows "minix_lookup k dir name st =
    (if 60 < length name then Ret (Inl (- ENAMETOOLONG), st)
     else case map_of (dir_list st dir) name of
       None \<Rightarrow> Ret (Inr None, st)
     | Some ino \<Rightarrow>
         let no = unat ino; block = inode_blk (AUFS_SB st) no
         in if icache st no \<noteq> None then Ret (Inr (Some no), st)
            else case k_iget k no of
              None \<Rightarrow> Ret (Inl (- ENOMEM), st)
            | Some new \<Rightarrow>
                if \<not> k_bread k block then Ret (Inl (- EIO), st)
                else if length (b_data st block) < inode_off no + sizeof_disk_inode then Fault OutOfBounds
                else let ai = aufs_inode_fill new (read_disk_inode (b_data st block) (inode_off no))
                     in if S_ISREG (i_mode ai) \<or> S_ISDIR (i_mode ai)
                        then Ret (Inr (Some no), put_inode no (ops_for (ai\<lparr>i_ino := of_nat no\<rparr>)) st)
                        else Ret (Inl (- EIO), st))"
proof (cases "60 < length name")
  case False
  then have "name_ok name" using name by (simp add: name_ok_def AUFS_NAME_LEN_def)
  note find = dir_kernel.inode_by_name_eq [OF assms(1) ok this]
  show ?thesis
  proof (cases "map_of (dir_list st dir) name")
    case (Some ino)
    then have mem: "(name, ino) \<in> set (dir_list st dir)" by (rule map_of_SomeD)
    then have "(ucast ino :: u64) \<noteq> 0" using entry_ino_nonzero [OF ok] by (simp add: ucast_u32_u64_nonzero)
    then have l: "minix_lookup k dir name st = (case aufs_inode_get k (ucast ino) st of
        Inl f \<Rightarrow> Fault f | Inr (Inl e, st1) \<Rightarrow> Ret (Inl e, st1) | Inr (Inr i, st1) \<Rightarrow> Ret (Inr (Some i), st1))"
      using Some False find by (simp add: minix_lookup_def AUFS_NAME_LEN_def)
    have eq: "(ucast ino :: u64) = of_nat (unat ino)" by (simp add: word_unat_eq_iff unat_of_nat_small unat_u32_less)
    have "unat ino < 2147483648" using small Some by simp
    note loc = unat_inode_location [OF asb this]
    have un: "unat (of_nat (unat ino) :: u64) = unat ino" by (simp flip: eq)
    show ?thesis
      using False Some unfolding l eq aufs_inode_get_def un loc
      by (simp add: ops_for_def Let_def split: option.split)
  qed (use False find in \<open>simp add: minix_lookup_def AUFS_NAME_LEN_def\<close>)
qed (simp add: minix_lookup_def AUFS_NAME_LEN_def)

theorem lookup_result_witness:
  "minix_lookup ref_kernel 1 [46, 46] demo_town = Ret (Inr (Some 1), demo_town) \<and>
   minix_lookup ref_kernel 1 (replicate 61 97) demo_town = Ret (Inl (- ENAMETOOLONG), demo_town) \<and>
   minix_lookup ref_kernel 1 [97] demo_town = Ret (Inr None, demo_town)"
proof -
  have asb: "asb_ok (AUFS_SB demo_town)" using demo_town_own by (simp add: own_inv_def layout_inv_def maps_ok_def)
  have ic: "icache demo_town 1 \<noteq> None" by (simp add: demo_town_def demo_open_def)
  have small: "\<forall>ino. map_of (dir_list demo_town 1) name = Some ino \<longrightarrow> unat ino < 2 ^ 31" for name
    unfolding demo_town_dir by (auto split: if_splits)
  note l = lookup_result [OF ref_dir.dir_kernel_axioms demo_town_dir(2) _ asb small]
  from l [of "[46, 46]"] l [of "replicate 61 97"] l [of "[97]"] ic show ?thesis
    by (simp add: demo_town_dir(1) Let_def del: One_nat_def)
qed

text \<open>
  C27: with every inode number in use, a valid device number and memory for the inode, creating a file dereferences the null pointer that
  \<^verbatim>\<open>aufs_new_inode\<close> returned instead of reporting \<^verbatim>\<open>ENOSPC\<close>; making a directory reports it and
  leaves the link count of the parent as it was.
\<close>

theorem create_without_free_inode:
  assumes bm: "minix_bitmap (k_bits k)" and maps: "maps_ok st" and di: "icache st dir = Some di"
    and new: "k_new_inode k = Some ino0" and dev: "k_valid_dev k rdev"
    and full: "used_inodes (k_bits k) st = {..< n_inodes st}"
  shows "minix_mknod k dir name mode rdev st = Fault NullDeref \<and>
    minix_mkdir k dir name mode st = Ret (- ENOSPC, None, put_inode dir (di\<lparr>i_dirty := True\<rparr>) st)"
proof -
  let ?di = "di\<lparr>i_nlink := i_nlink di + 1, i_dirty := True\<rparr>"
  let ?st = "put_inode dir ?di st"
  have "aufs_new_inode k di mode st = (None, - ENOSPC, st)"
    using minix_bitmap.new_inode_full [OF bm maps refl new full] .
  moreover have "aufs_new_inode k ?di (S_IFDIR OR mode) ?st = (None, - ENOSPC, ?st)"
    by (rule minix_bitmap.new_inode_full [OF bm _ refl new])
      (use maps full in simp_all)
  ultimately show ?thesis
    using di dev by (simp add: minix_mknod_def minix_mkdir_def inode_inc_link_count_def inode_dec_link_count_def
        put_inode_def)
qed


definition demo_crowded :: fs where
  "demo_crowded = put_buffer 2 [255, 255, 255, 255] demo_town"

lemma demo_crowded_facts:
  "maps_ok demo_crowded" "used_inodes le_bitops demo_crowded = {..<n_inodes demo_crowded}"
  "icache demo_crowded (Suc 0) = Some demo_inode"
proof -
  have "le_test_bit [255, 255, 255, 255] z" if "z < 32" for z
  proof -
    have "z \<in> set [0..<32]" using that by simp
    then show ?thesis by (auto simp: upt_rec le_test_bit_def bit_numeral_rec)
  qed
  then show "used_inodes le_bitops demo_crowded = {..<n_inodes demo_crowded}"
    by (auto simp: used_inodes_def area_used_def n_inodes_def AUFS_SB_def demo_crowded_def demo_town_def
        demo_open_def demo_fs_def demo_sb_def zone_bits_def le_bitops_def)
qed (simp_all add: maps_ok_def asb_ok_def area_ok_def demo_map_ok zone_bits_def
      demo_crowded_def demo_town_def demo_open_def AUFS_SB_def demo_fs_def demo_sb_def)

theorem create_without_free_inode_witness:
  "minix_mknod ref_kernel 1 [97] 0x81A4 0 demo_crowded = Fault NullDeref"
  using create_without_free_inode [where k = ref_kernel and st = demo_crowded and dir = 1 and di = demo_inode]
    demo_crowded_facts le_map.minix_bitmap_axioms by simp


lemma ref_init_owner: "i_mode (k_init_owner ref_kernel ino di mode) = mode"
  by (simp add: ref_kernel_def)







text \<open>
  C11: on a well-formed directory whose pages can be read, a successful \<^verbatim>\<open>minix_mkdir\<close> makes a directory with exactly the entries \<open>.\<close> and \<open>..\<close>, which name the
  new directory and its parent, and appends its entry to the parent.
\<close>

theorem mkdir_makes_directory:
  assumes "name_kernel k" and "minix_bitmap (k_bits k)" and "own_inv (k_bits k) rb st" and "k_new_inode k = Some ino0"
    and "\<And>di m. i_size (k_init_owner k ino0 di m) = 0" and "dir_ok st dir" and "name_ok name"
    and "\<And>d n. length (pages st d n) = 4096" and "minix_mkdir k dir name mode st = Ret (0, Some i, st')"
  shows "i \<notin> used_inodes (k_bits k) st \<and> dir_ok st' dir \<and> dir_ok st' i \<and>
    dir_list st' dir = dir_list st dir @ [(name, of_nat i)] \<and>
    dir_list st' i = [([46], of_nat i), ([46, 46], of_nat dir)]"
  using name_kernel.mkdir_effect [OF assms] by blast

lemma demo_prepare_new:
  assumes "s_blocksize st = 4" and "s_fs_info st = demo_sb" and "b_data st 1 = [3, 0, 0, 0]"
    and "icache st no = Some ai" and "ai_zone_ptr ai = replicate 9 0"
  shows "minix_prepare_chunk ref_kernel no 0 128 st =
    Ret (0, put_inode no (ai\<lparr>ai_zone_ptr := 196 # replicate 8 0\<rparr>) (mark_buffer_dirty 1 (put_buffer 1 [7, 0, 0, 0] st)))"
proof -
  have g: "geometry_ok st" and b: "bpz st = 64"
    using assms(1,2) by (simp_all add: geometry_ok_def AUFS_SB_def demo_sb_def)
  have "find_first_zero le_bitops [3, 0, 0, 0] 32 = 2" "set_map_bit le_bitops 2 [3, 0, 0, 0] = [7, 0, 0, 0]"
    by code_simp+
  moreover have "zone_block demo_sb 2 = 196" by code_simp
  ultimately have z: "aufs_new_zone le_bitops st = Ret (196, mark_buffer_dirty 1 (put_buffer 1 [7, 0, 0, 0] st))"
    using assms(1-3) by (simp add: aufs_new_zone_def AUFS_SB_def bits_per_block_def)
      (simp add: demo_sb_def AUFS_SB_def bits_per_block_def)
  let ?st = "put_inode no (ai\<lparr>ai_zone_ptr := 196 # replicate 8 0\<rparr>) (mark_buffer_dirty 1 (put_buffer 1 [7, 0, 0, 0] st))"
  have upd: "(replicate 9 0)[0 := 196 :: u64] = 196 # replicate 8 0" by (simp add: numeral_eq_Suc)
  have first: "aufs_get_block le_bitops no 0 4 True st = Ret (0, Some 196, ?st)"
    using get_block_unmapped [OF g assms(4) _ _ z, of 0 True] assms(1,5) by (simp add: upd ZONE_PTR_IN_INODE_NUM_def)
  have "map_blocks (aufs_get_block le_bitops no) [1..<32] ?st = Ret (0, ?st)"
    by (rule map_blocks_mapped [where ai = "ai\<lparr>ai_zone_ptr := 196 # replicate 8 0\<rparr>"])
      (use assms(1,2) in \<open>simp_all add: geometry_ok_def AUFS_SB_def demo_sb_def\<close>)
  with first have "map_blocks (aufs_get_block le_bitops no) (0 # [1..<32]) st = Ret (0, ?st)" using assms(1) by simp
  moreover have "[0..<32] = 0 # [1..<32 :: nat]" by (simp add: upt_rec)
  ultimately show ?thesis using assms(1) by (simp add: minix_prepare_chunk_def ref_kernel_def map_range_def)
qed


text \<open>The states of a run of \<^verbatim>\<open>minix_mkdir\<close> on the small file system: the parent linked once more, the new inode, its tables set.\<close>

definition demo_parent :: aufs_inode where
  "demo_parent = demo_inode\<lparr>i_nlink := 3, i_dirty := True\<rparr>"

definition demo_child :: aufs_inode where
  "demo_child = init_new_inode ref_kernel blank_inode demo_parent (S_IFDIR OR 0x1ED) 2"

definition demo_marked :: fs where
  "demo_marked = put_inode 2 demo_child (mark_buffer_dirty 2 (put_buffer 2 [7, 0, 0, 0] (put_inode 1 demo_parent demo_town)))"

definition demo_linked :: fs where
  "demo_linked = put_inode 2
     (demo_child\<lparr>i_op := aufs_dir_inode_ops, i_fop := aufs_dir_ops, a_ops := aufs_aops, i_nlink := 2\<rparr>) demo_marked"

lemma demo_linked_facts:
  "s_blocksize demo_linked = 4" "s_fs_info demo_linked = demo_sb" "icache demo_linked 1 = Some demo_parent"
  "b_data demo_linked = (b_data demo_fs)(2 := [7, 0, 0, 0])" "\<forall>d. d \<noteq> 2 \<longrightarrow> pages demo_linked d = pages demo_town d"
  by (simp_all add: demo_linked_def demo_marked_def demo_town_def demo_open_def demo_fs_def)

lemma demo_mkdir_steps:
  "inode_inc_link_count 1 demo_town = put_inode 1 demo_parent demo_town"
  "aufs_new_inode ref_kernel demo_parent (S_IFDIR OR 0x1ED) (put_inode 1 demo_parent demo_town) = (Some 2, 0, demo_marked)"
  "inode_inc_link_count 2 (snd (set_inode_at 2 demo_marked)) = demo_linked"
proof -
  show "inode_inc_link_count 1 demo_town = put_inode 1 demo_parent demo_town"
    by (simp add: inode_inc_link_count_def demo_parent_def demo_town_def demo_open_def demo_inode_def)
  show "aufs_new_inode ref_kernel demo_parent (S_IFDIR OR 0x1ED) (put_inode 1 demo_parent demo_town) = (Some 2, 0, demo_marked)"
    unfolding demo_marked_def demo_child_def
    by (rule demo_new_inode) (simp_all add: demo_town_def demo_open_def demo_fs_def)
  have "S_ISDIR (S_IFDIR OR 0x1ED)" "\<not> S_ISREG (S_IFDIR OR 0x1ED)" by code_simp+
  then show "inode_inc_link_count 2 (snd (set_inode_at 2 demo_marked)) = demo_linked"
    unfolding demo_linked_def demo_marked_def demo_child_def
    by (simp add: inode_inc_link_count_def set_inode_at_def minix_set_inode_def init_new_inode_def ref_init_owner)
      (simp add: ref_kernel_def blank_inode_def)
qed

lemma demo_make_empty:
  obtains st where "minix_make_empty ref_kernel 2 1 demo_linked = Ret (0, st)" and "icache st 1 = Some demo_parent"
    and "s_blocksize st = 4" and "s_fs_info st = demo_sb" and "dir_ok st 1" and "dir_list st 1 = dir_list demo_town 1"
proof -
  let ?ai = "demo_child\<lparr>i_op := aufs_dir_inode_ops, i_fop := aufs_dir_ops, a_ops := aufs_aops, i_nlink := 2\<rparr>"
  let ?st4 = "put_inode 2 (?ai\<lparr>ai_zone_ptr := 196 # replicate 8 0\<rparr>) (mark_buffer_dirty 1 (put_buffer 1 [7, 0, 0, 0] demo_linked))"
  note f = demo_linked_facts
  have ic: "icache demo_linked 2 = Some ?ai" by (simp add: demo_linked_def)
  have "minix_prepare_chunk ref_kernel 2 0 128 demo_linked = Ret (0, ?st4)"
    by (rule demo_prepare_new) (simp_all add: f ic, simp_all add: demo_fs_def demo_child_def init_new_inode_def ZONE_PTR_IN_INODE_NUM_def)
  then have prep: "minix_prepare_chunk ref_kernel 2 0 (2 * AUFS_DIR_SIZE) demo_linked = Ret (0, ?st4)"
    by (simp add: AUFS_DIR_SIZE_def)
  have sz: "i_size ?ai = 0" by (simp add: demo_child_def init_new_inode_def ref_kernel_def blank_inode_def)
  have nz: "(ucast (i_ino ?ai) :: u32) \<noteq> 0" "(ucast (i_ino demo_parent) :: u32) \<noteq> 0"
    by (simp_all add: demo_child_def init_new_inode_def demo_parent_def demo_inode_def)
  have pgs: "\<forall>n. length (pages demo_linked 2 n) = 4096" by (simp add: demo_linked_def demo_marked_def demo_pages_length)
  obtain st where
    r: "minix_make_empty ref_kernel 2 1 demo_linked = Ret (if k_dirsync ref_kernel 2 then k_write_page ref_kernel 2 0 else 0, st)"
    and pg: "\<forall>d. d \<noteq> 2 \<longrightarrow> pages st d = pages demo_linked d"
    and ex: "\<exists>pg ai'. st = put_inode 2 ai' (put_page 2 0 pg ?st4)"
    by (rule ref_dir.make_empty_entries [OF ic sz f(3) nz pgs ref_kernel_sel(7) prep])
  from ex obtain pg' ai' where st: "st = put_inode 2 ai' (put_page 2 0 pg' ?st4)" by blast
  have s: "icache st 1 = Some demo_parent" "s_blocksize st = 4" "s_fs_info st = demo_sb" by (simp_all add: st f del: One_nat_def)
  have "pages st 1 = pages demo_town 1" using pg f(5) by simp
  then have "dir_ok st 1" "dir_list st 1 = dir_list demo_town 1"
    by (rule dir_ok_kept [OF demo_town_dir(2)]; use s in \<open>simp add: demo_parent_def demo_town_def demo_open_def demo_inode_def\<close>)+
  then show ?thesis using that r s unfolding ref_kernel_sel if_cancel by blast
qed

lemma demo_mkdir: obtains st' where "minix_mkdir ref_kernel 1 [100] 0x1ED demo_town = Ret (0, Some 2, st')"
proof -
  obtain st where make: "minix_make_empty ref_kernel 2 1 demo_linked = Ret (0, st)" and s: "icache st 1 = Some demo_parent"
    "s_blocksize st = 4" "s_fs_info st = demo_sb" and ok: "dir_ok st 1" "dir_list st 1 = dir_list demo_town 1"
    by (rule demo_make_empty)
  have dl: "dir_len st 1 = 2" using s(1) by (simp add: dir_len_def demo_parent_def demo_inode_def)
  let ?c = "dir_end_cleared st 1"
  have prep: "minix_prepare_chunk ref_kernel 1 (64 * dir_len st 1) AUFS_DIR_SIZE ?c = Ret (0, ?c)"
    unfolding dl
    by (rule demo_prepare [where ai = demo_parent])
      (use s in \<open>simp_all add: dir_end_cleared_def Let_def AUFS_DIR_SIZE_def demo_parent_def demo_inode_def\<close>)
  have fresh: "[100] \<notin> fst ` set (dir_list st 1)" unfolding ok(2) demo_town_dir(1) by simp
  have nm: "name_ok [100]" by (simp add: name_ok_def AUFS_NAME_LEN_def)
  have two: "(ucast (2 :: u64) :: u32) \<noteq> 0" "unat (2 :: u64) = 2" by simp_all
  obtain st' where "minix_add_link ref_kernel 1 [100] 2 st =
      Ret (if k_dirsync ref_kernel 1 then k_write_page ref_kernel 1 (dir_len st 1 div 64) else 0, st')"
    by (rule ref_dir.add_link_new [OF ok(1) nm fresh two(1) prep])
  then have link: "minix_add_link ref_kernel 1 [100] 2 st = Ret (0, st')" unfolding ref_kernel_sel if_cancel .
  have ic: "icache (put_inode 1 demo_parent demo_town) 1 = Some demo_parent" by simp
  have "minix_mkdir ref_kernel 1 [100] 0x1ED demo_town = Ret (0, Some 2, st')"
    unfolding minix_mkdir_def Let_def demo_mkdir_steps(1) ic option.case demo_mkdir_steps(2) prod.case two(2)
      demo_mkdir_steps(3) make sum.case link by simp
  then show ?thesis by (rule that)
qed

theorem mkdir_makes_directory_witness:
  "\<exists>st'. minix_mkdir ref_kernel 1 [100] 0x1ED demo_town = Ret (0, Some 2, st') \<and>
     dir_list st' 1 = [([46], 1), ([46, 46], 1), ([100], 2)] \<and> dir_list st' 2 = [([46], 2), ([46, 46], 1)]"
proof -
  obtain st' where run: "minix_mkdir ref_kernel 1 [100] 0x1ED demo_town = Ret (0, Some 2, st')"
    by (rule demo_mkdir)
  have bm: "minix_bitmap (k_bits ref_kernel)" "own_inv (k_bits ref_kernel) 4 demo_town" "name_ok [100]"
    using le_map.minix_bitmap_axioms demo_town_own by (simp_all add: name_ok_def AUFS_NAME_LEN_def)
  have sz: "i_size (k_init_owner ref_kernel blank_inode di m) = 0" for di m
    by (simp add: ref_kernel_def blank_inode_def)
  from mkdir_makes_directory [OF ref_names.name_kernel_axioms bm(1,2) ref_kernel_sel(2) sz demo_town_dir(2) bm(3)
      demo_pages_length run] run
  show ?thesis by (simp add: demo_town_dir(1) del: One_nat_def)
qed

end
