(* ===== verification/Kern_File.thy ===== *)
theory Kern_File
  imports Kern_Name_Props
begin

text \<open>
  \<^verbatim>\<open>kern/file.c\<close>, \<^verbatim>\<open>kern/itree_common.c\<close> and the attribute part of \<^verbatim>\<open>kern/inode.c\<close>: changing and
  reading the attributes of a file, and the operation tables of files and directories. The kernel's
  attribute functions are parameters.
\<close>

subsection \<open>Operation tables\<close>

text \<open>
  The operations a table of the module provides, by the slot of the kernel's structure and the
  function in it. A slot that is not listed is a null pointer.
\<close>

datatype inode_slot = I_lookup | I_create | I_mknod | I_mkdir | I_tmpfile | I_setattr | I_getattr
datatype inode_fun = F_minix_lookup | F_minix_create | F_minix_mknod | F_minix_mkdir | F_minix_tmpfile
  | F_minix_setattr | F_minix_getattr

fun aufs_dir_inode_table :: "inode_slot \<Rightarrow> inode_fun option" where
  "aufs_dir_inode_table I_lookup = Some F_minix_lookup"
| "aufs_dir_inode_table I_create = Some F_minix_create"
| "aufs_dir_inode_table I_mknod = Some F_minix_mknod"
| "aufs_dir_inode_table I_getattr = Some F_minix_getattr"
| "aufs_dir_inode_table I_mkdir = Some F_minix_mkdir"
| "aufs_dir_inode_table I_tmpfile = Some F_minix_tmpfile"
| "aufs_dir_inode_table I_setattr = None"

fun minix_file_inode_table :: "inode_slot \<Rightarrow> inode_fun option" where
  "minix_file_inode_table I_setattr = Some F_minix_setattr"
| "minix_file_inode_table I_getattr = Some F_minix_getattr"
| "minix_file_inode_table _ = None"

fun inode_operations :: "inode_ops \<Rightarrow> inode_slot \<Rightarrow> inode_fun option" where
  "inode_operations aufs_dir_inode_ops slot = aufs_dir_inode_table slot"
| "inode_operations minix_file_inode_operations slot = minix_file_inode_table slot"
| "inode_operations No_inode_ops _ = None"

datatype file_slot = O_llseek | O_read | O_read_iter | O_write_iter | O_mmap | O_iterate_shared | O_fsync
  | O_splice_read | O_splice_write
datatype file_fun = G_file_llseek | G_read_dir | G_file_read_iter | G_file_write_iter | G_file_mmap
  | F_minix_readdir | G_file_fsync | G_file_splice_read | G_iter_file_splice_write

fun aufs_file_table :: "file_slot \<Rightarrow> file_fun option" where
  "aufs_file_table O_llseek = Some G_file_llseek"
| "aufs_file_table O_read_iter = Some G_file_read_iter"
| "aufs_file_table O_mmap = Some G_file_mmap"
| "aufs_file_table O_splice_read = Some G_file_splice_read"
| "aufs_file_table O_write_iter = Some G_file_write_iter"
| "aufs_file_table O_fsync = Some G_file_fsync"
| "aufs_file_table O_splice_write = Some G_iter_file_splice_write"
| "aufs_file_table _ = None"

fun aufs_dir_table :: "file_slot \<Rightarrow> file_fun option" where
  "aufs_dir_table O_llseek = Some G_file_llseek"
| "aufs_dir_table O_read = Some G_read_dir"
| "aufs_dir_table O_iterate_shared = Some F_minix_readdir"
| "aufs_dir_table O_fsync = Some G_file_fsync"
| "aufs_dir_table _ = None"

fun file_operations :: "file_ops \<Rightarrow> file_slot \<Rightarrow> file_fun option" where
  "file_operations aufs_file_ops slot = aufs_file_table slot"
| "file_operations aufs_dir_ops slot = aufs_dir_table slot"
| "file_operations No_file_ops _ = None"

datatype aspace_slot = A_readpage | A_writepage | A_write_begin | A_write_end
datatype aspace_fun = F_aufs_readpage | F_aufs_writepage | F_minix_write_begin | G_write_end

fun address_space_operations :: "aspace_ops \<Rightarrow> aspace_slot \<Rightarrow> aspace_fun option" where
  "address_space_operations aufs_aops A_readpage = Some F_aufs_readpage"
| "address_space_operations aufs_aops A_writepage = Some F_aufs_writepage"
| "address_space_operations aufs_aops A_write_begin = Some F_minix_write_begin"
| "address_space_operations aufs_aops A_write_end = Some G_write_end"
| "address_space_operations No_aops _ = None"

subsection \<open>Attributes\<close>

text \<open>\<^verbatim>\<open>struct iattr\<close>: the attributes to change and the mask that says which.\<close>

record iattr =
  ia_valid :: u32
  ia_mode :: u16
  ia_uid :: u32
  ia_gid :: u32
  ia_size :: nat

definition ATTR_SIZE :: u32 where "ATTR_SIZE = 8"

text \<open>The fields of \<^verbatim>\<open>struct kstat\<close> the module sets.\<close>

record kstat =
  stat_size :: u64
  stat_blocks :: u64
  stat_blksize :: u32

text \<open>
  The kernel's attribute functions: \<^verbatim>\<open>setattr_prepare\<close> and \<^verbatim>\<open>inode_newsize_ok\<close> give an error number,
  \<^verbatim>\<open>truncate_setsize\<close> works on the inode's size and pages, \<^verbatim>\<open>setattr_copy\<close> on the inode,
  \<^verbatim>\<open>generic_fillattr\<close> fills a \<^verbatim>\<open>kstat\<close>.
\<close>

record attr_api =
  a_setattr_prepare :: "nat \<Rightarrow> iattr \<Rightarrow> fs \<Rightarrow> int"
  a_newsize_ok :: "nat \<Rightarrow> nat \<Rightarrow> fs \<Rightarrow> int"
  a_truncate_setsize :: "nat \<Rightarrow> nat \<Rightarrow> fs \<Rightarrow> fs"
  a_setattr_copy :: "aufs_inode \<Rightarrow> iattr \<Rightarrow> aufs_inode"
  a_fillattr :: "aufs_inode \<Rightarrow> kstat"

definition setattr_size :: "attr_api \<Rightarrow> nat \<Rightarrow> iattr \<Rightarrow> aufs_inode \<Rightarrow> fs \<Rightarrow> int \<times> fs" where
  "setattr_size a no attr ai st =
     (if ia_valid attr AND ATTR_SIZE \<noteq> 0 \<and> ia_size attr \<noteq> i_size ai then
        let error = a_newsize_ok a no (ia_size attr) st
        in if error \<noteq> 0 then (error, st) else (0, a_truncate_setsize a no (ia_size attr) st)
      else (0, st))"

definition minix_setattr :: "attr_api \<Rightarrow> nat \<Rightarrow> iattr \<Rightarrow> fs \<Rightarrow> (int \<times> fs) cres" where
  "minix_setattr a no attr st =
     (case icache st no of
        None \<Rightarrow> Fault NullDeref
      | Some ai \<Rightarrow>
          let error = a_setattr_prepare a no attr st
          in if error \<noteq> 0 then Ret (error, st)
             else
               (case setattr_size a no attr ai st of
                  (error, st1) \<Rightarrow>
                    if error \<noteq> 0 then Ret (error, st1)
                    else (case icache st1 no of
                            None \<Rightarrow> Fault NullDeref
                          | Some ai1 \<Rightarrow> Ret (0, mark_inode_dirty no (put_inode no (a_setattr_copy a ai1 attr) st1)))))"

text \<open>
  \<^verbatim>\<open>nblocks\<close> at the widths of the code: the size and the block size are 64-bit words, the shift is an
  int, the result an unsigned int.
\<close>

definition nblocks :: "u64 \<Rightarrow> u64 \<Rightarrow> u8 \<Rightarrow> u32" where
  "nblocks sz blocksize blocksize_bits =
     (let k = ucast blocksize_bits - 10 :: u32
      in ucast (drop_bit (unat (10 + k)) (sz + blocksize - 1)))"

definition V2_minix_blocks :: "u64 \<Rightarrow> u64 \<Rightarrow> u8 \<Rightarrow> u32" where
  "V2_minix_blocks sz blocksize blocksize_bits = nblocks sz blocksize blocksize_bits"

definition minix_getattr :: "attr_api \<Rightarrow> u8 \<Rightarrow> nat \<Rightarrow> fs \<Rightarrow> (int \<times> kstat) cres" where
  "minix_getattr a s_blocksize_bits no st =
     (case icache st no of
        None \<Rightarrow> Fault NullDeref
      | Some ai \<Rightarrow>
          let stat = a_fillattr a ai
          in Ret (0, stat\<lparr>stat_blocks := s_blocksize st div 512 *
                                        ucast (V2_minix_blocks (stat_size stat) (s_blocksize st) s_blocksize_bits),
                         stat_blksize := ucast (s_blocksize st)\<rparr>))"

subsection \<open>What the module relies on\<close>

locale attr_kernel =
  fixes a :: attr_api
  assumes truncate_setsize: "icache st no = Some ai \<Longrightarrow>
      \<exists>pgs. a_truncate_setsize a no sz st = put_inode no (ai\<lparr>i_size := sz\<rparr>) (st\<lparr>pages := pgs\<rparr>)"
    and copy_keeps: "ai_zone_ptr (a_setattr_copy a ai attr) = ai_zone_ptr ai"
      "i_ino (a_setattr_copy a ai attr) = i_ino ai" "i_size (a_setattr_copy a ai attr) = i_size ai"
    and fillattr_size: "stat_size (a_fillattr a ai) = of_nat (i_size ai)"
begin

lemma setattr_size_cases:
  assumes "icache st no = Some ai" and "setattr_size a no attr ai st = (e, st1)"
  obtains "e \<noteq> 0" and "st1 = st"
    | "e = 0" and "icache st1 = (icache st)(no \<mapsto> ai\<lparr>i_size := if ia_valid attr AND ATTR_SIZE \<noteq> 0
          then ia_size attr else i_size ai\<rparr>)" and "(fs_step bo)\<^sup>*\<^sup>* st st1" and "b_data st1 = b_data st"
proof (cases "ia_valid attr AND ATTR_SIZE \<noteq> 0 \<and> ia_size attr \<noteq> i_size ai")
  case True
  show ?thesis
  proof (cases "a_newsize_ok a no (ia_size attr) st = 0")
    case ok: True
    obtain pgs where t: "a_truncate_setsize a no (ia_size attr) st =
        put_inode no (ai\<lparr>i_size := ia_size attr\<rparr>) (st\<lparr>pages := pgs\<rparr>)"
      using truncate_setsize [OF assms(1)] by blast
    then have s1: "e = 0" "st1 = put_inode no (ai\<lparr>i_size := ia_size attr\<rparr>) (st\<lparr>pages := pgs\<rparr>)"
      using True ok assms(2) by (auto simp: setattr_size_def)
    have "fs_step bo st (st\<lparr>pages := pgs\<rparr>)" by (rule step_pages)
    moreover have "(fs_step bo)\<^sup>*\<^sup>* (st\<lparr>pages := pgs\<rparr>) (put_inode no (ai\<lparr>i_size := ia_size attr\<rparr>) (st\<lparr>pages := pgs\<rparr>))"
      by (rule touch_steps [where ai = ai]) (use assms(1) in simp_all)
    ultimately have "(fs_step bo)\<^sup>*\<^sup>* st st1"
      unfolding s1(2) by (rule converse_rtranclp_into_rtranclp)
    then show ?thesis using that(2) s1 True by simp
  qed (use True assms(2) that(1) in \<open>auto simp: setattr_size_def Let_def\<close>)
next
  case False
  then have "ai\<lparr>i_size := if ia_valid attr AND ATTR_SIZE \<noteq> 0 then ia_size attr else i_size ai\<rparr> = ai" by auto
  then show ?thesis using False assms that(2) by (auto simp: setattr_size_def fun_upd_idem)
qed

lemma setattr_cases:
  assumes ai: "icache st no = Some ai" and run: "minix_setattr a no attr st = Ret (e, st')"
  obtains "e \<noteq> 0" and "st' = st"
    | ai' where "e = 0" and "icache st' = (icache st)(no \<mapsto> ai')" and "i_dirty ai'"
      and "i_size ai' = (if ia_valid attr AND ATTR_SIZE \<noteq> 0 then ia_size attr else i_size ai)"
      and "ai_zone_ptr ai' = ai_zone_ptr ai" and "(fs_step bo)\<^sup>*\<^sup>* st st'" and "b_data st' = b_data st"
proof (cases "a_setattr_prepare a no attr st = 0")
  case True
  obtain e1 st1 where s: "setattr_size a no attr ai st = (e1, st1)" by fastforce
  from setattr_size_cases [OF ai s, where bo = bo] show ?thesis
  proof cases
    case 1
    then show ?thesis using that(1) run ai True s by (simp add: minix_setattr_def Let_def)
  next
    case 2
    let ?ai1 = "ai\<lparr>i_size := if ia_valid attr AND ATTR_SIZE \<noteq> 0 then ia_size attr else i_size ai\<rparr>"
    let ?ai2 = "(a_setattr_copy a ?ai1 attr)\<lparr>i_dirty := True\<rparr>"
    have ic: "icache st1 no = Some ?ai1" using 2 by simp
    have st': "e = 0" "st' = put_inode no ?ai2 st1"
      using run ai True s 2(1,2) by (simp_all add: minix_setattr_def Let_def mark_inode_dirty_def)
    have "(fs_step bo)\<^sup>*\<^sup>* st1 st'"
      unfolding st'(2) by (rule touch_steps [OF ic]) (simp_all add: copy_keeps)
    then show ?thesis using that(2) [of ?ai2] st' 2 by (simp add: copy_keeps steps_trans [OF 2(3)])
  qed
qed (use assms that(1) in \<open>simp add: minix_setattr_def Let_def\<close>)

end

text \<open>The attribute functions, as the kernel documents them.\<close>

definition ref_attr :: attr_api where
  "ref_attr =
     \<lparr>a_setattr_prepare = (\<lambda>_ _ _. 0), a_newsize_ok = (\<lambda>_ sz _. if sz < 2 ^ 32 then 0 else - 27),
      a_truncate_setsize = (\<lambda>no sz st. case icache st no of None \<Rightarrow> st | Some ai \<Rightarrow> put_inode no (ai\<lparr>i_size := sz\<rparr>) st),
      a_setattr_copy = (\<lambda>ai attr. ai\<lparr>i_mode := if ia_valid attr AND 1 = 0 then i_mode ai else ia_mode attr\<rparr>),
      a_fillattr = (\<lambda>ai. \<lparr>stat_size = of_nat (i_size ai), stat_blocks = i_blocks ai, stat_blksize = 0\<rparr>)\<rparr>"

interpretation ref_attrs: attr_kernel ref_attr
proof (unfold_locales, goal_cases)
  case (1 st no ai sz)
  then show ?case by (intro exI [of _ "pages st"]) (simp add: ref_attr_def)
qed (simp_all add: ref_attr_def)


subsection \<open>Counting blocks\<close>

lemma nblocks_eq:
  assumes bits: "bits \<le> 20" and bs: "unat blocksize = 2 ^ bits" and sz: "sz < 4294967296"
  shows "unat (nblocks (of_nat sz) blocksize (of_nat bits)) * 2 ^ bits = align_up sz (2 ^ bits)"
proof -
  let ?m = "2 ^ bits :: nat"
  have m: "0 < ?m" "?m \<le> 1048576"
    using bits power_increasing [of bits 20 "2 :: nat"] by simp_all
  have "unat (of_nat bits :: u8) = bits" using bits by (intro unat_of_nat_small) simp
  then have shift: "unat (ucast (of_nat bits :: u8) :: u32) = bits"
    using bits by (simp add: unsigned_ucast_eq take_bit_nat_eq_self_iff)
  have "unat (of_nat sz :: u64) = sz" using sz by (intro unat_of_nat_small) simp
  then have "unat (of_nat sz + blocksize) = sz + ?m" using bs m sz by (simp add: unat_add_no_wrap)
  then have sum: "unat (of_nat sz + blocksize - 1) = sz + ?m - 1"
    using m by (subst unat_minus_one) auto
  have "sz + ?m - 1 < (sz + 1) * ?m" using m(1) by (cases ?m) simp_all
  then have "(sz + ?m - 1) div ?m < sz + 1" by (rule less_mult_imp_div_less)
  then have small: "(sz + ?m - 1) div ?m < 4294967296" using sz by simp
  have "unat (drop_bit bits (of_nat sz + blocksize - 1)) = (sz + ?m - 1) div ?m"
    by (simp add: unat_drop_bit_u64 sum)
  then have "unat (nblocks (of_nat sz) blocksize (of_nat bits)) = (sz + ?m - 1) div ?m"
    using small by (simp add: nblocks_def shift unat_ucast_u64_u32)
  then show ?thesis by (simp add: align_up_def)
qed


subsection \<open>Properties\<close>

text \<open>
  C33: changing attributes either fails and changes nothing, or sets the size (when asked to) and marks the
  inode dirty. It keeps the zone pointers and the bitmaps: shortening a file releases no zone.
\<close>

theorem setattr_keeps_zones:
  assumes "attr_kernel a" and "icache st no = Some ai" and "minix_setattr a no attr st = Ret (e, st')"
  shows "if e \<noteq> 0 then st' = st
    else \<exists>ai'. icache st' = (icache st)(no \<mapsto> ai') \<and> i_dirty ai' \<and> ai_zone_ptr ai' = ai_zone_ptr ai \<and>
           i_size ai' = (if ia_valid attr AND ATTR_SIZE \<noteq> 0 then ia_size attr else i_size ai) \<and>
           b_data st' = b_data st"
  using attr_kernel.setattr_cases [OF assms] by metis

theorem setattr_keeps_zones_witness:
  "\<exists>st' ai'. minix_setattr ref_attr 1 \<lparr>ia_valid = 8, ia_mode = 0, ia_uid = 0, ia_gid = 0, ia_size = 0\<rparr> demo_open =
       Ret (0, st') \<and> icache st' 1 = Some ai' \<and> i_size ai' = 0 \<and> ai_zone_ptr ai' = 4 # replicate 8 0"
proof -
  let ?attr = "\<lparr>ia_valid = 8, ia_mode = 0, ia_uid = 0, ia_gid = 0, ia_size = 0\<rparr>"
  have ic: "icache demo_open 1 = Some demo_inode" by (simp add: demo_open_def)
  have "\<exists>st'. minix_setattr ref_attr 1 ?attr demo_open = Ret (0, st')"
    by (simp add: minix_setattr_def setattr_size_def ref_attr_def ATTR_SIZE_def ic demo_inode_def del: One_nat_def)
  then obtain st' where run: "minix_setattr ref_attr 1 ?attr demo_open = Ret (0, st')" by blast
  from setattr_keeps_zones [OF ref_attrs.attr_kernel_axioms ic run] run show ?thesis
    by (auto simp: ATTR_SIZE_def demo_inode_def)
qed

text \<open>
  C34: for a file below 4 GiB on blocks of a power of two from 512 bytes up to one megabyte, the block count reported for a
  file, in units of 512 bytes, is its size rounded up to a whole number of blocks.
\<close>

theorem getattr_blocks:
  assumes "attr_kernel a" and "icache st no = Some ai" and "i_size ai < 4294967296"
    and "unat (s_blocksize st) = 2 ^ bits" and "9 \<le> bits" and "bits \<le> 20"
  shows "\<exists>stat. minix_getattr a (of_nat bits) no st = Ret (0, stat) \<and>
    stat_size stat = of_nat (i_size ai) \<and> unat (stat_blksize stat) = 2 ^ bits \<and>
    512 * unat (stat_blocks stat) = align_up (i_size ai) (2 ^ bits)"
proof -
  let ?bs = "s_blocksize st" and ?n = "nblocks (of_nat (i_size ai)) (s_blocksize st) (of_nat bits)"
  note nb = nblocks_eq [OF assms(6,4,3)]
  have m: "(2 :: nat) ^ bits \<le> 1048576" using power_increasing [OF assms(6), of "2 :: nat"] by simp
  obtain q where q: "(2 :: nat) ^ bits = 512 * q"
    using assms(5) le_imp_power_dvd [of 9 bits "2 :: nat"] by (auto elim: dvdE)
  then have d: "unat (?bs div 512) = q" using assms(4) by (simp add: unat_div)
  have "q \<le> 2048" using q m by simp
  then have "q * unat ?n \<le> 2048 * 4294967296" using unat_u32_less [of ?n] by (intro mult_le_mono) simp_all
  then have "q * unat ?n < 18446744073709551616" by simp
  then have "unat (?bs div 512 * ucast ?n) = q * unat ?n"
    using d by (simp add: unat_mult_no_wrap)
  moreover have "unat (ucast ?bs :: u32) = 2 ^ bits" using assms(4) m by (simp add: unat_ucast_u64_u32)
  moreover have "512 * (q * unat ?n) = align_up (i_size ai) (2 ^ bits)" using nb q by (simp add: ac_simps)
  ultimately show ?thesis
    using assms(2) attr_kernel.fillattr_size [OF assms(1)]
    by (simp add: minix_getattr_def V2_minix_blocks_def Let_def)
qed

theorem getattr_blocks_witness:
  "\<exists>stat. minix_getattr ref_attr 12 1 (demo_open\<lparr>s_blocksize := 4096\<rparr>) = Ret (0, stat) \<and>
     512 * unat (stat_blocks stat) = 4096"
proof -
  have "icache (demo_open\<lparr>s_blocksize := 4096\<rparr>) 1 = Some demo_inode" by (simp add: demo_open_def)
  from getattr_blocks [OF ref_attrs.attr_kernel_axioms this, of 12] show ?thesis
    by (auto simp: demo_inode_def align_up_def)
qed

text \<open>
  Every inode in the cache has the tables of its file type: directories the directory operations, regular files
  the file operations.
\<close>

definition tables_typed :: "aufs_inode \<Rightarrow> bool" where
  "tables_typed ai \<longleftrightarrow>
     (S_ISDIR (i_mode ai) \<longrightarrow> inode_operations (i_op ai) I_lookup = Some F_minix_lookup \<and>
        inode_operations (i_op ai) I_create = Some F_minix_create \<and> inode_operations (i_op ai) I_mkdir = Some F_minix_mkdir \<and>
        file_operations (i_fop ai) O_iterate_shared = Some F_minix_readdir \<and> file_operations (i_fop ai) O_write_iter = None) \<and>
     (S_ISREG (i_mode ai) \<longrightarrow> inode_operations (i_op ai) I_lookup = None \<and> inode_operations (i_op ai) I_create = None \<and>
        inode_operations (i_op ai) I_setattr = Some F_minix_setattr \<and> file_operations (i_fop ai) O_iterate_shared = None \<and>
        file_operations (i_fop ai) O_write_iter = Some G_file_write_iter) \<and>
     address_space_operations (a_ops ai) A_write_begin = Some F_minix_write_begin \<and>
     (S_ISDIR (i_mode ai) \<or> S_ISREG (i_mode ai))"

lemma not_dir_and_reg: "S_ISREG m \<Longrightarrow> \<not> S_ISDIR m"
  by (simp add: S_ISREG_def S_ISDIR_def S_IFREG_def S_IFDIR_def)

text \<open>
  C35: an inode \<^verbatim>\<open>aufs_inode_get\<close> loads and an inode \<^verbatim>\<open>minix_set_inode\<close> accepts are a directory or a regular file, and
  have the operation tables of that type: name operations exactly on directories, data writes exactly on files.
\<close>

theorem inodes_get_tables_of_type:
  "(aufs_inode_get k no st = Ret (Inr i, st') \<and> icache st (unat no) = None \<longrightarrow>
      (\<exists>ai. icache st' i = Some ai \<and> tables_typed ai)) \<and>
   (minix_set_inode ai = (0, ai') \<longrightarrow> tables_typed ai')"
proof -
  have "tables_typed ai'" if "minix_set_inode ai = (0, ai')"
    using that by (auto simp: minix_set_inode_def tables_typed_def dest: not_dir_and_reg split: if_splits)
  moreover have "\<exists>ai. icache st' i = Some ai \<and> tables_typed ai"
    if "aufs_inode_get k no st = Ret (Inr i, st')" "icache st (unat no) = None"
    using that by (auto simp: aufs_inode_get_def tables_typed_def Let_def dest: not_dir_and_reg
        split: option.splits if_splits)
  ultimately show ?thesis by blast
qed

theorem inodes_get_tables_of_type_witness:
  "tables_typed (snd (minix_set_inode (demo_inode\<lparr>i_mode := 0x81A4\<rparr>))) \<and> \<not> tables_typed (demo_inode\<lparr>i_mode := 0xA000\<rparr>)"
proof -
  have "S_ISREG 0x81A4" "\<not> S_ISREG 0xA000" "\<not> S_ISDIR 0xA000" by code_simp+
  then have "minix_set_inode (demo_inode\<lparr>i_mode := 0x81A4\<rparr>) =
      (0, snd (minix_set_inode (demo_inode\<lparr>i_mode := 0x81A4\<rparr>)))" "\<not> tables_typed (demo_inode\<lparr>i_mode := 0xA000\<rparr>)"
    by (simp_all add: minix_set_inode_def tables_typed_def)
  with inodes_get_tables_of_type show ?thesis by blast
qed

end
