(* ===== verification/Kern_Module.thy ===== *)
theory Kern_Module
  imports Aufs_Prelude
begin

text \<open>
  The inode objects and the life of the module (\<^verbatim>\<open>kern/super.c\<close>): creation and destruction of the slab cache,
  deferred freeing of inode objects, registration. The kernel's grace periods are steps of their own: a deferred
  callback runs at some later time, or at the latest in \<^verbatim>\<open>rcu_barrier\<close>.
\<close>

subsection \<open>State and operations\<close>

text \<open>
  \<open>inode_cache\<close> is \<^verbatim>\<open>aufs_inode_cache\<close>: \<open>None\<close> is the null pointer, \<open>Some live\<close> a cache with its allocated
  objects. \<open>rcu_pending\<close> holds the objects handed to \<^verbatim>\<open>call_rcu\<close>, in order; \<open>lost\<close> the objects that were still
  allocated when their cache was destroyed.
\<close>

record module =
  inode_cache :: "nat set option"
  rcu_pending :: "nat list"
  registered :: bool
  lost :: "nat set"

definition aufs_inode_alloc :: "nat option \<Rightarrow> module \<Rightarrow> (nat option \<times> module) cres" where
  "aufs_inode_alloc obj ms =
     (case inode_cache ms of
        None \<Rightarrow> Fault NullDeref
      | Some live \<Rightarrow>
          (case obj of
             None \<Rightarrow> Ret (None, ms)
           | Some inode \<Rightarrow> Ret (Some inode, ms\<lparr>inode_cache := Some (insert inode live)\<rparr>)))"

definition aufs_free_callback :: "nat \<Rightarrow> module \<Rightarrow> module cres" where
  "aufs_free_callback inode ms =
     (case inode_cache ms of
        None \<Rightarrow> Fault NullDeref
      | Some live \<Rightarrow>
          if inode \<in> live then Ret (ms\<lparr>inode_cache := Some (live - {inode})\<rparr>) else Fault UseAfterFree)"

definition aufs_inode_free :: "nat \<Rightarrow> module \<Rightarrow> module" where
  "aufs_inode_free inode ms = ms\<lparr>rcu_pending := rcu_pending ms @ [inode]\<rparr>"

text \<open>\<^verbatim>\<open>rcu_barrier\<close>: the pending callbacks run, the oldest first.\<close>

fun run_callbacks :: "nat list \<Rightarrow> module \<Rightarrow> module cres" where
  "run_callbacks [] ms = Ret ms"
| "run_callbacks (x # xs) ms =
     (case aufs_free_callback x ms of Inl f \<Rightarrow> Fault f | Inr ms' \<Rightarrow> run_callbacks xs ms')"

definition aufs_inode_cache_create :: "bool \<Rightarrow> module \<Rightarrow> int \<times> module" where
  "aufs_inode_cache_create created ms =
     (if created then (0, ms\<lparr>inode_cache := Some {}\<rparr>) else (- ENOMEM, ms\<lparr>inode_cache := None\<rparr>))"

definition aufs_inode_cache_destroy :: "module \<Rightarrow> module cres" where
  "aufs_inode_cache_destroy ms =
     (case run_callbacks (rcu_pending ms) (ms\<lparr>rcu_pending := []\<rparr>) of
        Inl f \<Rightarrow> Fault f
      | Inr ms1 \<Rightarrow>
          Ret (ms1\<lparr>inode_cache := None,
                   lost := lost ms1 \<union> (case inode_cache ms1 of None \<Rightarrow> {} | Some live \<Rightarrow> live)\<rparr>))"

text \<open>\<open>created\<close> and \<open>reg\<close> are the results of \<^verbatim>\<open>kmem_cache_create\<close> and \<^verbatim>\<open>register_filesystem\<close>.\<close>

definition aufs_init :: "bool \<Rightarrow> int \<Rightarrow> module \<Rightarrow> (int \<times> module) cres" where
  "aufs_init created reg ms =
     (case aufs_inode_cache_create created ms of
        (ret, ms1) \<Rightarrow>
          if ret \<noteq> 0 then Ret (ret, ms1)
          else if reg \<noteq> 0 then
            (case aufs_inode_cache_destroy ms1 of Inl f \<Rightarrow> Fault f | Inr ms2 \<Rightarrow> Ret (reg, ms2))
          else Ret (0, ms1\<lparr>registered := True\<rparr>))"

definition aufs_fini :: "int \<Rightarrow> module \<Rightarrow> module cres" where
  "aufs_fini unreg ms =
     aufs_inode_cache_destroy (if unreg = 0 then ms\<lparr>registered := False\<rparr> else ms)"

subsection \<open>The module as a state machine\<close>

definition module_start :: module where
  "module_start = \<lparr>inode_cache = None, rcu_pending = [], registered = False, lost = {}\<rparr>"

text \<open>The inode objects the kernel holds: allocated and not handed back.\<close>

definition held :: "module \<Rightarrow> nat set" where
  "held ms = (case inode_cache ms of None \<Rightarrow> {} | Some live \<Rightarrow> live - set (rcu_pending ms))"

text \<open>
  What the kernel does with the module: it loads it when it is not loaded, allocates inodes only while it is loaded
  (an object that is not allocated already), hands back only objects it holds, runs deferred callbacks in order, and
  unloads the module only when it holds no inode.
\<close>

inductive mod_step :: "module \<Rightarrow> module \<Rightarrow> bool" where
  load: "inode_cache ms = None \<Longrightarrow> aufs_init created reg ms = Ret (ret, ms') \<Longrightarrow> mod_step ms ms'"
| alloc: "inode_cache ms = Some live \<Longrightarrow> (\<forall>x. obj = Some x \<longrightarrow> x \<notin> live) \<Longrightarrow>
    aufs_inode_alloc obj ms = Ret (r, ms') \<Longrightarrow> mod_step ms ms'"
| free: "x \<in> held ms \<Longrightarrow> mod_step ms (aufs_inode_free x ms)"
| grace: "rcu_pending ms = x # xs \<Longrightarrow> aufs_free_callback x (ms\<lparr>rcu_pending := xs\<rparr>) = Ret ms' \<Longrightarrow> mod_step ms ms'"
| unload: "held ms = {} \<Longrightarrow> inode_cache ms \<noteq> None \<Longrightarrow> aufs_fini 0 ms = Ret ms' \<Longrightarrow> mod_step ms ms'"

inductive_cases mod_stepE: "mod_step ms ms'"

definition mod_inv :: "module \<Rightarrow> bool" where
  "mod_inv ms \<longleftrightarrow>
     distinct (rcu_pending ms) \<and> lost ms = {} \<and>
     (case inode_cache ms of
        None \<Rightarrow> rcu_pending ms = [] \<and> \<not> registered ms
      | Some live \<Rightarrow> set (rcu_pending ms) \<subseteq> live)"

lemma mod_inv_start: "mod_inv module_start"
  by (simp add: mod_inv_def module_start_def)

lemma run_callbacks_ok:
  "inode_cache ms = Some live \<Longrightarrow> distinct xs \<Longrightarrow> set xs \<subseteq> live \<Longrightarrow>
     run_callbacks xs ms = Ret (ms\<lparr>inode_cache := Some (live - set xs)\<rparr>)"
proof (induction xs arbitrary: ms live)
  case (Cons x xs)
  then have "aufs_free_callback x ms = Ret (ms\<lparr>inode_cache := Some (live - {x})\<rparr>)"
    by (simp add: aufs_free_callback_def)
  moreover have "live - insert x (set xs) = live - {x} - set xs" by auto
  moreover have "set xs \<subseteq> live - {x}" using Cons.prems by auto
  ultimately show ?case
    using Cons.IH [of "ms\<lparr>inode_cache := Some (live - {x})\<rparr>" "live - {x}"] Cons.prems by simp
qed simp

lemma cache_destroy_ok:
  assumes "mod_inv ms"
  shows "aufs_inode_cache_destroy ms =
    Ret (ms\<lparr>inode_cache := None, rcu_pending := [], lost := held ms\<rparr>)"
proof (cases "inode_cache ms")
  case None
  then show ?thesis using assms by (simp add: aufs_inode_cache_destroy_def mod_inv_def held_def)
next
  case (Some live)
  have "run_callbacks (rcu_pending ms) (ms\<lparr>rcu_pending := []\<rparr>) =
      Ret (ms\<lparr>rcu_pending := [], inode_cache := Some (live - set (rcu_pending ms))\<rparr>)"
    by (rule run_callbacks_ok) (use assms Some in \<open>simp_all add: mod_inv_def\<close>)
  then show ?thesis using Some assms by (simp add: aufs_inode_cache_destroy_def held_def mod_inv_def)
qed

lemma init_result:
  assumes "mod_inv ms" and "inode_cache ms = None"
  shows "aufs_init created reg ms =
    Ret (if \<not> created then (- ENOMEM, ms) else if reg \<noteq> 0 then (reg, ms)
         else (0, ms\<lparr>inode_cache := Some {}, registered := True\<rparr>))"
proof -
  have "mod_inv (ms\<lparr>inode_cache := Some {}\<rparr>)" using assms by (simp add: mod_inv_def)
  note d = cache_destroy_ok [OF this]
  have "ms\<lparr>inode_cache := None\<rparr> = ms" "rcu_pending ms = []" "lost ms = {}" using assms by (simp_all add: mod_inv_def)
  then have "ms\<lparr>inode_cache := None, rcu_pending := [], lost := {}\<rparr> = ms" by simp
  then show ?thesis
    using assms d by (simp add: aufs_init_def aufs_inode_cache_create_def held_def mod_inv_def)
qed

lemma fini_result:
  assumes "mod_inv ms" and "inode_cache ms \<noteq> None"
  shows "aufs_fini 0 ms = Ret (ms\<lparr>registered := False, inode_cache := None, rcu_pending := [], lost := held ms\<rparr>)"
proof -
  have "mod_inv (ms\<lparr>registered := False\<rparr>)" using assms by (auto simp: mod_inv_def)
  moreover have "held (ms\<lparr>registered := False\<rparr>) = held ms" by (simp add: held_def split: option.split)
  ultimately show ?thesis using cache_destroy_ok [of "ms\<lparr>registered := False\<rparr>"] by (simp add: aufs_fini_def)
qed

lemma mod_step_inv:
  assumes "mod_step ms ms'" and inv: "mod_inv ms"
  shows "mod_inv ms'"
  using assms(1)
proof cases
  case (load created reg ret)
  then show ?thesis using init_result [OF inv, of created reg] inv by (auto simp: mod_inv_def split: if_splits)
next
  case (alloc live obj r)
  then show ?thesis using inv by (auto simp: aufs_inode_alloc_def mod_inv_def split: option.splits)
next
  case (free x)
  then show ?thesis using inv by (auto simp: aufs_inode_free_def mod_inv_def held_def split: option.splits)
next
  case (grace x xs)
  then show ?thesis using inv by (auto simp: aufs_free_callback_def mod_inv_def split: option.splits if_splits)
next
  case unload
  then show ?thesis using fini_result [OF inv] by (auto simp: mod_inv_def)
qed

lemma mod_steps_inv: "mod_step\<^sup>*\<^sup>* ms ms' \<Longrightarrow> mod_inv ms \<Longrightarrow> mod_inv ms'"
  by (induction rule: rtranclp_induct) (auto intro: mod_step_inv)

subsection \<open>Properties\<close>

text \<open>
  C31: after any sequence of loads, allocations, frees, grace periods and unloads, a deferred callback finds its cache and
  its object, so no callback touches freed memory or frees an object twice.
\<close>

theorem module_callbacks_safe:
  assumes "mod_step\<^sup>*\<^sup>* module_start ms" and "rcu_pending ms = x # xs"
  shows "\<exists>live. inode_cache ms = Some live \<and> x \<in> live \<and> x \<notin> set xs \<and>
    aufs_free_callback x (ms\<lparr>rcu_pending := xs\<rparr>) = Ret (ms\<lparr>rcu_pending := xs, inode_cache := Some (live - {x})\<rparr>)"
  using mod_steps_inv [OF assms(1) mod_inv_start] assms(2)
  by (auto simp: mod_inv_def aufs_free_callback_def split: option.splits)

lemma demo_module:
  "mod_step\<^sup>*\<^sup>* module_start \<lparr>inode_cache = Some {7}, rcu_pending = [7], registered = True, lost = {}\<rparr>"
proof -
  let ?a = "\<lparr>inode_cache = Some {}, rcu_pending = [], registered = True, lost = {}\<rparr> :: module"
  let ?b = "\<lparr>inode_cache = Some {7}, rcu_pending = [], registered = True, lost = {}\<rparr> :: module"
  have "mod_step module_start ?a"
    by (rule load [where created = True and reg = 0 and ret = 0])
      (simp_all add: module_start_def aufs_init_def aufs_inode_cache_create_def)
  moreover have "mod_step ?a ?b"
    by (rule alloc [where live = "{}" and obj = "Some 7" and r = "Some 7"]) (simp_all add: aufs_inode_alloc_def)
  moreover have "mod_step ?b (aufs_inode_free 7 ?b)" by (rule free) (simp add: held_def)
  ultimately show ?thesis by (simp add: aufs_inode_free_def)
qed

theorem module_callbacks_safe_witness:
  "aufs_free_callback 7 \<lparr>inode_cache = Some {7}, rcu_pending = [], registered = True, lost = {}\<rparr> =
     Ret \<lparr>inode_cache = Some {}, rcu_pending = [], registered = True, lost = {}\<rparr>"
  using module_callbacks_safe [OF demo_module, of 7 "[]"] by simp

text \<open>
  C32: unloading the module when the kernel holds no inode always completes, runs every deferred callback, and leaves no
  allocated object behind; loading it either registers the file system with an empty cache or fails without a trace.
\<close>

theorem module_unload_drains:
  assumes "mod_step\<^sup>*\<^sup>* module_start ms"
  shows "(held ms = {} \<and> inode_cache ms \<noteq> None \<longrightarrow>
      aufs_fini 0 ms = Ret (ms\<lparr>registered := False, inode_cache := None, rcu_pending := [], lost := {}\<rparr>)) \<and>
    (inode_cache ms = None \<longrightarrow>
      aufs_init created reg ms =
        Ret (if \<not> created then (- ENOMEM, ms) else if reg \<noteq> 0 then (reg, ms)
             else (0, ms\<lparr>inode_cache := Some {}, registered := True\<rparr>)))"
proof -
  have inv: "mod_inv ms" by (rule mod_steps_inv [OF assms mod_inv_start])
  show ?thesis
  proof (intro conjI impI)
    assume "held ms = {} \<and> inode_cache ms \<noteq> None"
    then show "aufs_fini 0 ms = Ret (ms\<lparr>registered := False, inode_cache := None, rcu_pending := [], lost := {}\<rparr>)"
      using fini_result [OF inv] by simp
  qed (rule init_result [OF inv])
qed

theorem module_unload_drains_witness:
  "aufs_fini 0 \<lparr>inode_cache = Some {7}, rcu_pending = [7], registered = True, lost = {}\<rparr> = Ret module_start"
  using module_unload_drains [OF demo_module] by (simp add: held_def module_start_def)

end
