(* ===== verification/Kern_Data.thy ===== *)
theory Kern_Data
  imports Kern_Block_Props
begin

text \<open>
  The contents of files. The block mapping callback decides where the blocks of a file lie; the
  kernel reads and writes the buffers of the blocks it returns. Here the contents of all files
  are the map \<open>contents\<close> from an inode number and a file block to its bytes, and a run of writes
  through \<^verbatim>\<open>aufs_get_block\<close>, with any other activity of the module between them, is refined to
  updates of that map.
\<close>

subsection \<open>Reading and writing blocks of files\<close>

text \<open>
  The kernel's generic functions call the mapping with the create flag set for a write and
  cleared for a read, and then use the buffer of the disk block they get.
\<close>

definition file_write :: "bitops \<Rightarrow> nat \<Rightarrow> nat \<Rightarrow> bytes \<Rightarrow> fs \<Rightarrow> (int \<times> fs) cres" where
  "file_write bo no ib d st =
     (case aufs_get_block bo no (of_nat ib) (s_blocksize st) True st of
        Inl f \<Rightarrow> Fault f
      | Inr (e, None, st1) \<Rightarrow> Ret (e, st1)
      | Inr (e, Some b, st1) \<Rightarrow> Ret (e, put_buffer (unat b) d st1))"

definition file_read :: "bitops \<Rightarrow> nat \<Rightarrow> nat \<Rightarrow> fs \<Rightarrow> (int \<times> bytes option \<times> fs) cres" where
  "file_read bo no ib st =
     (case aufs_get_block bo no (of_nat ib) (s_blocksize st) False st of
        Inl f \<Rightarrow> Fault f
      | Inr (e, None, st1) \<Rightarrow> Ret (e, None, st1)
      | Inr (e, Some b, st1) \<Rightarrow> Ret (e, Some (b_data st1 (unat b)), st1))"

definition contents :: "bitops \<Rightarrow> fs \<Rightarrow> nat \<times> nat \<rightharpoonup> bytes" where
  "contents bo st = (\<lambda>(no, ib).
     if no \<in> live_inodes bo st \<and> mapped st no ib then Some (b_data st (file_block st no ib)) else None)"

text \<open>
  A write that has a zone to go to: the file block is inside the nine zones and mapped, or a zone
  is free.
\<close>

definition writes_block :: "bitops \<Rightarrow> nat \<times> nat \<Rightarrow> bytes \<Rightarrow> fs \<Rightarrow> fs \<Rightarrow> bool" where
  "writes_block bo p d st st' \<longleftrightarrow>
     snd p div bpz st < ZONE_PTR_IN_INODE_NUM \<and>
     (mapped st (fst p) (snd p) \<or> used_zones bo st \<noteq> {..< n_zones st}) \<and>
     file_write bo (fst p) (snd p) d st = Ret (0, st')"

text \<open>
  Everything else the module does, in any order: mapping blocks, allocating, loading inodes in use, storing and dropping
  inodes, changes of the other fields and of pages. An inode that is dropped before its zone pointers are on disk loses them; \<open>L\<close> is
  the set of these inodes.
\<close>

definition zones_stored :: "fs \<Rightarrow> nat \<Rightarrow> bool" where
  "zones_stored st no \<longleftrightarrow>
     (\<forall>i < ZONE_PTR_IN_INODE_NUM. zone_of st no i = disk_zone st no i)"

inductive quiet_step :: "bitops \<Rightarrow> nat set \<Rightarrow> fs \<Rightarrow> fs \<Rightarrow> bool" for bo :: bitops and L :: "nat set" where
  quiet_get_block:
    "aufs_get_block bo no ib (s_blocksize st) create st = Ret (e, m, st') \<Longrightarrow> quiet_step bo L st st'"
| quiet_new_inode:
    "k_bits k = bo \<Longrightarrow> aufs_new_inode k dir mode st = (r, e, st') \<Longrightarrow> quiet_step bo L st st'"
| quiet_inode_get:
    "no \<in> live_inodes bo st \<Longrightarrow> aufs_inode_get k (of_nat no) st = Ret (r, st') \<Longrightarrow> quiet_step bo L st st'"
| quiet_writeback:
    "writeback_inode k no sync_all st = Ret (e, st') \<Longrightarrow> quiet_step bo L st st'"
| quiet_evict:
    "zones_stored st no \<or> no \<in> L \<Longrightarrow> quiet_step bo L st (evict_inode no st)"
| quiet_touch:
    "icache st no = Some ai \<Longrightarrow> ai_zone_ptr ai' = ai_zone_ptr ai \<Longrightarrow> i_ino ai' = i_ino ai \<Longrightarrow>
     quiet_step bo L st (put_inode no ai' st)"
| quiet_pages:
    "quiet_step bo L st (st\<lparr>pages := pgs\<rparr>)"
| quiet_dirty:
    "quiet_step bo L st (mark_buffer_dirty bh st)"

lemma quiet_fs_step: "quiet_step bo L st st' \<Longrightarrow> fs_step bo st st'"
  by (induction rule: quiet_step.induct) (auto intro: fs_step.intros)

subsection \<open>What keeps the contents\<close>

definition keeps_files :: "bitops \<Rightarrow> fs \<Rightarrow> fs \<Rightarrow> bool" where
  "keeps_files bo st st' \<longleftrightarrow>
     AUFS_SB st' = AUFS_SB st \<and> live_inodes bo st \<subseteq> live_inodes bo st' \<and>
     (\<forall>no \<in> live_inodes bo st. \<forall>i < ZONE_PTR_IN_INODE_NUM.
        zone_of st no i \<noteq> 0 \<longrightarrow> zone_of st' no i = zone_of st no i) \<and>
     (\<forall>b. meta_end (AUFS_SB st) \<le> b \<longrightarrow> b_data st' b = b_data st b)"

lemma keeps_refl [simp]: "keeps_files bo st st"
  by (simp add: keeps_files_def)

lemma keeps_blocks:
  assumes "keeps_files bo st st'" and "no \<in> live_inodes bo st" and "mapped st no ib"
  shows "mapped st' no ib" and "file_block st' no ib = file_block st no ib"
  using assms by (auto simp: keeps_files_def mapped_def file_block_def)

lemma keeps_contents:
  assumes "own_inv bo rb st" and "keeps_files bo st st'"
  shows "contents bo st \<subseteq>\<^sub>m contents bo st'"
proof -
  have "contents bo st' (no, ib) = contents bo st (no, ib)"
    if "no \<in> live_inodes bo st" "mapped st no ib" for no ib
    using that keeps_blocks [OF assms(2) that] file_block_not_meta [OF assms(1) that] assms(2)
    by (auto simp: contents_def keeps_files_def)
  then show ?thesis by (fastforce simp: map_le_def contents_def split: if_splits)
qed

text \<open>Buffers of a bitmap or of the inode table are no data blocks.\<close>

lemma map_below_meta:
  assumes "layout_inv bo rb st"
  shows "bh \<in> set (s_zmap (AUFS_SB st)) \<Longrightarrow> bh < meta_end (AUFS_SB st)"
    and "bh \<in> set (s_imap (AUFS_SB st)) \<Longrightarrow> bh < meta_end (AUFS_SB st)"
proof -
  have zm: "s_zmap (AUFS_SB st) = [1..<1 + unat (asb_zone_map_blocks (AUFS_SB st))]"
    and im: "s_imap (AUFS_SB st) =
       [1 + unat (asb_zone_map_blocks (AUFS_SB st))..<
        1 + unat (asb_zone_map_blocks (AUFS_SB st)) + unat (asb_inode_map_blocks (AUFS_SB st))]"
    using assms by (simp_all only: layout_inv_def)
  show "bh \<in> set (s_zmap (AUFS_SB st)) \<Longrightarrow> bh < meta_end (AUFS_SB st)"
    "bh \<in> set (s_imap (AUFS_SB st)) \<Longrightarrow> bh < meta_end (AUFS_SB st)"
    unfolding zm im meta_end_def by auto
qed

lemma frame_data:
  assumes "layout_inv bo rb st" and "map_frame bhs st st'"
    and "bhs = s_zmap (AUFS_SB st) \<or> bhs = s_imap (AUFS_SB st)" and "meta_end (AUFS_SB st) \<le> b"
  shows "b_data st' b = b_data st b"
proof -
  have "b \<notin> set bhs" using map_below_meta [OF assms(1)] assms(3,4) by (metis leD)
  then show ?thesis using assms(2) by (simp add: map_frame_def)
qed


lemma keeps_get_block:
  assumes bm: "minix_bitmap bo" and inv: "own_inv bo rb st"
    and run: "aufs_get_block bo no ib (s_blocksize st) create st = Ret (e, m, st')"
  shows "keeps_files bo st st'"
proof -
  have lay: "layout_inv bo rb st" using inv by (simp add: own_inv_def)
  from bm lay run show ?thesis
  proof (cases rule: get_block_cases)
    case (alloc ai idx z st1 p)
    note f = frame_zones [OF lay alloc(12) disjI1 [OF refl]]
      and zo = zone_of_frame [OF lay alloc(12) disjI1 [OF refl] alloc(13)]
    have keep: "unat ((ai_zone_ptr ai)[idx := p] ! i) = unat (ai_zone_ptr ai ! i)"
      if "0 < unat (ai_zone_ptr ai ! i)" for i
      using that alloc(4) by (cases "i = idx") auto
    show ?thesis
      using frame_data [OF lay alloc(12) disjI1 [OF refl]] live_inodes_frame [OF alloc(10) f(2)] alloc(1) keep
      by (auto simp: keeps_files_def alloc(5) f zo zone_of_def [of st no])
  qed simp
qed

lemma keeps_new_inode:
  assumes bm: "minix_bitmap (k_bits k)" and inv: "own_inv (k_bits k) rb st"
    and run: "aufs_new_inode k dir mode st = (r, e, st')"
  shows "keeps_files (k_bits k) st st'"
proof -
  let ?bo = "k_bits k"
  have lay: "layout_inv ?bo rb st" using inv by (simp add: own_inv_def)
  from bm lay run show ?thesis
  proof (cases rule: new_inode_cases)
    case (alloc ino0 z st1)
    note f = frame_zones [OF lay alloc(10) disjI2 [OF refl]]
      and zo = zone_of_frame [OF lay alloc(10) disjI2 [OF refl] alloc(11)]
    have "z \<notin> live_inodes ?bo st" "live_inodes ?bo st \<subseteq> live_inodes ?bo st1"
      using alloc(6,7) f(2) by (auto simp: live_inodes_def)
    then show ?thesis
      using frame_data [OF lay alloc(10) disjI2 [OF refl]] by (auto simp: keeps_files_def alloc(3) f zo)
  qed simp
qed

lemma keeps_same_zones:
  assumes "AUFS_SB st' = AUFS_SB st" and "live_inodes bo st' = live_inodes bo st"
    and "\<And>no i. i < ZONE_PTR_IN_INODE_NUM \<Longrightarrow> zone_of st' no i = zone_of st no i"
    and "\<And>b. meta_end (AUFS_SB st) \<le> b \<Longrightarrow> b_data st' b = b_data st b"
  shows "keeps_files bo st st'"
  using assms by (simp add: keeps_files_def)


lemma keeps_writeback:
  assumes inv: "own_inv bo rb st" and run: "writeback_inode k no sync_all st = Ret (e, st')"
  shows "keeps_files bo st st'"
  using inv run
proof (cases rule: writeback_cases)
  case (written ai)
  let ?bh = "inode_blk (AUFS_SB st) no"
  have lay: "layout_inv bo rb st" and live: "no \<in> live_inodes bo st"
    using inv written(1) by (auto simp: own_inv_def cache_inv_def)
  note same = layout_other_buffer [OF lay inode_blk_not_map [OF lay] written(3-5)]
  note dz = written_zones [OF inv written(1) refl written(2,3) same(3)]
  have "?bh < meta_end (AUFS_SB st)" using live by (rule live_blk_below_meta)
  then show ?thesis
    using written dz by (intro keeps_same_zones) (auto simp: same zone_of_def split: option.split)
qed simp


lemma keeps_inode_get:
  assumes inv: "own_inv bo rb st" and no: "no \<in> live_inodes bo st"
    and run: "aufs_inode_get k (of_nat no) st = Ret (r, st')"
  shows "keeps_files bo st st'"
proof -
  have lay: "layout_inv bo rb st" using inv by (simp add: own_inv_def)
  from lay no run show ?thesis
  proof (cases rule: inode_get_cases)
    case (loaded ai)
    then have "zone_of st' m i = zone_of st m i" if "i < ZONE_PTR_IN_INODE_NUM" for m i
      using that by (simp add: zone_of_def [of st no])
    then show ?thesis by (intro keeps_same_zones) (simp_all add: loaded(1))
  qed simp
qed

lemma keeps_evict:
  assumes "zones_stored st no"
  shows "keeps_files bo st (evict_inode no st)"
proof (rule keeps_same_zones)
  have dz: "disk_zone (evict_inode no st) m i = disk_zone st m i" for m i
    by (simp add: disk_zone_def AUFS_SB_def)
  show "zone_of (evict_inode no st) m i = zone_of st m i" if "i < ZONE_PTR_IN_INODE_NUM" for m i
    using assms that dz by (auto simp: zones_stored_def zone_of_def split: option.splits)
qed (simp_all add: AUFS_SB_def live_inodes_def used_inodes_def area_used_def zone_bits_def)

lemma keeps_same_stores:
  assumes "b_data st' = b_data st" and "icache st' = icache st" and "s_fs_info st' = s_fs_info st"
    and "s_blocksize st' = s_blocksize st"
  shows "keeps_files bo st st'"
proof (rule keeps_same_zones)
  show "zone_of st' m i = zone_of st m i" for m i
    using assms by (simp add: zone_of_def disk_zone_def AUFS_SB_def split: option.split)
qed (use assms in \<open>simp_all add: AUFS_SB_def live_inodes_def used_inodes_def area_used_def zone_bits_def\<close>)

text \<open>Dropping an inode whose pointers are not stored keeps the contents of the others.\<close>

abbreviation outside :: "nat set \<Rightarrow> (nat \<times> nat) set" where
  "outside L \<equiv> {p. fst p \<notin> L}"

lemma evict_contents:
  assumes "no \<in> L"
  shows "contents bo (evict_inode no st) |` outside L = contents bo st |` outside L"
proof -
  have "zone_of (evict_inode no st) m i = zone_of st m i" if "m \<notin> L" for m i
    using assms that by (auto simp: zone_of_def disk_zone_def AUFS_SB_def split: option.split)
  moreover have "live_inodes bo (evict_inode no st) = live_inodes bo st"
    by (simp add: AUFS_SB_def live_inodes_def used_inodes_def area_used_def zone_bits_def)
  ultimately show ?thesis
    by (auto simp: fun_eq_iff restrict_map_def contents_def mapped_def file_block_def AUFS_SB_def)
qed

lemma restrict_le: "m \<subseteq>\<^sub>m m' \<Longrightarrow> m |` A \<subseteq>\<^sub>m m'"
  by (auto simp: map_le_def restrict_map_def split: if_splits)

lemma keeps_outside: "own_inv bo rb st \<Longrightarrow> keeps_files bo st st' \<Longrightarrow> contents bo st |` outside L \<subseteq>\<^sub>m contents bo st'"
  by (intro restrict_le keeps_contents)

lemma quiet_contents:
  assumes "quiet_step bo L st st'" and "minix_bitmap bo" and "own_inv bo rb st"
  shows "contents bo st |` outside L \<subseteq>\<^sub>m contents bo st'"
  using assms
proof (induction rule: quiet_step.induct)
  case (quiet_evict st no)
  then show ?case
  proof (cases "no \<in> L")
    case True
    have "contents bo (evict_inode no st) |` outside L \<subseteq>\<^sub>m contents bo (evict_inode no st)" by (simp add: restrict_le)
    then show ?thesis by (simp only: evict_contents [OF True])
  qed (auto intro: keeps_outside keeps_evict)
next
  case (quiet_touch st no ai ai')
  then show ?case by (intro keeps_outside keeps_same_zones) (auto simp: zone_of_def [of st no])
qed (auto intro!: keeps_outside intro: keeps_get_block keeps_new_inode keeps_inode_get keeps_writeback keeps_same_stores)

subsection \<open>The contract of a store of file blocks\<close>

text \<open>
  A store of blocks by key, as far as the keys \<open>K\<close> are concerned: a write sets its key and keeps the others, a quiet step keeps all.
  Keys that had no contents may get some.
\<close>

locale block_files =
  fixes inv :: "'s \<Rightarrow> bool" and holds :: "'s \<Rightarrow> 'p \<rightharpoonup> 'd"
    and writes :: "'p \<Rightarrow> 'd \<Rightarrow> 's \<Rightarrow> 's \<Rightarrow> bool" and quiet :: "'s \<Rightarrow> 's \<Rightarrow> bool"
    and K :: "'p set"
  assumes writes_inv: "inv s \<Longrightarrow> writes p d s s' \<Longrightarrow> inv s'"
    and writes_holds: "inv s \<Longrightarrow> writes p d s s' \<Longrightarrow> (holds s)(p \<mapsto> d) |` K \<subseteq>\<^sub>m holds s'"
    and quiet_inv: "inv s \<Longrightarrow> quiet s s' \<Longrightarrow> inv s'"
    and quiet_holds: "inv s \<Longrightarrow> quiet s s' \<Longrightarrow> holds s |` K \<subseteq>\<^sub>m holds s'"

inductive store_run ::
    "('p \<Rightarrow> 'd \<Rightarrow> 's \<Rightarrow> 's \<Rightarrow> bool) \<Rightarrow> ('s \<Rightarrow> 's \<Rightarrow> bool) \<Rightarrow> ('p \<times> 'd) list \<Rightarrow> 's \<Rightarrow> 's \<Rightarrow> bool"
  for writes quiet where
  run_none: "store_run writes quiet [] s s"
| run_quiet: "store_run writes quiet ws s s1 \<Longrightarrow> quiet s1 s2 \<Longrightarrow> store_run writes quiet ws s s2"
| run_write: "store_run writes quiet ws s s1 \<Longrightarrow> writes p d s1 s2 \<Longrightarrow>
    store_run writes quiet (ws @ [(p, d)]) s s2"

text \<open>One more step behind a map that is kept on \<open>K\<close>.\<close>

lemma restrict_le_trans:
  assumes "m |` K \<subseteq>\<^sub>m m1" and "m1 |` K \<subseteq>\<^sub>m m2"
  shows "m |` K \<subseteq>\<^sub>m m2"
  using assms by (auto simp: map_le_def dom_def restrict_map_def)

lemma restrict_le_upd: "m |` K \<subseteq>\<^sub>m m1 \<Longrightarrow> m(p \<mapsto> d) |` K \<subseteq>\<^sub>m m1(p \<mapsto> d)"
  by (auto simp: map_le_def dom_def restrict_map_def)

context block_files
begin

lemma run_refines:
  assumes "store_run writes quiet ws s s'" and "inv s"
  shows "inv s' \<and> (holds s ++ map_of (rev ws)) |` K \<subseteq>\<^sub>m holds s'"
  using assms
proof (induction rule: store_run.induct)
  case (run_none s)
  then show ?case by (simp add: restrict_le)
next
  case (run_quiet ws s s1 s2)
  then show ?case using quiet_inv quiet_holds restrict_le_trans by blast
next
  case (run_write ws s s1 p d s2)
  then have "inv s1" and le: "(holds s ++ map_of (rev ws)) |` K \<subseteq>\<^sub>m holds s1" by simp_all
  note w = \<open>writes p d s1 s2\<close>
  have "(holds s ++ map_of (rev ws))(p \<mapsto> d) |` K \<subseteq>\<^sub>m holds s2"
    by (rule restrict_le_trans [OF restrict_le_upd [OF le] writes_holds [OF \<open>inv s1\<close> w]])
  moreover have "map_of (rev (ws @ [(p, d)])) = (map_of (rev ws))(p \<mapsto> d)" by (simp add: fun_eq_iff)
  ultimately show ?case using writes_inv [OF \<open>inv s1\<close> w] by (simp only: map_add_upd simp_thms)
qed

end


subsection \<open>The module's files meet the contract\<close>

lemma file_index_word:
  assumes "own_inv bo rb st" and "ib div bpz st < ZONE_PTR_IN_INODE_NUM"
  shows "unat (of_nat ib :: u64) = ib"
proof -
  have b: "0 < bpz st" "bpz st \<le> 1048576"
    using assms(1) by (auto simp: own_inv_def layout_inv_def maps_ok_def asb_ok_def)
  have "ib < 9 * bpz st"
    using assms(2) b(1) by (simp add: ZONE_PTR_IN_INODE_NUM_def div_less_iff_less_mult mult.commute)
  then show ?thesis using b(2) by (intro unat_of_nat_small) simp
qed

lemma writes_block_result:
  assumes bm: "minix_bitmap bo" and inv: "own_inv bo rb st" and w: "writes_block bo (no, ib) d st st'"
  obtains st1 where "keeps_files bo st st1" and "own_inv bo rb st1" and "no \<in> live_inodes bo st1"
    and "mapped st1 no ib" and "st' = put_buffer (file_block st1 no ib) d st1"
proof -
  have idx: "ib div bpz st < ZONE_PTR_IN_INODE_NUM"
    and avail: "mapped st no ib \<or> used_zones bo st \<noteq> {..< n_zones st}"
    and run: "file_write bo no ib d st = Ret (0, st')"
    using w by (simp_all add: writes_block_def)
  note un = file_index_word [OF inv idx]
  obtain ai where ai: "icache st no = Some ai"
    using run by (cases "icache st no") (auto simp: file_write_def aufs_get_block_def)
  note live = cached_live [OF inv ai]
  obtain b st1 where gb: "aufs_get_block bo no (of_nat ib) (s_blocksize st) True st = Ret (0, Some b, st1)"
    and b: "unat b = file_block st1 no ib" and st1: "mapped st1 no ib" "own_inv bo rb st1"
      "live_inodes bo st1 = live_inodes bo st"
    using get_block_result [OF bm inv ai, of "of_nat ib" True] idx avail un by metis
  show ?thesis
  proof (rule that)
    show "keeps_files bo st st1" using keeps_get_block [OF bm inv gb] .
    show "st' = put_buffer (file_block st1 no ib) d st1" using run gb b by (simp add: file_write_def)
  qed (use st1 live in simp_all)
qed

lemma put_data_contents:
  assumes inv: "own_inv bo rb st" and live: "no \<in> live_inodes bo st" and m: "mapped st no ib"
  shows "own_inv bo rb (put_buffer (file_block st no ib) d st)"
    and "contents bo (put_buffer (file_block st no ib) d st) = (contents bo st)((no, ib) \<mapsto> d)"
proof -
  define b where "b = file_block st no ib"
  have meta: "meta_end (AUFS_SB st) \<le> b" unfolding b_def using inv live m by (rule file_block_not_meta)
  show "own_inv bo rb (put_buffer (file_block st no ib) d st)" unfolding b_def [symmetric] using inv meta by (rule data_own_inv)
  have lay: "layout_inv bo rb st" using inv by (simp add: own_inv_def)
  have "b \<notin> set (s_zmap (AUFS_SB st))" "b \<notin> set (s_imap (AUFS_SB st))"
    using map_below_meta [OF lay] meta by (metis leD)+
  note same = layout_other_buffer [OF lay this put_buffer_sel(1,4,3)]
  have zo: "zone_of (put_buffer b d st) n i = zone_of st n i" if "n \<in> live_inodes bo st" for n i
  proof -
    have "inode_blk (AUFS_SB st) n \<noteq> b" using meta live_blk_below_meta [OF that] by simp
    then show ?thesis by (simp add: zone_of_def disk_zone_def same split: option.split)
  qed
  have fb: "mapped (put_buffer b d st) n jb = mapped st n jb"
      "file_block (put_buffer b d st) n jb = file_block st n jb" if "n \<in> live_inodes bo st" for n jb
    using zo [OF that] by (simp_all add: mapped_def file_block_def same)
  have "contents bo (put_buffer b d st) (n, jb) = ((contents bo st)((no, ib) \<mapsto> d)) (n, jb)" for n jb
  proof (cases "(n, jb) = (no, ib)")
    case True
    then show ?thesis using live m fb [OF live] by (simp add: contents_def same flip: b_def)
  next
    case False
    have "file_block st n jb \<noteq> b" if "n \<in> live_inodes bo st" "mapped st n jb"
      unfolding b_def using file_blocks_disjoint [OF inv that(1) live that(2) m] False by blast
    then show ?thesis using False fb by (cases "n \<in> live_inodes bo st") (auto simp: contents_def same)
  qed
  then show "contents bo (put_buffer (file_block st no ib) d st) = (contents bo st)((no, ib) \<mapsto> d)"
    unfolding b_def by (intro ext) (metis surj_pair)
qed

sublocale minix_bitmap \<subseteq> files: block_files "own_inv bo rb" "contents bo" "writes_block bo" "quiet_step bo L" "outside L"
  for rb L
proof
  fix s s'
  assume inv: "own_inv bo rb s" and q: "quiet_step bo L s s'"
  show "own_inv bo rb s'" using quiet_fs_step [OF q] minix_bitmap_axioms inv by (rule step_own_inv)
  show "contents bo s |` outside L \<subseteq>\<^sub>m contents bo s'" using q minix_bitmap_axioms inv by (rule quiet_contents)
next
  fix s s' p d
  assume inv: "own_inv bo rb s" and w: "writes_block bo p d s s'"
  obtain no ib where p: "p = (no, ib)" by (cases p)
  obtain s1 where k: "keeps_files bo s s1" and s1: "own_inv bo rb s1" "no \<in> live_inodes bo s1" "mapped s1 no ib"
    and s': "s' = put_buffer (file_block s1 no ib) d s1"
    using writes_block_result [OF minix_bitmap_axioms inv w [unfolded p]] by metis
  show "own_inv bo rb s'" unfolding s' using s1 by (rule put_data_contents(1))
  have "contents bo s \<subseteq>\<^sub>m contents bo s1" using inv k by (rule keeps_contents)
  then have "(contents bo s)(p \<mapsto> d) \<subseteq>\<^sub>m contents bo s'"
    unfolding s' p put_data_contents(2) [OF s1] by (rule map_le_upd)
  then show "(contents bo s)(p \<mapsto> d) |` outside L \<subseteq>\<^sub>m contents bo s'" by (rule restrict_le)
qed

context minix_bitmap
begin

lemmas file_run_refines = files.run_refines

end

lemma file_read_mapped:
  assumes inv: "own_inv bo rb st" and ai: "icache st no = Some ai" and c: "contents bo st (no, ib) = Some d"
  shows "file_read bo no ib st = Ret (0, Some d, st)"
proof -
  have live: "no \<in> live_inodes bo st" and m: "mapped st no ib" and d: "d = b_data st (file_block st no ib)"
    using c by (auto simp: contents_def split: if_splits)
  let ?p = "ai_zone_ptr ai ! (ib div bpz st)"
  have idx: "ib div bpz st < ZONE_PTR_IN_INODE_NUM" using m by (simp add: mapped_def)
  have g: "geometry_ok st" using inv by (simp add: own_inv_def layout_inv_def)
  note un = file_index_word [OF inv idx]
  have zq: "zone_of st no (ib div bpz st) = unat ?p" using ai by (simp add: zone_of_def)
  then have p0: "?p \<noteq> 0" using m by (auto simp: mapped_def)
  have small: "unat ?p + ib mod bpz st < 4294967296"
    using file_block_word [OF inv live m] zq by (simp add: file_block_def)
  then have "unat (of_nat (ib mod bpz st) :: u64) = ib mod bpz st" by (intro unat_of_nat_small) simp
  then have "unat (of_nat (ib mod bpz st) + ?p) = file_block st no ib"
    using small zq by (simp add: unat_add_no_wrap file_block_def)
  moreover have "aufs_get_block bo no (of_nat ib) (s_blocksize st) False st =
      Ret (0, Some (of_nat (ib mod bpz st) + ?p), st)"
    using get_block_mapped [OF g ai, of "of_nat ib" bo False] un idx p0 by simp
  ultimately show ?thesis using d by (simp add: file_read_def)
qed

subsection \<open>Properties\<close>

text \<open>
  C3: the contents of the files behave as a map. Take a run, from a state with the ownership invariant, of block writes through
  \<^verbatim>\<open>aufs_get_block\<close>, each to a block inside the nine zones that is mapped or finds a free zone, with other activity of the module between
  them: mapping, allocation, loading inodes in use, storing and dropping inodes. For every file but those in \<open>L\<close>, the inodes that were
  dropped before their zone pointers were on disk, every block that was written holds what was written last and every other block holds
  what it held. Reading a mapped block of a cached inode through the block mapping returns its contents without changing the state.
\<close>

theorem file_data_refines_map:
  assumes "minix_bitmap bo" and "own_inv bo rb st0"
    and "store_run (writes_block bo) (quiet_step bo L) ws st0 st"
  shows "(contents bo st0 ++ map_of (rev ws)) |` {p. fst p \<notin> L} \<subseteq>\<^sub>m contents bo st \<and>
    (\<forall>no ib d. icache st no \<noteq> None \<longrightarrow> contents bo st (no, ib) = Some d \<longrightarrow>
       file_read bo no ib st = Ret (0, Some d, st))"
  using minix_bitmap.file_run_refines [OF assms(1,3,2)] file_read_mapped by blast

lemma demo_write:
  "\<exists>st ai. store_run (writes_block le_bitops) (quiet_step le_bitops {}) [((1, 64), [7, 8])] demo_open st \<and>
           icache st 1 = Some ai"
proof -
  obtain st' ai where run: "aufs_get_block le_bitops 1 64 4 True demo_open = Ret (0, Some 196, st')"
    and ai: "icache st' 1 = Some ai"
    using demo_get_block by blast
  then have "file_write le_bitops 1 64 [7, 8] demo_open = Ret (0, put_buffer 196 [7, 8] st')"
    by (simp add: file_write_def demo_open_facts)
  then have "writes_block le_bitops (1, 64) [7, 8] demo_open (put_buffer 196 [7, 8] st')"
    by (simp add: writes_block_def demo_open_facts ZONE_PTR_IN_INODE_NUM_def)
  from run_write [OF run_none [of _ _ demo_open], of "writes_block le_bitops", OF this, of "quiet_step le_bitops {}"] ai
  show ?thesis by (intro exI [of _ "put_buffer 196 [7, 8] st'"]) simp
qed

theorem file_data_refines_map_witness:
  "\<exists>st. file_read le_bitops 1 64 st = Ret (0, Some [7, 8], st) \<and>
        contents le_bitops st (1, 0) = contents le_bitops demo_open (1, 0)"
proof -
  obtain st ai where run: "store_run (writes_block le_bitops) (quiet_step le_bitops {}) [((1, 64), [7, 8])] demo_open st"
    and ai: "icache st 1 = Some ai"
    using demo_write by blast
  note r = file_data_refines_map [OF le_map.minix_bitmap_axioms demo_open_own run]
  have "contents le_bitops st (1, 64) = Some [7, 8]"
    using conjunct1 [OF r] by (auto simp: map_le_def dom_def restrict_map_def)
  moreover have "contents le_bitops demo_open (1, 0) \<noteq> None"
    by (simp add: contents_def demo_open_facts)
  then have "contents le_bitops st (1, 0) = contents le_bitops demo_open (1, 0)"
    using conjunct1 [OF r] by (auto simp: map_le_def dom_def map_add_def restrict_map_def)
  ultimately show ?thesis using r ai by blast
qed

text \<open>
  C18: while a zone is free, reading a block of a cached file inside its nine zones that has no zone, as in a hole, gives the file the least unused zone
  although the create flag is not set; the read returns what the disk held at the block of the
  zone, and every other block of the file in that zone also has the old bytes of the disk.
\<close>

theorem hole_read_exposes_old_data:
  assumes bm: "minix_bitmap bo" and inv: "own_inv bo rb st" and ai: "icache st no = Some ai"
    and idx: "ib div bpz st < ZONE_PTR_IN_INODE_NUM" and hole: "\<not> mapped st no ib"
    and avail: "used_zones bo st \<noteq> {..< n_zones st}"
  shows "\<exists>z st'. z \<notin> used_zones bo st \<and> {..< z} \<subseteq> used_zones bo st \<and>
    used_zones bo st' = insert z (used_zones bo st) \<and>
    file_read bo no ib st = Ret (0, Some (b_data st (zone_loc rb (AUFS_SB st) z + ib mod bpz st)), st') \<and>
    (\<forall>jb. jb div bpz st = ib div bpz st \<longrightarrow>
       contents bo st' (no, jb) = Some (b_data st (zone_loc rb (AUFS_SB st) z + jb mod bpz st)))"
proof -
  let ?q = "ib div bpz st"
  have lay: "layout_inv bo rb st" and live: "no \<in> live_inodes bo st"
    using inv ai by (auto simp: own_inv_def cache_inv_def)
  note un = file_index_word [OF inv idx]
  have zero: "zone_of st no ?q = 0" using hole idx by (simp add: mapped_def)
  obtain z b st' where gb: "aufs_get_block bo no (of_nat ib) (s_blocksize st) False st = Ret (0, Some b, st')"
    and b: "unat b = zone_loc rb (AUFS_SB st) z + ib mod bpz st" "meta_end (AUFS_SB st) \<le> zone_loc rb (AUFS_SB st) z"
    and z: "z \<notin> used_zones bo st" "{..< z} \<subseteq> used_zones bo st" "used_zones bo st' = insert z (used_zones bo st)"
    and st': "live_inodes bo st' = live_inodes bo st" "AUFS_SB st' = AUFS_SB st"
    and zo: "\<And>m j. zone_of st' m j = (if m = no \<and> j = ?q then zone_loc rb (AUFS_SB st) z else zone_of st m j)"
    and data: "\<And>x. x \<notin> set (s_zmap (AUFS_SB st)) \<Longrightarrow> b_data st' x = b_data st x"
    by (rule get_block_fresh [where create = False and ib = "of_nat ib", unfolded un, OF bm inv ai idx zero avail]) (rule that)
  have same: "b_data st' (zone_loc rb (AUFS_SB st) z + r) = b_data st (zone_loc rb (AUFS_SB st) z + r)" for r
    using map_below_meta(1) [OF lay] b(2) by (intro data) (metis add_leD1 leD le_trans le_add1)
  have "contents bo st' (no, jb) = Some (b_data st (zone_loc rb (AUFS_SB st) z + jb mod bpz st))" if "jb div bpz st = ?q" for jb
    using that live st' b(2) idx same by (simp add: contents_def mapped_def file_block_def zo meta_end_def)
  moreover have "file_read bo no ib st = Ret (0, Some (b_data st (zone_loc rb (AUFS_SB st) z + ib mod bpz st)), st')"
    using gb b(1) same by (simp add: file_read_def)
  ultimately show ?thesis using z by blast
qed


theorem hole_read_exposes_old_data_witness:
  "\<exists>st'. file_read le_bitops 1 64 (put_buffer 196 [6, 6, 6, 6] demo_open) = Ret (0, Some [6, 6, 6, 6], st') \<and>
         used_zones le_bitops st' = {0, 1, 2}"
proof -
  let ?st = "put_buffer 196 [6, 6, 6, 6] demo_open"
  have inv: "own_inv le_bitops 4 ?st"
    by (rule data_own_inv [OF demo_open_own]) (simp add: demo_open_facts)
  have facts: "AUFS_SB ?st = AUFS_SB demo_open" "zone_start (AUFS_SB demo_open) 2 = 196"
    "s_zmap (AUFS_SB demo_open) = [1]"
    by (simp_all add: AUFS_SB_def demo_open_def zone_start_def data_start_def align_up_def demo_fs_def demo_sb_def)
  have open_used: "used_zones le_bitops demo_open = {0, 1}" by (simp add: demo_open_def demo_used)
  then have used: "used_zones le_bitops ?st = {0, 1}" "n_zones ?st = n_zones demo_open"
    using area_other(1) [of 196 "[1]" "zone_bits demo_open" le_bitops "[6, 6, 6, 6]" demo_open]
    by (simp_all add: used_zones_def n_zones_def facts zone_bits_def demo_open_facts)
  have avail: "used_zones le_bitops ?st \<noteq> {..< n_zones ?st}"
    unfolding used using demo_open_facts(6) open_used by simp
  have hole: "\<not> mapped ?st 1 64"
    by (simp add: mapped_def zone_of_def facts demo_open_facts demo_inode_def)
  obtain z st' where z: "z \<notin> used_zones le_bitops ?st" "{..< z} \<subseteq> used_zones le_bitops ?st"
    and st': "used_zones le_bitops st' = insert z (used_zones le_bitops ?st)"
    "file_read le_bitops 1 64 ?st = Ret (0, Some (b_data ?st (zone_loc 4 (AUFS_SB ?st) z + 64 mod bpz ?st)), st')"
    using hole_read_exposes_old_data [OF le_map.minix_bitmap_axioms inv _ _ hole avail, of demo_inode]
    by (force simp: facts demo_open_facts ZONE_PTR_IN_INODE_NUM_def)
  from z have z2: "z = 2" unfolding used by (rule demo_least)
  have "used_zones le_bitops st' = {0, 1, 2}" using st'(1) unfolding used z2 by auto
  moreover have "b_data ?st (zone_loc 4 (AUFS_SB ?st) z + 64 mod bpz ?st) = [6, 6, 6, 6]"
    by (simp add: z2 zone_loc_def facts demo_open_facts)
  ultimately show ?thesis using st'(2) by auto
qed

end
