(* ===== verification/Kern_Locking.thy ===== *)
theory Kern_Locking
  imports Kern_Block_Props
begin

text \<open>
  Concurrent calls of the two allocators of \<^verbatim>\<open>kern/bitmap.c\<close>. A call is a thread with a program
  counter and its local variables; the threads share the buffers and the spin lock \<^verbatim>\<open>bitmap_lock\<close>.
  A step of the system is one step of one thread, in any order. Every finished interleaving is
  shown to have the results and the bitmaps of the sequential calls in some order, and every
  interleaving finishes.
\<close>

subsection \<open>Calls and their steps\<close>

datatype alloc_call = New_zone | New_inode aufs_inode u16

text \<open>The zone block, or the inode pointer (by its number) together with the error number stored through \<^verbatim>\<open>error\<close>.\<close>

datatype alloc_result = Zone_result "u32 cres" | Inode_result "u64 option" int

text \<open>
  The places of the two functions between accesses to shared data, with the values of \<^verbatim>\<open>i\<close> and
  \<^verbatim>\<open>j\<close>: before taking the lock, searching, before setting the bit, before releasing the lock,
  before marking the buffer dirty and, for an inode, before it is set up.
\<close>

datatype alloc_pc =
    Z_lock u32 | Z_find u32 | Z_skip u32 | Z_set u32 u32 | Z_unlock u32 u32 | Z_dirty u32 u32
  | I_start | I_lock | I_find u32 | I_full | I_set u32 u64 | I_unlock u32 u64 | I_dirty u32 u64 | I_init u64
  | Returned alloc_result

definition zone_value :: "fs \<Rightarrow> u32 \<Rightarrow> u32 \<Rightarrow> u32 cres" where
  "zone_value st i j =
     (let j' = j + i * bits_per_block st
      in if sint j' < 0 then Ret 0
         else if asb_alignment_num_blocks (AUFS_SB st) = 0 then Fault DivByZero
         else Ret (ucast (zone_block (AUFS_SB st) (scast j'))))"

text \<open>
  One step of the thread \<open>t\<close>: the next place, the lock and the state, or \<open>None\<close> while it spins or
  after it returned. The lock holds the number of the thread that took it.
\<close>

fun zone_step ::
    "bitops \<Rightarrow> nat \<Rightarrow> alloc_pc \<Rightarrow> nat option \<Rightarrow> fs \<Rightarrow> (alloc_pc \<times> nat option \<times> fs) option" where
  "zone_step bo t (Z_lock i) lk st =
     (if \<not> scast i < asb_zone_map_blocks (AUFS_SB st) then Some (Returned (Zone_result (Ret 0)), lk, st)
      else if lk = None then Some (Z_find i, Some t, st) else None)"
| "zone_step bo t (Z_find i) lk st =
     (let j = of_nat (find_first_zero bo (b_data st (s_zmap (AUFS_SB st) ! unat i)) (unat (bits_per_block st)))
      in Some (if sint j < sint (bits_per_block st) then Z_set i j else Z_skip i, lk, st))"
| "zone_step bo t (Z_skip i) lk st = Some (Z_lock (i + 1), None, st)"
| "zone_step bo t (Z_set i j) lk st =
     (let bh = s_zmap (AUFS_SB st) ! unat i
      in Some (Z_unlock i j, lk, put_buffer bh (set_map_bit bo (unat j) (b_data st bh)) st))"
| "zone_step bo t (Z_unlock i j) lk st = Some (Z_dirty i j, None, st)"
| "zone_step bo t (Z_dirty i j) lk st =
     Some (Returned (Zone_result (zone_value st i j)), lk,
           mark_buffer_dirty (s_zmap (AUFS_SB st) ! unat i) st)"
| "zone_step bo t _ lk st = None"

fun inode_step ::
    "kapi \<Rightarrow> aufs_inode \<Rightarrow> u16 \<Rightarrow> nat \<Rightarrow> alloc_pc \<Rightarrow> nat option \<Rightarrow> fs \<Rightarrow>
     (alloc_pc \<times> nat option \<times> fs) option" where
  "inode_step k dir mode t I_start lk st =
     Some (if k_new_inode k = None then Returned (Inode_result None (- ENOMEM)) else I_lock, lk, st)"
| "inode_step k dir mode t I_lock lk st = (if lk = None then Some (I_find 0, Some t, st) else None)"
| "inode_step k dir mode t (I_find i) lk st =
     (if \<not> scast i < asb_inode_map_blocks (AUFS_SB st) then Some (I_full, lk, st)
      else
        let j = of_nat (find_first_zero (k_bits k) (b_data st (s_imap (AUFS_SB st) ! unat i))
                          (unat (bits_per_block st)))
        in Some (if j < scast (bits_per_block st) then I_set i j else I_find (i + 1), lk, st))"
| "inode_step k dir mode t I_full lk st = Some (Returned (Inode_result None (- ENOSPC)), None, st)"
| "inode_step k dir mode t (I_set i j) lk st =
     (let bh = s_imap (AUFS_SB st) ! unat i; (was, d) = test_and_set (k_bits k) (unat j) (b_data st bh)
      in Some (if was then I_full else I_unlock i j, lk, put_buffer bh d st))"
| "inode_step k dir mode t (I_unlock i j) lk st = Some (I_dirty i j, None, st)"
| "inode_step k dir mode t (I_dirty i j) lk st =
     Some (I_init (j + scast (i * bits_per_block st)), lk,
           mark_buffer_dirty (s_imap (AUFS_SB st) ! unat i) st)"
| "inode_step k dir mode t (I_init j) lk st =
     (if j = 0 then Some (Returned (Inode_result None (- ENOSPC)), lk, st)
      else Some (Returned (Inode_result (Some j) 0), lk,
                 put_inode (unat j) (init_new_inode k (the (k_new_inode k)) dir mode j) st))"
| "inode_step k dir mode t _ lk st = None"

fun alloc_step where
  "alloc_step k New_zone t pc lk st = zone_step (k_bits k) t pc lk st"
| "alloc_step k (New_inode dir mode) t pc lk st = inode_step k dir mode t pc lk st"

subsection \<open>Interleavings\<close>

record allocs =
  al_fs :: fs
  al_lock :: "nat option"
  al_pcs :: "alloc_pc list"

fun start_pc :: "alloc_call \<Rightarrow> alloc_pc" where
  "start_pc New_zone = Z_lock 0"
| "start_pc (New_inode dir mode) = I_start"

definition start_allocs :: "alloc_call list \<Rightarrow> fs \<Rightarrow> allocs" where
  "start_allocs calls st = \<lparr>al_fs = st, al_lock = None, al_pcs = map start_pc calls\<rparr>"

inductive alloc_conc :: "kapi \<Rightarrow> alloc_call list \<Rightarrow> allocs \<Rightarrow> allocs \<Rightarrow> bool"
  for k :: kapi and calls :: "alloc_call list" where
  conc_thread:
    "t < length calls \<Longrightarrow>
     alloc_step k (calls ! t) t (al_pcs c ! t) (al_lock c) (al_fs c) = Some (pc, lk, st) \<Longrightarrow>
     alloc_conc k calls c \<lparr>al_fs = st, al_lock = lk, al_pcs = (al_pcs c)[t := pc]\<rparr>"

inductive_cases alloc_concE: "alloc_conc k calls c c'"

text \<open>The sequential calls.\<close>

definition seq_alloc :: "kapi \<Rightarrow> alloc_call \<Rightarrow> fs \<Rightarrow> alloc_result \<times> fs" where
  "seq_alloc k call st =
     (case call of
        New_zone \<Rightarrow>
          (case aufs_new_zone (k_bits k) st of
             Inl f \<Rightarrow> (Zone_result (Fault f), st)
           | Inr (z, st') \<Rightarrow> (Zone_result (Ret z), st'))
      | New_inode dir mode \<Rightarrow>
          (case aufs_new_inode k dir mode st of (r, e, st') \<Rightarrow> (Inode_result r e, st')))"

fun seq_run :: "kapi \<Rightarrow> alloc_call list \<Rightarrow> nat list \<Rightarrow> fs \<Rightarrow> alloc_result list \<times> fs" where
  "seq_run k calls [] st = ([], st)"
| "seq_run k calls (t # ts) st =
     (let (r, st1) = seq_alloc k (calls ! t) st; (rs, st2) = seq_run k calls ts st1 in (r # rs, st2))"

lemma seq_run_snoc:
  "seq_run k calls (ts @ [t]) st =
     (let (rs, st1) = seq_run k calls ts st; (r, st2) = seq_alloc k (calls ! t) st1 in (rs @ [r], st2))"
  by (induction ts arbitrary: st) (auto simp: Let_def split: prod.splits)


subsection \<open>Searching under the lock\<close>

text \<open>The first \<open>m\<close> buffers of a bitmap have no free bit.\<close>

definition full_to :: "bitops \<Rightarrow> fs \<Rightarrow> nat list \<Rightarrow> nat \<Rightarrow> bool" where
  "full_to bo st bhs m \<longleftrightarrow> (\<forall>p < m. \<forall>q < zone_bits st. test_map_bit bo (b_data st (bhs ! p)) q)"

text \<open>States that agree on what the allocators read.\<close>

definition same_maps :: "fs \<Rightarrow> fs \<Rightarrow> bool" where
  "same_maps st st' \<longleftrightarrow>
     b_data st' = b_data st \<and> s_fs_info st' = s_fs_info st \<and> s_blocksize st' = s_blocksize st"

lemma same_maps_facts:
  assumes "same_maps st st'"
  shows "AUFS_SB st' = AUFS_SB st" "zone_bits st' = zone_bits st" "bits_per_block st' = bits_per_block st"
    "maps_ok st' = maps_ok st" "full_to bo st' bhs m = full_to bo st bhs m"
    "zone_value st' i j = zone_value st i j" "area_find bo st' n i' bhs = area_find bo st n i' bhs"
proof -
  have "area_find bo st' n i' bhs = area_find bo st n i' bhs"
    using assms by (induction bhs arbitrary: i') (simp_all add: same_maps_def Let_def)
  then show "AUFS_SB st' = AUFS_SB st" "zone_bits st' = zone_bits st" "bits_per_block st' = bits_per_block st"
    "maps_ok st' = maps_ok st" "full_to bo st' bhs m = full_to bo st bhs m"
    "zone_value st' i j = zone_value st i j" "area_find bo st' n i' bhs = area_find bo st n i' bhs"
    using assms by (simp_all add: same_maps_def AUFS_SB_def zone_bits_def bits_per_block_def maps_ok_def
        area_ok_def full_to_def zone_value_def Let_def)
qed

lemma same_maps_stores [simp]:
  "same_maps st st" "same_maps st (mark_buffer_dirty b st)" "same_maps st (put_inode n ai st)"
  by (simp_all add: same_maps_def)

lemma same_maps_trans: "same_maps a b \<Longrightarrow> same_maps b c \<Longrightarrow> same_maps a c"
  by (simp add: same_maps_def)

context minix_bitmap
begin

lemma area_find_at:
  assumes "i < length bhs" and "\<forall>p < i. \<forall>q < n. test_map_bit bo (b_data st (bhs ! p)) q"
    and "\<forall>bh \<in> set bhs. map_ok (b_data st bh) \<and> 8 * length (b_data st bh) = n"
    and "find_first_zero bo (b_data st (bhs ! i)) n < n"
  shows "area_find bo st n a bhs = Some (a + i, bhs ! i, find_first_zero bo (b_data st (bhs ! i)) n)"
  using assms
proof (induction bhs arbitrary: a i)
  case (Cons b bhs)
  show ?case
  proof (cases i)
    case 0
    then show ?thesis using Cons.prems by simp
  next
    case (Suc m)
    have "\<not> find_first_zero bo (b_data st b) n < n"
      using ffz_clear [of "b_data st b"] Cons.prems(2,3) Suc by auto
    moreover have "area_find bo st n (a + 1) bhs =
        Some (a + 1 + m, bhs ! m, find_first_zero bo (b_data st (bhs ! m)) n)"
      using Cons.prems Suc by (intro Cons.IH) auto
    ultimately show ?thesis using Suc by (simp add: Let_def)
  qed
qed simp

lemma area_find_none:
  assumes "\<forall>p < length bhs. \<forall>q < n. test_map_bit bo (b_data st (bhs ! p)) q"
    and "\<forall>bh \<in> set bhs. map_ok (b_data st bh) \<and> 8 * length (b_data st bh) = n"
  shows "area_find bo st n a bhs = None"
  using assms
proof (induction bhs arbitrary: a)
  case (Cons b bhs)
  have "\<not> find_first_zero bo (b_data st b) n < n"
    using ffz_clear [of "b_data st b"] Cons.prems by auto
  moreover have "area_find bo st n (a + 1) bhs = None" using Cons.prems by (intro Cons.IH) auto
  ultimately show ?case by (simp add: Let_def)
qed simp

lemma full_to_mark:
  assumes "area_ok st maps (zone_bits st)" and "bh \<in> set maps" and "j < zone_bits st"
    and "full_to bo st bhs m"
  shows "full_to bo (put_buffer bh (set_map_bit bo j (b_data st bh)) st) bhs m"
  using assms test_set [of "b_data st bh"] by (auto simp: full_to_def area_ok_def zone_bits_def)

lemma full_to_Suc:
  assumes "map_ok (b_data st (bhs ! m))" and "8 * length (b_data st (bhs ! m)) = zone_bits st"
    and "\<not> find_first_zero bo (b_data st (bhs ! m)) (zone_bits st) < zone_bits st" and "full_to bo st bhs m"
  shows "full_to bo st bhs (Suc m)"
  using assms ffz_full [of "b_data st (bhs ! m)"] by (auto simp: full_to_def less_Suc_eq)

lemma maps_ok_areas:
  assumes "maps_ok st"
  shows "area_ok st (s_zmap (AUFS_SB st)) (zone_bits st)" "area_ok st (s_imap (AUFS_SB st)) (zone_bits st)"
    "unat (asb_zone_map_blocks (AUFS_SB st)) = length (s_zmap (AUFS_SB st))"
    "unat (asb_inode_map_blocks (AUFS_SB st)) = length (s_imap (AUFS_SB st))"
    "unat (s_blocksize st) \<le> 4096" "0 < zone_bits st" "asb_alignment_num_blocks (AUFS_SB st) \<noteq> 0"
  using assms by (auto simp: maps_ok_def asb_ok_def zone_bits_def)

text \<open>Marking a bit of one bitmap keeps both well formed.\<close>

lemma maps_ok_mark:
  assumes maps: "maps_ok st" and bh: "bh \<in> set (s_zmap (AUFS_SB st)) \<union> set (s_imap (AUFS_SB st))"
    and j: "j < zone_bits st"
  shows "maps_ok (put_buffer bh (set_map_bit bo j (b_data st bh)) st)"
proof -
  note a = maps_ok_areas [OF maps]
  have "map_ok (b_data st bh)" "8 * length (b_data st bh) = zone_bits st"
    using bh a(1,2) by (auto simp: area_ok_def)
  then have "area_ok (put_buffer bh (set_map_bit bo j (b_data st bh)) st) bhs (zone_bits st)"
    if "area_ok st bhs (zone_bits st)" for bhs
    using area_ok_mark [OF that] j by blast
  then show ?thesis using maps a(1,2) by (simp add: maps_ok_def AUFS_SB_def zone_bits_def)
qed

text \<open>The sequential inode allocator as a search on numbers.\<close>

lemma new_inode_find:
  assumes maps: "maps_ok st" and k: "k_bits k = bo" "k_new_inode k = Some ino"
  shows "aufs_new_inode k dir mode st =
    (case area_find bo st (zone_bits st) 0 (s_imap (AUFS_SB st)) of
       None \<Rightarrow> (None, - ENOSPC, st)
     | Some (i, bh, j) \<Rightarrow>
         let st2 = mark_buffer_dirty bh (put_buffer bh (set_map_bit bo j (b_data st bh)) st);
             z = of_nat (i * zone_bits st + j)
         in if z = 0 then (None, - ENOSPC, st2)
            else (Some z, 0, put_inode (unat z) (init_new_inode k ino dir mode z) st2))"
proof -
  let ?im = "s_imap (AUFS_SB st)" and ?n = "zone_bits st"
  note a = maps_ok_areas [OF maps]
  have scan: "new_inode_scan bo st 0 ?im =
      map_option (\<lambda>(i', bh, j). (of_nat i', bh, of_nat j)) (area_find bo st ?n 0 ?im)"
    using new_inode_scan_eq [OF refl a(5), of ?im 0] a(2) by (simp add: area_ok_def)
  show ?thesis
  proof (cases "area_find bo st ?n 0 ?im")
    case None
    then show ?thesis using scan k by (simp add: aufs_new_inode_def take_imap [OF maps])
  next
    case (Some x)
    obtain i bh j where x: "x = (i, bh, j)" by (cases x)
    note f = area_find_least [OF a(2) Some [unfolded x]]
    have bh: "map_ok (b_data st bh)" "8 * length (b_data st bh) = ?n"
      using a(2) f(1,2) by (auto simp: area_ok_def)
    have "\<not> test_map_bit bo (b_data st bh) j"
      using f(5) ffz_clear [OF bh(1)] bh(2) f(3) by metis
    then have ts: "test_and_set bo j (b_data st bh) = (False, set_map_bit bo j (b_data st bh))"
      using test_and_set_eq [OF bh(1)] bh(2) f(3) by simp
    have uj: "unat (of_nat j :: u64) = j"
      using f(3) unat_bits_per_block(2) [OF a(5)] by (intro unat_of_nat_small) simp
    show ?thesis
      using scan Some x k ts uj new_inode_number [OF maps f(1,3)]
      by (simp add: aufs_new_inode_def take_imap [OF maps] Let_def del: of_nat_add of_nat_mult)
  qed
qed

text \<open>The words of the two loops as numbers.\<close>

lemma map_length_small:
  assumes "area_ok st bhs (zone_bits st)" and "0 < zone_bits st"
  shows "length bhs < 2147483648"
proof -
  have "length bhs * 1 \<le> length bhs * zone_bits st" using assms(2) by (intro mult_le_mono2) simp
  also have "\<dots> < 2147483648" using assms(1) by (simp add: area_ok_def)
  finally show ?thesis by simp
qed

lemma loop_words:
  fixes i :: u32
  assumes "area_ok st bhs (zone_bits st)" and "0 < zone_bits st" and "unat m = length bhs"
    and "unat i \<le> length bhs"
  shows "(scast i < (m :: u64)) = (unat i < length bhs)" and "unat i < length bhs \<Longrightarrow> unat (i + 1) = unat i + 1"
proof -
  have l: "length bhs < 2147483648" using assms(1,2) by (rule map_length_small)
  then have "unat (scast i :: u64) = unat i"
    using assms(4) by (simp add: scast_u32_small unat_of_nat_small)
  then show "(scast i < m) = (unat i < length bhs)" using assms(3) by (simp add: word_less_nat_alt)
  show "unat i < length bhs \<Longrightarrow> unat (i + 1) = unat i + 1"
    using l by (simp add: unat_add_no_wrap)
qed

lemma find_words:
  assumes "maps_ok st" and "map_ok d" and "8 * length d = zone_bits st"
  shows "unat (bits_per_block st) = zone_bits st"
    and "unat (of_nat (find_first_zero bo d (zone_bits st)) :: u32) = find_first_zero bo d (zone_bits st)"
    and "unat (of_nat (find_first_zero bo d (zone_bits st)) :: u64) = find_first_zero bo d (zone_bits st)"
    and "(sint (of_nat (find_first_zero bo d (zone_bits st)) :: u32) < sint (bits_per_block st)) =
           (find_first_zero bo d (zone_bits st) < zone_bits st)"
    and "((of_nat (find_first_zero bo d (zone_bits st)) :: u64) < scast (bits_per_block st)) =
           (find_first_zero bo d (zone_bits st) < zone_bits st)"
proof -
  let ?f = "find_first_zero bo d (zone_bits st)"
  note b = unat_bits_per_block [OF maps_ok_areas(5) [OF assms(1)]]
  show "unat (bits_per_block st) = zone_bits st" by (rule b(1))
  have le: "?f \<le> zone_bits st" using ffz_le [OF assms(2)] assms(3) by simp
  show u: "unat (of_nat ?f :: u32) = ?f" and v: "unat (of_nat ?f :: u64) = ?f"
    using le b(2) by (auto intro: unat_of_nat_small)
  show "(sint (of_nat ?f :: u32) < sint (bits_per_block st)) = (?f < zone_bits st)"
    using le b u by (simp add: sint_u32_small)
  have "unat (scast (bits_per_block st) :: u64) = zone_bits st"
    using b by (simp add: scast_u32_small unat_of_nat_small)
  then show "((of_nat ?f :: u64) < scast (bits_per_block st)) = (?f < zone_bits st)"
    using v by (simp add: word_less_nat_alt)
qed

lemma zone_value_eq:
  assumes maps: "maps_ok st" and i: "unat i < length (s_zmap (AUFS_SB st))" and j: "unat j < zone_bits st"
  shows "zone_value st i j = Ret (ucast (zone_block (AUFS_SB st) (of_nat (unat i * zone_bits st + unat j))))"
proof -
  note a = maps_ok_areas [OF maps]
  have eq: "j + i * bits_per_block st = of_nat (unat i * zone_bits st + unat j)"
    using bits_per_block_of_nat [OF a(5)] by simp
  have "unat i * zone_bits st + unat j < (unat i + 1) * zone_bits st" using j by simp
  also have "\<dots> \<le> length (s_zmap (AUFS_SB st)) * zone_bits st" using i by (intro mult_le_mono1) simp
  also have "\<dots> < 2147483648" using a(1) by (simp add: area_ok_def)
  finally have lt: "unat i * zone_bits st + unat j < 2147483648" .
  then have "unat (of_nat (unat i * zone_bits st + unat j) :: u32) = unat i * zone_bits st + unat j"
    by (intro unat_of_nat_small) simp
  then show ?thesis
    using lt a(7) by (simp add: zone_value_def eq Let_def sint_u32_small scast_u32_small
        del: of_nat_add of_nat_mult)
qed

end


subsection \<open>The invariant of a thread\<close>

text \<open>Places at which a thread holds the lock, and places behind the point where its result is fixed.\<close>

fun critical :: "alloc_pc \<Rightarrow> bool" where
  "critical (Z_find i) = True" | "critical (Z_skip i) = True" | "critical (Z_set i j) = True"
| "critical (Z_unlock i j) = True" | "critical (I_find i) = True" | "critical I_full = True"
| "critical (I_set i jj) = True" | "critical (I_unlock i jj) = True" | "critical _ = False"

fun inode_value :: "u64 \<Rightarrow> alloc_result" where
  "inode_value z = (if z = 0 then Inode_result None (- ENOSPC) else Inode_result (Some z) 0)"

fun outcome :: "fs \<Rightarrow> alloc_pc \<Rightarrow> alloc_result option" where
  "outcome st (Z_unlock i j) = Some (Zone_result (zone_value st i j))"
| "outcome st (Z_dirty i j) = Some (Zone_result (zone_value st i j))"
| "outcome st I_full = Some (Inode_result None (- ENOSPC))"
| "outcome st (I_unlock i jj) = Some (inode_value (jj + scast (i * bits_per_block st)))"
| "outcome st (I_dirty i jj) = Some (inode_value (jj + scast (i * bits_per_block st)))"
| "outcome st (I_init z) = Some (inode_value z)"
| "outcome st (Returned r) = Some r"
| "outcome st _ = None"

text \<open>What a thread knows at each place of its call.\<close>

fun pc_ok :: "kapi \<Rightarrow> fs \<Rightarrow> alloc_call \<Rightarrow> alloc_pc \<Rightarrow> bool" where
  "pc_ok k st New_zone (Z_lock i) \<longleftrightarrow>
     unat i \<le> length (s_zmap (AUFS_SB st)) \<and> full_to (k_bits k) st (s_zmap (AUFS_SB st)) (unat i)"
| "pc_ok k st New_zone (Z_find i) \<longleftrightarrow>
     unat i < length (s_zmap (AUFS_SB st)) \<and> full_to (k_bits k) st (s_zmap (AUFS_SB st)) (unat i)"
| "pc_ok k st New_zone (Z_skip i) \<longleftrightarrow>
     unat i < length (s_zmap (AUFS_SB st)) \<and> full_to (k_bits k) st (s_zmap (AUFS_SB st)) (Suc (unat i))"
| "pc_ok k st New_zone (Z_set i j) \<longleftrightarrow>
     unat i < length (s_zmap (AUFS_SB st)) \<and> full_to (k_bits k) st (s_zmap (AUFS_SB st)) (unat i) \<and>
     unat j < zone_bits st \<and>
     unat j = find_first_zero (k_bits k) (b_data st (s_zmap (AUFS_SB st) ! unat i)) (zone_bits st)"
| "pc_ok k st New_zone (Z_unlock i j) = True"
| "pc_ok k st New_zone (Z_dirty i j) = True"
| "pc_ok k st New_zone (Returned r) = True"
| "pc_ok k st (New_inode dir mode) I_start = True"
| "pc_ok k st (New_inode dir mode) I_lock \<longleftrightarrow> k_new_inode k \<noteq> None"
| "pc_ok k st (New_inode dir mode) (I_find i) \<longleftrightarrow>
     k_new_inode k \<noteq> None \<and> unat i \<le> length (s_imap (AUFS_SB st)) \<and>
     full_to (k_bits k) st (s_imap (AUFS_SB st)) (unat i)"
| "pc_ok k st (New_inode dir mode) (I_set i jj) \<longleftrightarrow>
     k_new_inode k \<noteq> None \<and> unat i < length (s_imap (AUFS_SB st)) \<and>
     full_to (k_bits k) st (s_imap (AUFS_SB st)) (unat i) \<and> unat jj < zone_bits st \<and>
     unat jj = find_first_zero (k_bits k) (b_data st (s_imap (AUFS_SB st) ! unat i)) (zone_bits st)"
| "pc_ok k st (New_inode dir mode) I_full = True"
| "pc_ok k st (New_inode dir mode) (I_unlock i jj) = True"
| "pc_ok k st (New_inode dir mode) (I_dirty i jj) = True"
| "pc_ok k st (New_inode dir mode) (I_init z) = True"
| "pc_ok k st (New_inode dir mode) (Returned r) = True"
| "pc_ok k st call pc = False"

text \<open>
  The effect of one step: the bitmaps change only under the lock and only by setting a bit, and
  the step either keeps the thread's outcome or fixes it to the result of the sequential call in
  the state of the step.
\<close>

definition marks :: "bitops \<Rightarrow> fs \<Rightarrow> fs \<Rightarrow> bool" where
  "marks bo st st' \<longleftrightarrow>
     (\<exists>bh j. bh \<in> set (s_zmap (AUFS_SB st)) \<union> set (s_imap (AUFS_SB st)) \<and> j < zone_bits st \<and>
        st' = put_buffer bh (set_map_bit bo j (b_data st bh)) st)"

definition step_effect ::
    "kapi \<Rightarrow> alloc_call \<Rightarrow> nat \<Rightarrow> alloc_pc \<Rightarrow> nat option \<Rightarrow> fs \<Rightarrow> alloc_pc \<Rightarrow> nat option \<Rightarrow> fs \<Rightarrow> bool" where
  "step_effect k call t pc lk st pc' lk' st' \<longleftrightarrow>
     (same_maps st st' \<or> critical pc \<and> marks (k_bits k) st st') \<and> pc_ok k st' call pc' \<and>
     (if critical pc then lk' = (if critical pc' then lk else None)
      else if critical pc' then lk = None \<and> lk' = Some t else lk' = lk) \<and>
     (outcome st' pc' = outcome st pc \<and> same_maps st st' \<or>
      outcome st pc = None \<and> outcome st' pc' = Some (fst (seq_alloc k call st)) \<and>
      same_maps st' (snd (seq_alloc k call st)))"

context minix_bitmap
begin

lemma seq_zone_found:
  assumes maps: "maps_ok st" and k: "k_bits k = bo" and i: "unat i < length (s_zmap (AUFS_SB st))"
    and full: "full_to bo st (s_zmap (AUFS_SB st)) (unat i)" and j: "unat j < zone_bits st"
      "unat j = find_first_zero bo (b_data st (s_zmap (AUFS_SB st) ! unat i)) (zone_bits st)"
    and bh: "bh = s_zmap (AUFS_SB st) ! unat i"
  shows "seq_alloc k New_zone st = (Zone_result (zone_value st i j),
    mark_buffer_dirty bh (put_buffer bh (set_map_bit bo (unat j) (b_data st bh)) st))"
proof -
  note a = maps_ok_areas [OF maps]
  have "area_find bo st (zone_bits st) 0 (s_zmap (AUFS_SB st)) = Some (0 + unat i, bh, unat j)"
    unfolding bh j(2) using i full j a(1) by (intro area_find_at) (auto simp: full_to_def area_ok_def)
  then show ?thesis
    using new_zone_find [OF maps] zone_value_eq [OF maps i j(1)] k by (simp add: seq_alloc_def)
qed

lemma seq_zone_none:
  assumes maps: "maps_ok st" and k: "k_bits k = bo"
    and full: "full_to bo st (s_zmap (AUFS_SB st)) (length (s_zmap (AUFS_SB st)))"
  shows "seq_alloc k New_zone st = (Zone_result (Ret 0), st)"
proof -
  note a = maps_ok_areas [OF maps]
  have "area_find bo st (zone_bits st) 0 (s_zmap (AUFS_SB st)) = None"
    using full a(1) by (intro area_find_none) (auto simp: full_to_def area_ok_def)
  then show ?thesis using new_zone_find [OF maps] k by (simp add: seq_alloc_def)
qed

lemma seq_inode_found:
  assumes maps: "maps_ok st" and k: "k_bits k = bo" "k_new_inode k \<noteq> None"
    and i: "unat i < length (s_imap (AUFS_SB st))"
    and full: "full_to bo st (s_imap (AUFS_SB st)) (unat i)" and j: "unat j < zone_bits st"
      "unat j = find_first_zero bo (b_data st (s_imap (AUFS_SB st) ! unat i)) (zone_bits st)"
    and bh: "bh = s_imap (AUFS_SB st) ! unat i"
  shows "fst (seq_alloc k (New_inode dir mode) st) = inode_value (j + scast (i * bits_per_block st))"
    and "same_maps (put_buffer bh (set_map_bit bo (unat j) (b_data st bh)) st)
           (snd (seq_alloc k (New_inode dir mode) st))"
proof -
  obtain ino where ino: "k_new_inode k = Some ino" using k(2) by blast
  note a = maps_ok_areas [OF maps]
  have f: "area_find bo st (zone_bits st) 0 (s_imap (AUFS_SB st)) = Some (0 + unat i, bh, unat j)"
    unfolding bh j(2) using i full j a(2) by (intro area_find_at) (auto simp: full_to_def area_ok_def)
  have z: "j + scast (i * bits_per_block st) = of_nat (unat i * zone_bits st + unat j)"
    using new_inode_number [OF maps i j(1)] by simp
  show "fst (seq_alloc k (New_inode dir mode) st) = inode_value (j + scast (i * bits_per_block st))"
    "same_maps (put_buffer bh (set_map_bit bo (unat j) (b_data st bh)) st)
           (snd (seq_alloc k (New_inode dir mode) st))"
    using new_inode_find [OF maps k(1) ino, of dir mode] f
    by (simp_all add: seq_alloc_def Let_def z same_maps_def del: of_nat_add of_nat_mult)
qed

lemma seq_inode_none:
  assumes maps: "maps_ok st" and k: "k_bits k = bo"
    and full: "k_new_inode k = None \<or> full_to bo st (s_imap (AUFS_SB st)) (length (s_imap (AUFS_SB st)))"
  shows "seq_alloc k (New_inode dir mode) st =
    (Inode_result None (if k_new_inode k = None then - ENOMEM else - ENOSPC), st)"
proof (cases "k_new_inode k")
  case None
  then show ?thesis by (simp add: seq_alloc_def aufs_new_inode_def)
next
  case (Some ino)
  note a = maps_ok_areas [OF maps]
  have "area_find bo st (zone_bits st) 0 (s_imap (AUFS_SB st)) = None"
    using full Some a(2) by (intro area_find_none) (auto simp: full_to_def area_ok_def)
  then show ?thesis using Some new_inode_find [OF maps k Some, of dir mode] by (simp add: seq_alloc_def)
qed

text \<open>The buffers of a bitmap.\<close>

lemma area_buffer:
  assumes "area_ok st bhs (zone_bits st)" and "m < length bhs"
  shows "map_ok (b_data st (bhs ! m))" "8 * length (b_data st (bhs ! m)) = zone_bits st" "bhs ! m \<in> set bhs"
  using assms by (auto simp: area_ok_def)

lemma full_to_next:
  assumes "area_ok st bhs (zone_bits st)" and "m < length bhs" and "full_to bo st bhs m"
    and "\<not> find_first_zero bo (b_data st (bhs ! m)) (zone_bits st) < zone_bits st"
  shows "full_to bo st bhs (Suc m)"
  using full_to_Suc [OF area_buffer(1,2) [OF assms(1,2)] assms(4,3)] .

lemma marks_bit:
  assumes "bh \<in> set (s_zmap (AUFS_SB st)) \<union> set (s_imap (AUFS_SB st))" and "j < zone_bits st"
  shows "marks bo st (put_buffer bh (set_map_bit bo j (b_data st bh)) st)"
  unfolding marks_def using assms by blast

text \<open>Each place of a call, one after the other.\<close>

lemma zone_lock_effect:
  assumes maps: "maps_ok st" and k: "k_bits k = bo" and ok: "pc_ok k st New_zone (Z_lock i)"
    and run: "zone_step bo t (Z_lock i) lk st = Some (pc', lk', st')"
  shows "step_effect k New_zone t (Z_lock i) lk st pc' lk' st'"
proof -
  let ?zm = "s_zmap (AUFS_SB st)"
  note a = maps_ok_areas [OF maps]
  have i: "unat i \<le> length ?zm" "full_to bo st ?zm (unat i)" using ok k by simp_all
  note w = loop_words(1) [OF a(1,6,3) i(1)]
  show ?thesis
  proof (cases "unat i < length ?zm")
    case True
    then show ?thesis using run i k w by (auto simp: step_effect_def split: if_splits)
  next
    case False
    then have "unat i = length ?zm" using i(1) by simp
    then have "seq_alloc k New_zone st = (Zone_result (Ret 0), st)"
      using seq_zone_none [OF maps k] i(2) by simp
    then show ?thesis using run False w by (auto simp: step_effect_def)
  qed
qed

lemma zone_find_effect:
  assumes maps: "maps_ok st" and k: "k_bits k = bo" and ok: "pc_ok k st New_zone (Z_find i)"
    and run: "zone_step bo t (Z_find i) lk st = Some (pc', lk', st')"
  shows "step_effect k New_zone t (Z_find i) lk st pc' lk' st'"
proof -
  let ?zm = "s_zmap (AUFS_SB st)"
  note a = maps_ok_areas [OF maps]
  have i: "unat i < length ?zm" "full_to bo st ?zm (unat i)" using ok k by simp_all
  note w = find_words [OF maps area_buffer(1,2) [OF a(1) i(1)]]
  show ?thesis using run i k w full_to_next [OF a(1) i] by (auto simp: step_effect_def Let_def)
qed

lemma zone_set_effect:
  assumes maps: "maps_ok st" and k: "k_bits k = bo" and ok: "pc_ok k st New_zone (Z_set i j)"
    and run: "zone_step bo t (Z_set i j) lk st = Some (pc', lk', st')"
  shows "step_effect k New_zone t (Z_set i j) lk st pc' lk' st'"
proof -
  let ?zm = "s_zmap (AUFS_SB st)"
  let ?st' = "put_buffer (?zm ! unat i) (set_map_bit bo (unat j) (b_data st (?zm ! unat i))) st"
  have i: "unat i < length ?zm" "full_to bo st ?zm (unat i)" "unat j < zone_bits st"
      "unat j = find_first_zero bo (b_data st (?zm ! unat i)) (zone_bits st)"
    using ok k by simp_all
  have "marks bo st ?st'" using marks_bit i(1,3) by simp
  moreover have "zone_value ?st' i j = zone_value st i j"
    by (simp add: zone_value_def bits_per_block_def AUFS_SB_def Let_def)
  ultimately show ?thesis
    using run k seq_zone_found [OF maps k i refl] by (auto simp: step_effect_def Let_def)
qed

lemma zone_step_effect:
  assumes maps: "maps_ok st" and k: "k_bits k = bo" and ok: "pc_ok k st New_zone pc"
    and run: "zone_step bo t pc lk st = Some (pc', lk', st')"
  shows "step_effect k New_zone t pc lk st pc' lk' st'"
proof (cases pc)
  case (Z_lock i)
  then show ?thesis using zone_lock_effect [OF maps k] ok run by simp
next
  case (Z_find i)
  then show ?thesis using zone_find_effect [OF maps k] ok run by simp
next
  case (Z_skip i)
  note a = maps_ok_areas [OF maps]
  show ?thesis using run ok Z_skip k loop_words(2) [OF a(1,6,3)] by (auto simp: step_effect_def)
next
  case (Z_set i j)
  then show ?thesis using zone_set_effect [OF maps k] ok run by simp
qed (use ok run in \<open>auto simp: step_effect_def\<close>)

lemma inode_find_effect:
  assumes maps: "maps_ok st" and k: "k_bits k = bo" and ok: "pc_ok k st (New_inode dir mode) (I_find i)"
    and run: "inode_step k dir mode t (I_find i) lk st = Some (pc', lk', st')"
  shows "step_effect k (New_inode dir mode) t (I_find i) lk st pc' lk' st'"
proof -
  let ?im = "s_imap (AUFS_SB st)"
  note a = maps_ok_areas [OF maps]
  have i: "unat i \<le> length ?im" "full_to bo st ?im (unat i)" "k_new_inode k \<noteq> None" using ok k by simp_all
  note w = loop_words [OF a(2,6,4) i(1)]
  show ?thesis
  proof (cases "unat i < length ?im")
    case True
    note f = find_words [OF maps area_buffer(1,2) [OF a(2) True]]
    show ?thesis
      using run i k f True w full_to_next [OF a(2) True i(2)] by (auto simp: step_effect_def Let_def)
  next
    case False
    then have "unat i = length ?im" using i(1) by simp
    then have "seq_alloc k (New_inode dir mode) st = (Inode_result None (- ENOSPC), st)"
      using seq_inode_none [OF maps k] i(2,3) by simp
    then show ?thesis using run False w(1) by (auto simp: step_effect_def)
  qed
qed

lemma inode_set_effect:
  assumes maps: "maps_ok st" and k: "k_bits k = bo" and ok: "pc_ok k st (New_inode dir mode) (I_set i j)"
    and run: "inode_step k dir mode t (I_set i j) lk st = Some (pc', lk', st')"
  shows "step_effect k (New_inode dir mode) t (I_set i j) lk st pc' lk' st'"
proof -
  let ?im = "s_imap (AUFS_SB st)"
  let ?d = "b_data st (?im ! unat i)"
  let ?st' = "put_buffer (?im ! unat i) (set_map_bit bo (unat j) ?d) st"
  have i: "k_new_inode k \<noteq> None" "unat i < length ?im" "full_to bo st ?im (unat i)" "unat j < zone_bits st"
      "unat j = find_first_zero bo ?d (zone_bits st)"
    using ok k by simp_all
  note b = area_buffer [OF maps_ok_areas(2) [OF maps] i(2)]
  have "\<not> test_map_bit bo ?d (unat j)" using ffz_clear [OF b(1)] b(2) i(4,5) by metis
  then have ts: "test_and_set bo (unat j) ?d = (False, set_map_bit bo (unat j) ?d)"
    using test_and_set_eq [OF b(1)] b(2) i(4) by simp
  have "marks bo st ?st'" using marks_bit b(3) i(4) by simp
  moreover have "bits_per_block ?st' = bits_per_block st" by (simp add: bits_per_block_def)
  ultimately show ?thesis
    using run k ts seq_inode_found [OF maps k i refl, of dir mode] by (auto simp: step_effect_def Let_def)
qed

lemma inode_step_effect:
  assumes maps: "maps_ok st" and k: "k_bits k = bo" and ok: "pc_ok k st (New_inode dir mode) pc"
    and run: "inode_step k dir mode t pc lk st = Some (pc', lk', st')"
  shows "step_effect k (New_inode dir mode) t pc lk st pc' lk' st'"
proof (cases pc)
  case I_start
  then show ?thesis using run seq_inode_none [OF maps k, of dir mode]
    by (cases "k_new_inode k") (auto simp: step_effect_def)
next
  case I_lock
  then show ?thesis using run ok by (auto simp: step_effect_def full_to_def split: if_splits)
next
  case (I_find i)
  then show ?thesis using inode_find_effect [OF maps k] ok run by simp
next
  case (I_set i j)
  then show ?thesis using inode_set_effect [OF maps k] ok run by simp
qed (use ok run in \<open>auto simp: step_effect_def bits_per_block_def split: if_splits\<close>)

lemma alloc_step_effect:
  assumes "maps_ok st" and "k_bits k = bo" and "pc_ok k st call pc"
    and "alloc_step k call t pc lk st = Some (pc', lk', st')"
  shows "step_effect k call t pc lk st pc' lk' st'"
  using assms zone_step_effect inode_step_effect by (cases call) auto

lemma seq_alloc_cong:
  assumes maps: "maps_ok st" and k: "k_bits k = bo" and sq: "same_maps st sq"
  shows "fst (seq_alloc k call sq) = fst (seq_alloc k call st)"
    and "same_maps (snd (seq_alloc k call st)) (snd (seq_alloc k call sq))"
proof -
  note f = same_maps_facts [OF sq]
  have maps': "maps_ok sq" using maps f(4) by simp
  have d: "b_data sq = b_data st" "s_fs_info sq = s_fs_info st" "s_blocksize sq = s_blocksize st"
    using sq by (simp_all add: same_maps_def)
  have "fst (seq_alloc k call sq) = fst (seq_alloc k call st) \<and>
      same_maps (snd (seq_alloc k call st)) (snd (seq_alloc k call sq))"
  proof (cases call)
    case New_zone
    then show ?thesis
      using new_zone_find [OF maps] new_zone_find [OF maps'] k d
      by (auto simp: seq_alloc_def f same_maps_def split: option.split)
  next
    case (New_inode dir mode)
    show ?thesis
    proof (cases "k_new_inode k")
      case None
      then show ?thesis using New_inode sq by (simp add: seq_alloc_def aufs_new_inode_def)
    next
      case (Some ino)
      then show ?thesis
        using New_inode new_inode_find [OF maps k Some, of dir mode] new_inode_find [OF maps' k Some, of dir mode] d
        by (auto simp: seq_alloc_def f same_maps_def Let_def split: option.split)
    qed
  qed
  then show "fst (seq_alloc k call sq) = fst (seq_alloc k call st)"
    "same_maps (snd (seq_alloc k call st)) (snd (seq_alloc k call sq))" by simp_all
qed

subsection \<open>The invariant of the system\<close>

text \<open>The steps of one thread keep what the others know.\<close>

lemma pc_ok_same:
  assumes "same_maps st st'" and "pc_ok k st call pc"
  shows "pc_ok k st' call pc"
  using assms same_maps_facts [OF assms(1)] by (cases call; cases pc) (auto simp: same_maps_def)

lemma pc_ok_marks:
  assumes maps: "maps_ok st" and k: "k_bits k = bo" and m: "marks bo st st'" and "pc_ok k st call pc"
    and "\<not> critical pc"
  shows "pc_ok k st' call pc"
proof -
  note a = maps_ok_areas [OF maps]
  from m obtain bh j where bh: "bh \<in> set (s_zmap (AUFS_SB st)) \<union> set (s_imap (AUFS_SB st))"
    and j: "j < zone_bits st" and st': "st' = put_buffer bh (set_map_bit bo j (b_data st bh)) st"
    unfolding marks_def by blast
  have "full_to bo st' bhs n" if "full_to bo st bhs n" for bhs n
    unfolding st' using full_to_mark [OF a(1) _ j that] full_to_mark [OF a(2) _ j that] bh by blast
  moreover have "AUFS_SB st' = AUFS_SB st" by (simp add: st' AUFS_SB_def)
  ultimately show ?thesis using assms(4,5) k by (cases call; cases pc) auto
qed

lemma effect_frame:
  assumes maps: "maps_ok st" and k: "k_bits k = bo"
    and st': "same_maps st st' \<or> marks bo st st'"
  shows "maps_ok st'" and "outcome st' pc = outcome st pc"
proof -
  show "maps_ok st'"
    using st' same_maps_facts(4) [of st st'] maps maps_ok_mark [OF maps] by (auto simp: marks_def)
  have "AUFS_SB st' = AUFS_SB st" "bits_per_block st' = bits_per_block st"
    using st' by (auto simp: same_maps_def marks_def AUFS_SB_def bits_per_block_def)
  then show "outcome st' pc = outcome st pc" by (cases pc) (simp_all add: zone_value_def Let_def)
qed

end

definition conc_inv :: "kapi \<Rightarrow> alloc_call list \<Rightarrow> fs \<Rightarrow> allocs \<Rightarrow> bool" where
  "conc_inv k calls st0 c \<longleftrightarrow>
     length (al_pcs c) = length calls \<and> maps_ok (al_fs c) \<and>
     (\<forall>t < length calls. pc_ok k (al_fs c) (calls ! t) (al_pcs c ! t)) \<and>
     (\<forall>t < length calls. critical (al_pcs c ! t) \<longleftrightarrow> al_lock c = Some t) \<and>
     (\<forall>t. al_lock c = Some t \<longrightarrow> t < length calls) \<and>
     (\<exists>ord sq. distinct ord \<and> set ord = {t. t < length calls \<and> outcome (al_fs c) (al_pcs c ! t) \<noteq> None} \<and>
        seq_run k calls ord st0 = (map (\<lambda>t. the (outcome (al_fs c) (al_pcs c ! t))) ord, sq) \<and>
        same_maps (al_fs c) sq)"

lemma conc_inv_start:
  assumes "maps_ok st"
  shows "conc_inv k calls st (start_allocs calls st)"
proof -
  have "pc_ok k st call (start_pc call) \<and> \<not> critical (start_pc call) \<and> outcome st (start_pc call) = None" for call
    by (cases call) (simp_all add: full_to_def)
  then show ?thesis using assms by (auto simp: conc_inv_def start_allocs_def intro!: exI [of _ "[]"])
qed

context minix_bitmap
begin

text \<open>A thread that fixes its outcome comes last in the order of the sequential calls; other steps keep the order.\<close>

lemma order_step:
  assumes maps: "maps_ok st" and k: "k_bits k = bo" and t: "t < length pcs"
    and eff: "step_effect k (calls ! t) t (pcs ! t) lk st pc lk' st'"
    and keep: "\<And>p. outcome st' p = outcome st p"
    and ord: "distinct ord" "set ord = {u. u < length pcs \<and> outcome st (pcs ! u) \<noteq> None}"
      "seq_run k calls ord st0 = (map (\<lambda>u. the (outcome st (pcs ! u))) ord, sq)" "same_maps st sq"
  shows "\<exists>ord sq. distinct ord \<and> set ord = {u. u < length pcs \<and> outcome st' ((pcs[t := pc]) ! u) \<noteq> None} \<and>
    seq_run k calls ord st0 = (map (\<lambda>u. the (outcome st' ((pcs[t := pc]) ! u))) ord, sq) \<and> same_maps st' sq"
proof (cases "outcome st' pc = outcome st (pcs ! t) \<and> same_maps st st'")
  case True
  then have "outcome st' ((pcs[t := pc]) ! u) = outcome st (pcs ! u)" if "u < length pcs" for u
    using that t keep by (cases "u = t") simp_all
  moreover have "same_maps st' sq" using True ord(4) by (auto simp: same_maps_def)
  ultimately show ?thesis using ord(1-3) by (intro exI [of _ ord] exI [of _ sq]) auto
next
  case False
  then have new: "outcome st (pcs ! t) = None" "outcome st' pc = Some (fst (seq_alloc k (calls ! t) st))"
    and sm: "same_maps st' (snd (seq_alloc k (calls ! t) st))"
    using eff by (auto simp: step_effect_def)
  note cong = seq_alloc_cong [OF maps k ord(4), of "calls ! t"]
  have old: "outcome st' ((pcs[t := pc]) ! u) = outcome st (pcs ! u)" if "u \<noteq> t" for u
    using that keep by simp
  have tn: "t \<notin> set ord" using ord(2) new(1) by simp
  let ?sq = "snd (seq_alloc k (calls ! t) sq)"
  have "map (\<lambda>u. the (outcome st (pcs ! u))) ord = map (\<lambda>u. the (outcome st' ((pcs[t := pc]) ! u))) ord"
    using old tn by (intro map_cong refl) metis
  then have "seq_run k calls (ord @ [t]) st0 =
      (map (\<lambda>u. the (outcome st' ((pcs[t := pc]) ! u))) (ord @ [t]), ?sq)"
    using ord(3) cong(1) new(2) t by (auto simp: seq_run_snoc split: prod.split)
  moreover have "same_maps st' ?sq" using sm cong(2) by (rule same_maps_trans)
  moreover have "set (ord @ [t]) = {u. u < length pcs \<and> outcome st' ((pcs[t := pc]) ! u) \<noteq> None}"
    using ord(2) new old t by (auto simp: nth_list_update)
  moreover have "distinct (ord @ [t])" using ord(1) tn by simp
  ultimately show ?thesis by blast
qed

lemma conc_inv_step:
  assumes k: "k_bits k = bo" and inv: "conc_inv k calls st0 c" and step: "alloc_conc k calls c c'"
  shows "conc_inv k calls st0 c'"
proof -
  obtain t pc lk st where t: "t < length calls"
    and run: "alloc_step k (calls ! t) t (al_pcs c ! t) (al_lock c) (al_fs c) = Some (pc, lk, st)"
    and c': "c' = \<lparr>al_fs = st, al_lock = lk, al_pcs = (al_pcs c)[t := pc]\<rparr>"
    using step by (elim alloc_concE) blast
  let ?st = "al_fs c" and ?pcs = "al_pcs c"
  have len: "length ?pcs = length calls" and maps: "maps_ok ?st"
    and ok: "\<And>u. u < length calls \<Longrightarrow> pc_ok k ?st (calls ! u) (?pcs ! u)"
    and lock: "\<And>u. u < length calls \<Longrightarrow> critical (?pcs ! u) \<longleftrightarrow> al_lock c = Some u"
    and held: "\<And>u. al_lock c = Some u \<Longrightarrow> u < length calls"
    using inv by (auto simp: conc_inv_def)
  have eff: "step_effect k (calls ! t) t (?pcs ! t) (al_lock c) ?st pc lk st"
    using alloc_step_effect [OF maps k ok [OF t] run] .
  then have fr: "same_maps ?st st \<or> marks bo ?st st" using k by (auto simp: step_effect_def)
  note keep = effect_frame [OF maps k fr]
  have ok': "pc_ok k st (calls ! u) ((?pcs[t := pc]) ! u)" if u: "u < length calls" for u
  proof (cases "u = t")
    case True
    then show ?thesis using eff t len by (simp add: step_effect_def)
  next
    case False
    have "\<not> critical (?pcs ! u)" if "critical (?pcs ! t)" using lock t u that False by simp
    then show ?thesis
      using eff ok [OF u] False pc_ok_same pc_ok_marks [OF maps k _ ok [OF u]] k
      by (auto simp: step_effect_def)
  qed
  have lock': "critical ((?pcs[t := pc]) ! u) \<longleftrightarrow> lk = Some u" if u: "u < length calls" for u
    using eff lock [OF t] lock [OF u] t u len
    by (cases "u = t") (auto simp: step_effect_def split: if_splits)
  have held': "u < length calls" if "lk = Some u" for u
    using eff that held t by (auto simp: step_effect_def split: if_splits)
  from inv obtain ord sq where "distinct ord" "set ord = {u. u < length calls \<and> outcome ?st (?pcs ! u) \<noteq> None}"
      "seq_run k calls ord st0 = (map (\<lambda>u. the (outcome ?st (?pcs ! u))) ord, sq)" "same_maps ?st sq"
    by (auto simp: conc_inv_def)
  from order_step [OF maps k _ eff keep(2), folded len] this t len
  show ?thesis using keep(1) ok' lock' held' by (simp add: conc_inv_def c')
qed

lemma conc_inv_reachable:
  assumes "(alloc_conc k calls)\<^sup>*\<^sup>* (start_allocs calls st0) c" and "k_bits k = bo" and "maps_ok st0"
  shows "conc_inv k calls st0 c"
  using assms by (induction rule: rtranclp_induct) (auto intro: conc_inv_start conc_inv_step)

text \<open>Sequential calls never hand out a number twice.\<close>

lemma inode_bit_marked:
  assumes maps: "maps_ok st" and find: "area_find bo st (zone_bits st) 0 (s_imap (AUFS_SB st)) = Some (i, bh, j)"
    and st1: "st1 = mark_buffer_dirty bh (put_buffer bh (set_map_bit bo j (b_data st bh)) st)"
    and z: "z = i * zone_bits st + j"
  shows "maps_ok st1" and "AUFS_SB st1 = AUFS_SB st" and "zone_bits st1 = zone_bits st"
    and "used_zones bo st1 = used_zones bo st" and "used_inodes bo st1 = insert z (used_inodes bo st)"
    and "z \<notin> used_inodes bo st" and "unat (of_nat z :: u64) = z"
proof -
  note a = maps_ok_areas [OF maps]
  note least = area_find_least [OF a(2) find] and alloc = area_alloc [OF a(2) find st1]
  have "bh \<notin> set (s_zmap (AUFS_SB st))" using alloc(5) maps by (auto simp: maps_ok_def)
  note zm = area_other [OF this a(6)]
  show same: "AUFS_SB st1 = AUFS_SB st" "zone_bits st1 = zone_bits st"
    by (simp_all add: AUFS_SB_def zone_bits_def st1)
  show "maps_ok st1" using maps alloc(2) zm(2) by (simp add: maps_ok_def same) (simp add: st1)
  show "used_zones bo st1 = used_zones bo st" using zm(1) by (simp add: used_zones_def same) (simp add: st1)
  show "used_inodes bo st1 = insert z (used_inodes bo st)" "z \<notin> used_inodes bo st"
    using alloc(1) least(6) by (simp_all add: used_inodes_def same z)
  have "z < 2147483648" using least(4) a(2) by (simp add: area_ok_def z)
  then show "unat (of_nat z :: u64) = z" by (intro unat_of_nat_small) simp
qed

lemma seq_alloc_claims:
  assumes maps: "maps_ok st" and k: "k_bits k = bo" and run: "seq_alloc k call st = (r, st')"
  shows "maps_ok st' \<and> AUFS_SB st' = AUFS_SB st \<and> n_zones st' = n_zones st \<and>
    used_zones bo st \<subseteq> used_zones bo st' \<and> used_inodes bo st \<subseteq> used_inodes bo st' \<and>
    (\<forall>z. r = Zone_result (Ret z) \<longrightarrow> z \<noteq> 0 \<longrightarrow>
       (\<exists>q < n_zones st. q \<notin> used_zones bo st \<and> q \<in> used_zones bo st' \<and>
          z = ucast (zone_block (AUFS_SB st) (of_nat q)))) \<and>
    (\<forall>z e. r = Inode_result (Some z) e \<longrightarrow> e = 0 \<and> unat z \<notin> used_inodes bo st \<and> unat z \<in> used_inodes bo st')"
proof (cases call)
  case New_zone
  have sz: "n_zones s = length (s_zmap (AUFS_SB s)) * 8 * unat (s_blocksize s)" for s
    by (simp add: n_zones_def zone_bits_def)
  show ?thesis
  proof (cases "used_zones bo st = {..< n_zones st}")
    case True
    then show ?thesis using new_zone_full [OF maps True] run k maps New_zone by (auto simp: seq_alloc_def)
  next
    case False
    obtain q st1 where "aufs_new_zone bo st = Ret (ucast (zone_block (AUFS_SB st) (of_nat q)), st1)"
      "q < n_zones st" "q \<notin> used_zones bo st" "used_zones bo st1 = insert q (used_zones bo st)"
      "used_inodes bo st1 = used_inodes bo st" "maps_ok st1" "map_frame (s_zmap (AUFS_SB st)) st st1"
      using new_zone_free [OF maps False] by metis
    then show ?thesis
      using run k New_zone by (auto simp: seq_alloc_def map_frame_def AUFS_SB_def sz)
  qed
next
  case (New_inode dir mode)
  show ?thesis
  proof (cases "k_new_inode k")
    case None
    then show ?thesis using run maps New_inode by (auto simp: seq_alloc_def aufs_new_inode_def)
  next
    case (Some ino)
    show ?thesis
    proof (cases "area_find bo st (zone_bits st) 0 (s_imap (AUFS_SB st))")
      case None
      then show ?thesis using run maps New_inode new_inode_find [OF maps k Some, of dir mode]
        by (auto simp: seq_alloc_def)
    next
      case (Some x)
      obtain i bh j where x: "x = (i, bh, j)" by (cases x)
      define st1 where "st1 = mark_buffer_dirty bh (put_buffer bh (set_map_bit bo j (b_data st bh)) st)"
      define z where "z = i * zone_bits st + j"
      note b = inode_bit_marked [OF maps Some [unfolded x] st1_def z_def]
      have "st' = st1 \<or> (\<exists>n ai. st' = put_inode n ai st1)"
          "(\<exists>e. r = Inode_result None e) \<or> r = Inode_result (Some (of_nat z)) 0"
        using run New_inode new_inode_find [OF maps k \<open>k_new_inode k = Some ino\<close>, of dir mode] Some x
        by (auto simp: seq_alloc_def Let_def st1_def z_def split: if_splits)
      then show ?thesis using b by (auto simp: n_zones_def)
    qed
  qed
qed

lemma seq_run_claims:
  assumes "maps_ok st" and "k_bits k = bo" and "seq_run k calls ord st = (rs, st')"
  shows "(Zone_result (Ret z) \<in> set rs \<longrightarrow> z \<noteq> 0 \<longrightarrow>
            (\<exists>q < n_zones st. q \<notin> used_zones bo st \<and> z = ucast (zone_block (AUFS_SB st) (of_nat q)))) \<and>
         (Inode_result (Some y) e \<in> set rs \<longrightarrow> e = 0 \<and> unat y \<notin> used_inodes bo st)"
  using assms(1,3)
proof (induction ord arbitrary: st rs)
  case Nil
  then show ?case by simp
next
  case (Cons t ord)
  obtain r st1 where one: "seq_alloc k (calls ! t) st = (r, st1)" by force
  obtain rs1 where rest: "seq_run k calls ord st1 = (rs1, st')" and "rs = r # rs1"
    using Cons.prems(2) one by (auto split: prod.splits)
  note c = seq_alloc_claims [OF Cons.prems(1) assms(2) one]
  from \<open>rs = r # rs1\<close> show ?case using c Cons.IH [OF _ rest] by auto
qed

lemma zone_word_inj:
  assumes lay: "layout_inv bo rb st" and q: "q < n_zones st" "q' < n_zones st"
    and eq: "(ucast (zone_block (AUFS_SB st) (of_nat q)) :: u32) = ucast (zone_block (AUFS_SB st) (of_nat q'))"
  shows "q = q'"
proof -
  have val: "unat (ucast (zone_block (AUFS_SB st) (of_nat p)) :: u32) = zone_start (AUFS_SB st) p"
    if "p < n_zones st" for p
  proof -
    have "asb_ok (AUFS_SB st)" using lay by (simp add: layout_inv_def maps_ok_def)
    from unat_zone_block [OF this zone_below(1) [OF lay that]] zone_below(2) [OF lay that]
    show ?thesis by (simp add: unat_ucast_u64_u32)
  qed
  have "zone_start (AUFS_SB st) q = zone_start (AUFS_SB st) q'"
    using arg_cong [OF eq, of unat] unfolding val [OF q(1)] val [OF q(2)] .
  moreover have "0 < bpz st" using lay by (simp add: layout_inv_def geometry_ok_def)
  ultimately show ?thesis by (simp add: zone_start_def)
qed

lemma seq_run_distinct:
  assumes lay: "layout_inv bo rb st0" and k: "k_bits k = bo"
    and "maps_ok st" "AUFS_SB st = AUFS_SB st0" "n_zones st = n_zones st0"
    and "seq_run k calls ord st = (rs, st')" and "a < b" and "b < length rs" and "rs ! a = rs ! b"
  shows "(\<forall>z e. rs ! a \<noteq> Inode_result (Some z) e) \<and> (\<forall>z. rs ! a = Zone_result (Ret z) \<longrightarrow> z = 0)"
  using assms(3-)
proof (induction ord arbitrary: st rs a b)
  case Nil
  then show ?case by simp
next
  case (Cons t ord)
  obtain r st1 where one: "seq_alloc k (calls ! t) st = (r, st1)" by force
  obtain rs1 where rest: "seq_run k calls ord st1 = (rs1, st')" and rs: "rs = r # rs1"
    using Cons.prems(4) one by (auto split: prod.splits)
  note c = seq_alloc_claims [OF Cons.prems(1) k one]
  from c have m1: "maps_ok st1" "AUFS_SB st1 = AUFS_SB st0" "n_zones st1 = n_zones st0"
    using Cons.prems(2,3) by simp_all
  show ?case
  proof (cases a)
    case (Suc a')
    then show ?thesis using Cons.IH [OF m1 rest, of a' "b - 1"] Cons.prems(5-7) rs by simp
  next
    case 0
    then have mem: "r \<in> set rs1" and ra: "rs ! a = r" using Cons.prems(5-7) rs by (cases b; simp)+
    have "r \<noteq> Inode_result (Some z) e" for z e
      using seq_run_claims [OF m1(1) k rest] mem c by blast
    moreover have "z = 0" if z: "r = Zone_result (Ret z)" for z
    proof (rule ccontr)
      assume "z \<noteq> 0"
      then obtain q q' where "q < n_zones st" "q \<in> used_zones bo st1" "z = ucast (zone_block (AUFS_SB st) (of_nat q))"
          and "q' < n_zones st1" "q' \<notin> used_zones bo st1" "z = ucast (zone_block (AUFS_SB st1) (of_nat q'))"
        using c seq_run_claims [OF m1(1) k rest] mem z by blast
      then show False using zone_word_inj [OF lay, of q q'] Cons.prems(2,3) m1(2,3) by auto
    qed
    ultimately show ?thesis using ra by blast
  qed
qed

end

subsection \<open>Progress\<close>

text \<open>A bound on the steps a thread has left.\<close>

fun pc_work :: "fs \<Rightarrow> alloc_pc \<Rightarrow> nat" where
  "pc_work st (Z_lock i) = 3 * (length (s_zmap (AUFS_SB st)) - unat i) + 4"
| "pc_work st (Z_find i) = 3 * (length (s_zmap (AUFS_SB st)) - unat i) + 3"
| "pc_work st (Z_skip i) = 3 * (length (s_zmap (AUFS_SB st)) - unat i) + 2"
| "pc_work st (Z_set i j) = 3" | "pc_work st (Z_unlock i j) = 2" | "pc_work st (Z_dirty i j) = 1"
| "pc_work st I_start = length (s_imap (AUFS_SB st)) + 8"
| "pc_work st I_lock = length (s_imap (AUFS_SB st)) + 7"
| "pc_work st (I_find i) = length (s_imap (AUFS_SB st)) - unat i + 6"
| "pc_work st I_full = 1" | "pc_work st (I_set i jj) = 5" | "pc_work st (I_unlock i jj) = 4"
| "pc_work st (I_dirty i jj) = 3" | "pc_work st (I_init jj) = 2" | "pc_work st (Returned r) = 0"

context minix_bitmap
begin

lemma alloc_step_work:
  assumes maps: "maps_ok st" and ok: "pc_ok k st call pc"
    and run: "alloc_step k call t pc lk st = Some (pc', lk', st')"
  shows "AUFS_SB st' = AUFS_SB st \<and> pc_work st pc' < pc_work st pc"
proof -
  note a = maps_ok_areas [OF maps]
  note zw = loop_words [OF a(1,6,3)] and iw = loop_words [OF a(2,6,4)]
  show ?thesis
  proof (cases call)
    case New_zone
    then show ?thesis
      using ok run zw by (cases pc) (auto simp: Let_def AUFS_SB_def split: if_splits)
  next
    case (New_inode dir mode)
    then show ?thesis
      using ok run iw by (cases pc) (auto simp: Let_def AUFS_SB_def split: if_splits prod.splits)
  qed
qed

lemma alloc_step_enabled:
  assumes "pc_ok k st call pc" and "\<forall>r. pc \<noteq> Returned r" and "critical pc \<or> lk = None"
  shows "alloc_step k call t pc lk st \<noteq> None"
  using assms by (cases call; cases pc) (auto simp: Let_def split: prod.splits)

lemma alloc_conc_enabled:
  assumes inv: "conc_inv k calls st0 c" and t: "t < length calls" "\<forall>r. al_pcs c ! t \<noteq> Returned r"
  shows "\<exists>c'. alloc_conc k calls c c'"
proof -
  obtain u where u: "u < length calls" "\<forall>r. al_pcs c ! u \<noteq> Returned r"
    and free: "critical (al_pcs c ! u) \<or> al_lock c = None"
  proof (cases "al_lock c")
    case None
    then show ?thesis using that t by blast
  next
    case (Some u)
    then have "u < length calls" "critical (al_pcs c ! u)" using inv by (auto simp: conc_inv_def)
    then show ?thesis using that [of u] by (cases "al_pcs c ! u") auto
  qed
  have "pc_ok k (al_fs c) (calls ! u) (al_pcs c ! u)" using inv u(1) by (simp add: conc_inv_def)
  from alloc_step_enabled [OF this u(2) free]
  obtain pc lk st where "alloc_step k (calls ! u) u (al_pcs c ! u) (al_lock c) (al_fs c) = Some (pc, lk, st)"
    by (metis not_None_eq prod_cases3)
  then show ?thesis using u(1) conc_thread by blast
qed

lemma alloc_conc_work:
  assumes inv: "conc_inv k calls st0 c" and step: "alloc_conc k calls c c'"
  shows "(\<Sum>pc \<leftarrow> al_pcs c'. pc_work (al_fs c') pc) < (\<Sum>pc \<leftarrow> al_pcs c. pc_work (al_fs c) pc)"
proof -
  obtain t pc lk st where t: "t < length calls"
    and run: "alloc_step k (calls ! t) t (al_pcs c ! t) (al_lock c) (al_fs c) = Some (pc, lk, st)"
    and c': "c' = \<lparr>al_fs = st, al_lock = lk, al_pcs = (al_pcs c)[t := pc]\<rparr>"
    using step by (elim alloc_concE) blast
  have len: "t < length (al_pcs c)" and "maps_ok (al_fs c)" "pc_ok k (al_fs c) (calls ! t) (al_pcs c ! t)"
    using inv t by (auto simp: conc_inv_def)
  from alloc_step_work [OF this(2,3) run]
  have sb: "AUFS_SB st = AUFS_SB (al_fs c)" and less: "pc_work (al_fs c) pc < pc_work (al_fs c) (al_pcs c ! t)"
    by simp_all
  have "pc_work st p = pc_work (al_fs c) p" for p using sb by (cases p) simp_all
  then have "(\<Sum>p \<leftarrow> al_pcs c'. pc_work (al_fs c') p) = sum_list ((map (pc_work (al_fs c)) (al_pcs c))[t := pc_work (al_fs c) pc])"
    by (simp add: c' map_update)
  then show ?thesis
    using less len elem_le_sum_list [of t "map (pc_work (al_fs c)) (al_pcs c)"] by (simp add: sum_list_update)
qed

end

subsection \<open>Properties\<close>

text \<open>A schedule: the threads that move, one after the other.\<close>

fun run_schedule :: "kapi \<Rightarrow> alloc_call list \<Rightarrow> nat list \<Rightarrow> allocs \<Rightarrow> allocs option" where
  "run_schedule k calls [] c = Some c"
| "run_schedule k calls (t # ts) c =
     (if length calls \<le> t then None
      else
        (case alloc_step k (calls ! t) t (al_pcs c ! t) (al_lock c) (al_fs c) of
           None \<Rightarrow> None
         | Some (pc, lk, st) \<Rightarrow>
             run_schedule k calls ts \<lparr>al_fs = st, al_lock = lk, al_pcs = (al_pcs c)[t := pc]\<rparr>))"

lemma run_schedule_reaches:
  assumes "run_schedule k calls ts c = Some c'"
  shows "(alloc_conc k calls ^^ length ts) c c'" and "(alloc_conc k calls)\<^sup>*\<^sup>* c c'"
proof -
  show "(alloc_conc k calls ^^ length ts) c c'"
    using assms
  proof (induction ts arbitrary: c)
    case (Cons t ts)
    then obtain pc lk st where t: "t < length calls"
      and run: "alloc_step k (calls ! t) t (al_pcs c ! t) (al_lock c) (al_fs c) = Some (pc, lk, st)"
      and rest: "run_schedule k calls ts \<lparr>al_fs = st, al_lock = lk, al_pcs = (al_pcs c)[t := pc]\<rparr> = Some c'"
      by (auto split: if_splits option.splits)
    from relpowp_Suc_I2 [OF conc_thread [OF t run] Cons.IH [OF rest]] show ?case by simp
  qed simp
  then show "(alloc_conc k calls)\<^sup>*\<^sup>* c c'" by (rule relpowp_imp_rtranclp)
qed

lemma demo_schedule:
  obtains c where "run_schedule ref_kernel [New_zone, New_zone] [0, 0, 0, 0, 1, 0, 1, 1, 1, 1]
      (start_allocs [New_zone, New_zone] demo_open) = Some c"
    and "al_pcs c = [Returned (Zone_result (Ret 196)), Returned (Zone_result (Ret 260))]"
proof -
  have "map_option al_pcs (run_schedule ref_kernel [New_zone, New_zone] [0, 0, 0, 0, 1, 0, 1, 1, 1, 1]
      (start_allocs [New_zone, New_zone] demo_open)) =
    Some [Returned (Zone_result (Ret 196)), Returned (Zone_result (Ret 260))]"
    by code_simp
  then show ?thesis using that by auto
qed

lemma demo_open_maps: "maps_ok demo_open" "layout_inv le_bitops 4 demo_open"
  using demo_open_own by (auto simp: own_inv_def layout_inv_def)

text \<open>
  C4: any interleaving of concurrent calls of \<^verbatim>\<open>aufs_new_zone\<close> and \<^verbatim>\<open>aufs_new_inode\<close>, once all of
  them returned, has the results of the calls made one after the other in some order, and leaves
  the same bytes in every buffer.
\<close>

theorem allocators_linearizable:
  assumes "minix_bitmap (k_bits k)" and "maps_ok st0"
    and "(alloc_conc k calls)\<^sup>*\<^sup>* (start_allocs calls st0) c"
    and ret: "\<forall>t < length calls. al_pcs c ! t = Returned (rs t)"
  shows "\<exists>ord st. distinct ord \<and> set ord = {..< length calls} \<and>
    seq_run k calls ord st0 = (map rs ord, st) \<and> b_data (al_fs c) = b_data st"
proof -
  have "conc_inv k calls st0 c" using minix_bitmap.conc_inv_reachable [OF assms(1,3) refl assms(2)] .
  then obtain ord sq where ord: "distinct ord"
    "set ord = {t. t < length calls \<and> outcome (al_fs c) (al_pcs c ! t) \<noteq> None}"
    "seq_run k calls ord st0 = (map (\<lambda>t. the (outcome (al_fs c) (al_pcs c ! t))) ord, sq)"
    "same_maps (al_fs c) sq"
    unfolding conc_inv_def by blast
  have "set ord = {..< length calls}" using ord(2) ret by auto
  moreover from this have "map (\<lambda>t. the (outcome (al_fs c) (al_pcs c ! t))) ord = map rs ord"
    using ret by (intro map_cong refl) auto
  ultimately show ?thesis using ord by (auto simp: same_maps_def)
qed

theorem allocators_linearizable_witness:
  "\<exists>ord st. distinct ord \<and> set ord = {..< 2} \<and>
     seq_run ref_kernel [New_zone, New_zone] ord demo_open =
       (map (\<lambda>t. Zone_result (Ret (if t = 0 then 196 else 260))) ord, st)"
proof -
  obtain c where run: "run_schedule ref_kernel [New_zone, New_zone] [0, 0, 0, 0, 1, 0, 1, 1, 1, 1]
      (start_allocs [New_zone, New_zone] demo_open) = Some c"
    and pcs: "al_pcs c = [Returned (Zone_result (Ret 196)), Returned (Zone_result (Ret 260))]"
    by (rule demo_schedule)
  have bm: "minix_bitmap (k_bits ref_kernel)" by (simp add: le_map.minix_bitmap_axioms)
  have "\<forall>t < length [New_zone, New_zone]. al_pcs c ! t = Returned (Zone_result (Ret (if t = 0 then 196 else 260)))"
    using pcs by (simp add: less_Suc_eq all_conj_distrib)
  from allocators_linearizable [OF bm demo_open_maps(1) run_schedule_reaches(2) [OF run] this]
  show ?thesis by (simp add: numeral_2_eq_2) blast
qed

text \<open>Two calls with the same result got nothing.\<close>

lemma same_result_empty:
  assumes bm: "minix_bitmap (k_bits k)" and lay: "layout_inv (k_bits k) rb st0"
    and run: "(alloc_conc k calls)\<^sup>*\<^sup>* (start_allocs calls st0) c"
    and t: "t < length calls" "u < length calls" "t \<noteq> u"
    and ret: "al_pcs c ! t = Returned r" "al_pcs c ! u = Returned r"
  shows "(\<forall>y e. r \<noteq> Inode_result (Some y) e) \<and> (\<forall>z. r = Zone_result (Ret z) \<longrightarrow> z = 0)"
proof -
  have maps: "maps_ok st0" using lay by (simp add: layout_inv_def)
  have "conc_inv k calls st0 c" using minix_bitmap.conc_inv_reachable [OF bm run refl maps] .
  then obtain ord sq where ord: "distinct ord"
    "set ord = {t. t < length calls \<and> outcome (al_fs c) (al_pcs c ! t) \<noteq> None}"
    "seq_run k calls ord st0 = (map (\<lambda>t. the (outcome (al_fs c) (al_pcs c ! t))) ord, sq)"
    unfolding conc_inv_def by blast
  have "t \<in> set ord" "u \<in> set ord" using ord(2) t ret by auto
  then obtain a b where ab: "a < length ord" "ord ! a = t" "b < length ord" "ord ! b = u"
    by (metis in_set_conv_nth)
  let ?rs = "map (\<lambda>t. the (outcome (al_fs c) (al_pcs c ! t))) ord"
  have rs: "?rs ! a = r" "?rs ! b = r" using ab ret by simp_all
  have "a \<noteq> b" using ab t(3) by auto
  note d = minix_bitmap.seq_run_distinct [OF bm lay refl maps refl refl ord(3)]
  show ?thesis
    using d [of a b] d [of b a] rs ab(1,3) \<open>a \<noteq> b\<close> by (cases a b rule: linorder_cases) auto
qed

text \<open>A call that returned an inode reported no error.\<close>

lemma returned_inode_error:
  assumes bm: "minix_bitmap (k_bits k)" and maps: "maps_ok st0"
    and run: "(alloc_conc k calls)\<^sup>*\<^sup>* (start_allocs calls st0) c"
    and t: "t < length calls" "al_pcs c ! t = Returned (Inode_result (Some x) e)"
  shows "e = 0"
proof -
  have "conc_inv k calls st0 c" using minix_bitmap.conc_inv_reachable [OF bm run refl maps] .
  then obtain ord sq where ord: "set ord = {t. t < length calls \<and> outcome (al_fs c) (al_pcs c ! t) \<noteq> None}"
    "seq_run k calls ord st0 = (map (\<lambda>t. the (outcome (al_fs c) (al_pcs c ! t))) ord, sq)"
    unfolding conc_inv_def by blast
  have "t \<in> set ord" using ord(1) t by simp
  then have "Inode_result (Some x) e \<in> set (map (\<lambda>t. the (outcome (al_fs c) (al_pcs c ! t))) ord)"
    using t(2) by (force simp: image_iff)
  then show ?thesis using minix_bitmap.seq_run_claims [OF bm maps refl ord(2)] by blast
qed

text \<open>
  C16: concurrent calls never get the same zone or the same inode number: two different calls that
  returned a zone block other than 0 returned different blocks, and two that returned an inode
  returned different numbers.
\<close>

theorem allocators_never_share:
  assumes "minix_bitmap (k_bits k)" and "layout_inv (k_bits k) rb st0"
    and "(alloc_conc k calls)\<^sup>*\<^sup>* (start_allocs calls st0) c"
    and "t < length calls" and "u < length calls" and "t \<noteq> u"
  shows "(al_pcs c ! t = Returned (Zone_result (Ret a)) \<longrightarrow> al_pcs c ! u = Returned (Zone_result (Ret b)) \<longrightarrow>
            a \<noteq> 0 \<longrightarrow> a \<noteq> b) \<and>
         (al_pcs c ! t = Returned (Inode_result (Some x) e) \<longrightarrow>
            al_pcs c ! u = Returned (Inode_result (Some y) e') \<longrightarrow> x \<noteq> y)"
proof -
  have "maps_ok st0" using assms(2) by (simp add: layout_inv_def)
  note err = returned_inode_error [OF assms(1) this assms(3)]
  show ?thesis using same_result_empty [OF assms] err [OF assms(4)] err [OF assms(5)] by blast
qed

theorem allocators_never_share_witness:
  "\<exists>c. (alloc_conc ref_kernel [New_zone, New_zone])\<^sup>*\<^sup>* (start_allocs [New_zone, New_zone] demo_open) c \<and>
       al_pcs c = [Returned (Zone_result (Ret 196)), Returned (Zone_result (Ret 260))] \<and> (196 :: u32) \<noteq> 260"
proof -
  obtain c where run: "run_schedule ref_kernel [New_zone, New_zone] [0, 0, 0, 0, 1, 0, 1, 1, 1, 1]
      (start_allocs [New_zone, New_zone] demo_open) = Some c"
    and pcs: "al_pcs c = [Returned (Zone_result (Ret 196)), Returned (Zone_result (Ret 260))]"
    by (rule demo_schedule)
  note reach = run_schedule_reaches(2) [OF run]
  have bm: "minix_bitmap (k_bits ref_kernel)" and lay: "layout_inv (k_bits ref_kernel) 4 demo_open"
    by (simp_all add: le_map.minix_bitmap_axioms demo_open_maps)
  have "(196 :: u32) \<noteq> 260"
    using allocators_never_share [OF bm lay reach, of 0 1 196 260] pcs by simp
  then show ?thesis using reach pcs by blast
qed

text \<open>
  C17: concurrent allocators finish. No interleaving is longer than a bound that depends only on
  the number of calls and the sizes of the bitmaps, and as long as a call has not returned some
  thread can move, so there is no deadlock on the lock.
\<close>

theorem allocators_finish:
  assumes bm: "minix_bitmap (k_bits k)" and maps: "maps_ok st0"
    and run: "(alloc_conc k calls ^^ m) (start_allocs calls st0) c"
  shows "m \<le> length calls * (3 * length (s_zmap (AUFS_SB st0)) + length (s_imap (AUFS_SB st0)) + 8) \<and>
    ((\<forall>t < length calls. \<exists>r. al_pcs c ! t = Returned r) \<or> (\<exists>c'. alloc_conc k calls c c'))"
proof -
  let ?work = "\<lambda>c. \<Sum>pc \<leftarrow> al_pcs c. pc_work (al_fs c) pc"
  have inv: "conc_inv k calls st0 c"
    using minix_bitmap.conc_inv_reachable [OF bm relpowp_imp_rtranclp [OF run] refl maps] .
  have "m + ?work c \<le> ?work (start_allocs calls st0)"
    using run
  proof (induction m arbitrary: c)
    case (Suc m)
    then obtain c1 where one: "(alloc_conc k calls ^^ m) (start_allocs calls st0) c1" "alloc_conc k calls c1 c"
      by auto
    have "conc_inv k calls st0 c1"
      using minix_bitmap.conc_inv_reachable [OF bm relpowp_imp_rtranclp [OF one(1)] refl maps] .
    from minix_bitmap.alloc_conc_work [OF bm this one(2)] Suc.IH [OF one(1)] show ?case by linarith
  qed simp
  also have "?work (start_allocs calls st0) \<le>
      (\<Sum>call \<leftarrow> calls. 3 * length (s_zmap (AUFS_SB st0)) + length (s_imap (AUFS_SB st0)) + 8)"
  proof -
    have "pc_work st0 (start_pc call) \<le> 3 * length (s_zmap (AUFS_SB st0)) + length (s_imap (AUFS_SB st0)) + 8" for call
      by (cases call) simp_all
    then show ?thesis by (simp add: start_allocs_def o_def sum_list_mono)
  qed
  finally have "m \<le> length calls * (3 * length (s_zmap (AUFS_SB st0)) + length (s_imap (AUFS_SB st0)) + 8)"
    by (simp add: sum_list_triv)
  then show ?thesis using minix_bitmap.alloc_conc_enabled [OF bm inv] by blast
qed

theorem allocators_finish_witness:
  "\<exists>c c'. (alloc_conc ref_kernel [New_zone, New_zone] ^^ 1) (start_allocs [New_zone, New_zone] demo_open) c \<and>
          al_lock c = Some 0 \<and> alloc_conc ref_kernel [New_zone, New_zone] c c'"
proof -
  have "map_option (\<lambda>c. (al_lock c, al_pcs c)) (run_schedule ref_kernel [New_zone, New_zone] [0]
      (start_allocs [New_zone, New_zone] demo_open)) = Some (Some 0, [Z_find 0, Z_lock 0])"
    by code_simp
  then obtain c where run: "run_schedule ref_kernel [New_zone, New_zone] [0]
      (start_allocs [New_zone, New_zone] demo_open) = Some c"
    and c: "al_lock c = Some 0" "al_pcs c = [Z_find 0, Z_lock 0]" by auto
  have step: "(alloc_conc ref_kernel [New_zone, New_zone] ^^ 1) (start_allocs [New_zone, New_zone] demo_open) c"
    using run_schedule_reaches(1) [OF run] by simp
  have bm: "minix_bitmap (k_bits ref_kernel)" by (simp add: le_map.minix_bitmap_axioms)
  have "\<not> (\<forall>t < length [New_zone, New_zone]. \<exists>r. al_pcs c ! t = Returned r)"
    using c(2) by (auto intro!: exI [of _ 0])
  then have "\<exists>c'. alloc_conc ref_kernel [New_zone, New_zone] c c'"
    using allocators_finish [OF bm demo_open_maps(1) step] by blast
  then show ?thesis using step c(1) by blast
qed

end
