(* ===== verification/Kern_Super.thy ===== *)
theory Kern_Super
  imports Kern_Name_Props
begin

text \<open>
  \<^verbatim>\<open>kern/super.c\<close>: reading the super block and the bitmaps at mount time, releasing them, and the life of the
  module with its inode cache. Pointers that are used after they are freed or while they are null are
  modelled as such, and so are the references the module holds on buffers.
\<close>

subsection \<open>State of a mount\<close>

datatype 'a ptr = Null | Live 'a | Freed 'a

fun deref :: "'a ptr \<Rightarrow> 'a cres" where
  "deref Null = Fault NullDeref"
| "deref (Live x) = Ret x"
| "deref (Freed x) = Fault UseAfterFree"

fun kfree :: "'a ptr \<Rightarrow> 'a ptr cres" where
  "kfree Null = Ret Null"
| "kfree (Live x) = Ret (Freed x)"
| "kfree (Freed x) = Fault UseAfterFree"

text \<open>
  What a mount works on: the file system state with the super block's \<^verbatim>\<open>s_fs_info\<close> pointer, the number of
  references the module holds on each buffer (below zero when it released one it did not hold), whether its
  two allocations (the super block and the array of bitmap buffers) are live, and the root dentry.
\<close>

record mount =
  m_fs :: fs
  m_info :: "aufs_super_block ptr"
  m_refs :: "nat \<Rightarrow> int"
  m_asb_mem :: bool
  m_map_mem :: bool
  m_root :: "nat option"

text \<open>
  The kernel functions the mount code calls besides those of \<open>kapi\<close>: whether \<^verbatim>\<open>kzalloc\<close> gives memory for the super
  block and for an array of a size, \<^verbatim>\<open>sb_set_blocksize\<close> (\<open>None\<close>: refused), and whether \<^verbatim>\<open>d_make_root\<close> gives a dentry.
\<close>

record mount_api =
  ma_alloc_asb :: bool
  ma_alloc_map :: "nat \<Rightarrow> bool"
  ma_set_blocksize :: "u64 \<Rightarrow> fs \<Rightarrow> fs option"
  ma_make_root :: "nat \<Rightarrow> bool"

definition sb_bread :: "kapi \<Rightarrow> nat \<Rightarrow> mount \<Rightarrow> nat option \<times> mount" where
  "sb_bread k block m =
     (if k_bread k block then (Some block, m\<lparr>m_refs := (m_refs m)(block := m_refs m block + 1)\<rparr>) else (None, m))"

definition brelse :: "nat option \<Rightarrow> mount \<Rightarrow> mount" where
  "brelse bh m = (case bh of None \<Rightarrow> m | Some b \<Rightarrow> m\<lparr>m_refs := (m_refs m)(b := m_refs m b - 1)\<rparr>)"

subsection \<open>Reading the super block\<close>

text \<open>
  \<^verbatim>\<open>aufs_super_block_fill\<close> computes its block size from the zone size field before that field is loaded.
\<close>

definition aufs_super_block_fill :: "aufs_super_block \<Rightarrow> aufs_disk_super_block \<Rightarrow> aufs_super_block" where
  "aufs_super_block_fill asb dsb =
     (let block_size = (if 4096 < asb_zone_size asb then ucast (asb_zone_size asb) else 4096) :: u32;
          zone_size = ucast (dsb_block_size dsb) :: u64
      in asb\<lparr>asb_magic := ucast (dsb_magic dsb), asb_inode_blocks := ucast (dsb_inode_blocks dsb),
             asb_zone_size := zone_size, asb_root_inode := ucast (dsb_root_inode dsb),
             asb_inode_map_blocks := ucast (dsb_inode_map_blocks dsb),
             asb_zone_map_blocks := ucast (dsb_zone_map_blocks dsb),
             asb_alignment_num_blocks := ucast (dsb_alignment_num_blocks dsb),
             asb_blocks_per_zone := (if 4096 < zone_size then zone_size div 4096 else 1),
             asb_inodes_in_block := scast block_size div 64\<rparr>)"

text \<open>The zeroed memory \<^verbatim>\<open>kzalloc\<close> returns.\<close>

definition zeroed_asb :: aufs_super_block where
  "zeroed_asb =
     \<lparr>asb_magic = 0, asb_inode_blocks = 0, asb_zone_size = 0, asb_root_inode = 0, asb_inodes_in_block = 0,
      asb_inode_map_blocks = 0, asb_zone_map_blocks = 0, asb_blocks_per_zone = 0, asb_alignment_num_blocks = 0,
      s_zmap = [], s_imap = [], s_sbh = 0\<rparr>"

text \<open>A loop that reads bitmap blocks into zeroed slots: it stops at the first block it cannot read.\<close>

fun read_bitmap :: "kapi \<Rightarrow> nat \<Rightarrow> nat \<Rightarrow> mount \<Rightarrow> nat option list \<times> mount" where
  "read_bitmap k block 0 m = ([], m)"
| "read_bitmap k block (Suc n) m =
     (case sb_bread k block m of
        (None, m1) \<Rightarrow> (replicate (Suc n) None, m1)
      | (Some bh, m1) \<Rightarrow> (case read_bitmap k (block + 1) n m1 of (bhs, m2) \<Rightarrow> (Some bh # bhs, m2)))"

text \<open>The labels \<^verbatim>\<open>out_freemap\<close>, \<^verbatim>\<open>out_release\<close> and \<^verbatim>\<open>out\<close>.\<close>

definition out_free :: "mount \<Rightarrow> mount" where
  "out_free m = m\<lparr>m_asb_mem := False\<rparr>"

definition out_release :: "nat \<Rightarrow> mount \<Rightarrow> mount" where
  "out_release bh m = out_free (brelse (Some bh) m)"

definition out_freemap :: "nat option list \<Rightarrow> nat option list \<Rightarrow> nat \<Rightarrow> mount \<Rightarrow> mount" where
  "out_freemap imap zmap bh m =
     out_release bh ((fold brelse zmap (fold brelse imap m))\<lparr>m_map_mem := False\<rparr>)"

text \<open>
  The last part of \<^verbatim>\<open>aufs_super_block_read\<close>, with the array of bitmap buffers filled: \<^verbatim>\<open>s_zmap\<close> and \<^verbatim>\<open>s_imap\<close> point
  into that array.
\<close>

definition super_block_finish ::
    "kapi \<Rightarrow> aufs_super_block \<Rightarrow> nat list \<Rightarrow> mount \<Rightarrow> (aufs_super_block option \<times> mount) cres" where
  "super_block_finish k asb bufs m =
     (let z = unat (asb_zone_map_blocks asb)
      in if length bufs \<le> 0 \<or> length bufs \<le> z then Fault OutOfBounds
         else
           let st1 = put_buffer (bufs ! 0) (set_map_bit (k_bits k) 0 (b_data (m_fs m) (bufs ! 0))) (m_fs m);
               st2 = put_buffer (bufs ! z) (set_map_bit (k_bits k) 0 (b_data st1 (bufs ! z))) st1;
               m' = m\<lparr>m_fs := st2\<rparr>
           in if asb_magic asb \<noteq> AUFS_MAGIC then Ret (None, out_free m')
              else Ret (Some (asb\<lparr>s_zmap := take z bufs, s_imap := drop z bufs\<rparr>), m'))"

definition aufs_super_block_read ::
    "kapi \<Rightarrow> mount_api \<Rightarrow> mount \<Rightarrow> (aufs_super_block option \<times> mount) cres" where
  "aufs_super_block_read k a m =
     (if \<not> ma_alloc_asb a then Ret (None, m)
      else
        case sb_bread k 0 (m\<lparr>m_asb_mem := True\<rparr>) of
          (None, m1) \<Rightarrow> Ret (None, out_free m1)
        | (Some bh, m1) \<Rightarrow>
            if length (b_data (m_fs m1) bh) < 28 then Fault OutOfBounds
            else
              let asb = (aufs_super_block_fill zeroed_asb (read_disk_super (b_data (m_fs m1) bh)))\<lparr>s_sbh := bh\<rparr>;
                  m2 = brelse (Some bh) m1;
                  z = unat (asb_zone_map_blocks asb);
                  i = unat (asb_inode_map_blocks asb)
              in if \<not> ma_alloc_map a ((z + i) * 8) then Ret (None, out_release bh m2)
                 else
                   (case read_bitmap k 1 z (m2\<lparr>m_map_mem := True\<rparr>) of
                      (zmap, m3) \<Rightarrow>
                        if None \<in> set zmap then Ret (None, out_freemap (replicate i None) zmap bh m3)
                        else
                          (case read_bitmap k (1 + z) i m3 of
                             (imap, m4) \<Rightarrow>
                               if None \<in> set imap then Ret (None, out_freemap imap zmap bh m4)
                               else super_block_finish k asb (map the (zmap @ imap)) m4)))"

subsection \<open>Mounting and unmounting\<close>

text \<open>\<^verbatim>\<open>aufs_fill_sb\<close> reads \<^verbatim>\<open>asb->asb_zone_size\<close> before it tests the pointer.\<close>

definition aufs_fill_sb :: "kapi \<Rightarrow> mount_api \<Rightarrow> mount \<Rightarrow> (int \<times> mount) cres" where
  "aufs_fill_sb k a m =
     (case aufs_super_block_read k a m of
        Inl f \<Rightarrow> Fault f
      | Inr (None, m1) \<Rightarrow> Fault NullDeref
      | Inr (Some asb, m1) \<Rightarrow>
          let sb_blocksize = (if 4096 < asb_zone_size asb then 4096 else ucast (asb_zone_size asb)) :: u32;
              m2 = m1\<lparr>m_info := Live asb, m_fs := (m_fs m1)\<lparr>s_fs_info := asb\<rparr>\<rparr>
          in case ma_set_blocksize a (scast sb_blocksize) (m_fs m2) of
               None \<Rightarrow> Ret (- EINVAL, m2)
             | Some st \<Rightarrow>
                 (case aufs_inode_get k (asb_root_inode asb) st of
                    Inl f \<Rightarrow> Fault f
                  | Inr (Inl e, st1) \<Rightarrow> Ret (e, m2\<lparr>m_fs := st1\<rparr>)
                  | Inr (Inr root, st1) \<Rightarrow>
                      if ma_make_root a root then Ret (0, m2\<lparr>m_fs := st1, m_root := Some root\<rparr>)
                      else Ret (- ENOMEM, m2\<lparr>m_fs := st1, m_root := None\<rparr>)))"

text \<open>A loop of \<^verbatim>\<open>aufs_put_super\<close>: the bound and the array are read through the pointer.\<close>

definition release_bitmap ::
    "aufs_super_block ptr \<Rightarrow> (aufs_super_block \<Rightarrow> u64) \<Rightarrow> (aufs_super_block \<Rightarrow> nat list) \<Rightarrow> mount \<Rightarrow> mount cres" where
  "release_bitmap p count array m =
     (case deref p of
        Inl f \<Rightarrow> Fault f
      | Inr asb \<Rightarrow>
          if length (array asb) < unat (count asb) then Fault OutOfBounds
          else Ret (fold (\<lambda>b. brelse (Some b)) (take (unat (count asb)) (array asb)) m))"

definition aufs_put_super :: "mount \<Rightarrow> mount cres" where
  "aufs_put_super m =
     (case deref (m_info m) of
        Inl f \<Rightarrow> Fault f
      | Inr asb \<Rightarrow>
          let m1 = m\<lparr>m_fs := mark_buffer_dirty (s_sbh asb) (m_fs m)\<rparr>
          in case kfree (m_info m) of
               Inl f \<Rightarrow> Fault f
             | Inr p \<Rightarrow>
                 let m2 = m1\<lparr>m_info := Null, m_asb_mem := False\<rparr>
                 in case release_bitmap p asb_inode_map_blocks s_imap m2 of
                      Inl f \<Rightarrow> Fault f
                    | Inr m3 \<Rightarrow>
                        (case release_bitmap p asb_zone_map_blocks s_zmap m3 of
                           Inl f \<Rightarrow> Fault f
                         | Inr m4 \<Rightarrow>
                             (case deref p of
                                Inl f \<Rightarrow> Fault f
                              | Inr _ \<Rightarrow> Ret (m4\<lparr>m_map_mem := False\<rparr>))))"

text \<open>\<^verbatim>\<open>aufs_mount\<close> hands the fill function to the kernel's \<^verbatim>\<open>mount_bdev\<close> and returns its result.\<close>

definition aufs_mount ::
    "kapi \<Rightarrow> mount_api \<Rightarrow> ((mount \<Rightarrow> (int \<times> mount) cres) \<Rightarrow> mount \<Rightarrow> (int \<times> mount) cres) \<Rightarrow> mount \<Rightarrow>
     (int \<times> mount) cres" where
  "aufs_mount k a mount_bdev m = mount_bdev (aufs_fill_sb k a) m"


subsection \<open>Reading and releasing bitmap buffers\<close>

definition refs_plus :: "nat set \<Rightarrow> int \<Rightarrow> mount \<Rightarrow> mount" where
  "refs_plus B d m = m\<lparr>m_refs := (\<lambda>b. if b \<in> B then m_refs m b + d else m_refs m b)\<rparr>"

lemma refs_plus_sel [simp]:
  "m_fs (refs_plus B d m) = m_fs m" "m_info (refs_plus B d m) = m_info m" "m_root (refs_plus B d m) = m_root m"
  "m_asb_mem (refs_plus B d m) = m_asb_mem m" "m_map_mem (refs_plus B d m) = m_map_mem m"
  "m_refs (refs_plus B d m) b = (if b \<in> B then m_refs m b + d else m_refs m b)"
  by (simp_all add: refs_plus_def)

lemma mount_refs_eqI:
  "m_fs m = m_fs m' \<Longrightarrow> m_info m = m_info m' \<Longrightarrow> m_root m = m_root m' \<Longrightarrow> m_asb_mem m = m_asb_mem m' \<Longrightarrow>
   m_map_mem m = m_map_mem m' \<Longrightarrow> (\<And>b. m_refs m b = m_refs m' b) \<Longrightarrow> m = m'" for m :: mount
  by (rule mount.equality) auto

lemma brelse_Some: "brelse (Some b) m = refs_plus {b} (- 1) m"
  by (rule mount_refs_eqI) (simp_all add: brelse_def)

lemma brelse_None [simp]: "brelse None = id"
  by (simp add: brelse_def fun_eq_iff)

lemma refs_plus_empty [simp]: "refs_plus {} d m = m" "refs_plus B 0 m = m"
  by (rule mount_refs_eqI; simp)+

lemma refs_plus_union: "A \<inter> B = {} \<Longrightarrow> refs_plus A d (refs_plus B d m) = refs_plus (A \<union> B) d m"
  by (rule mount_refs_eqI) auto

lemma refs_plus_cancel [simp]: "refs_plus B (- d) (refs_plus B d m) = m" "refs_plus B d (refs_plus B (- d) m) = m"
  by (rule mount_refs_eqI; simp)+

lemma sb_bread_eq: "sb_bread k b m = (if k_bread k b then (Some b, refs_plus {b} 1 m) else (None, m))"
  by (auto simp: sb_bread_def intro: mount_refs_eqI)

lemma read_bitmap_eq:
  "\<exists>j \<le> n. read_bitmap k block n m =
      (map Some [block..<block + j] @ replicate (n - j) None, refs_plus {block..<block + j} 1 m) \<and>
     (\<forall>b \<in> {block..<block + j}. k_bread k b) \<and> (j < n \<longrightarrow> \<not> k_bread k (block + j))"
proof (induction n arbitrary: block m)
  case (Suc n)
  show ?case
  proof (cases "k_bread k block")
    case True
    let ?m = "refs_plus {block} 1 m"
    obtain j where j: "j \<le> n" "read_bitmap k (block + 1) n ?m =
        (map Some [block + 1..<block + 1 + j] @ replicate (n - j) None, refs_plus {block + 1..<block + 1 + j} 1 ?m)"
      "\<forall>b \<in> {block + 1..<block + 1 + j}. k_bread k b" "j < n \<longrightarrow> \<not> k_bread k (block + 1 + j)"
      using Suc.IH by blast
    have "sb_bread k block m = (Some block, ?m)" using True by (simp add: sb_bread_eq)
    moreover have "{block + 1..<block + 1 + j} \<union> {block} = {block..<block + Suc j}" by auto
    moreover have "[block..<block + Suc j] = block # [block + 1..<block + 1 + j]" by (simp add: upt_conv_Cons)
    moreover have "\<forall>b \<in> {block + 1..<block + 1 + j} \<union> {block}. k_bread k b" using j(3) True by blast
    ultimately show ?thesis
      using j(1,2,4) by (intro exI [of _ "Suc j"]) (simp add: refs_plus_union)
  next
    case False
    then show ?thesis by (intro exI [of _ 0]) (simp add: sb_bread_eq)
  qed
qed simp

lemma read_bitmap_all:
  assumes "\<forall>b \<in> {block..<block + n}. k_bread k b"
  shows "read_bitmap k block n m = (map Some [block..<block + n], refs_plus {block..<block + n} 1 m)"
proof -
  obtain j where j: "j \<le> n" "read_bitmap k block n m =
      (map Some [block..<block + j] @ replicate (n - j) None, refs_plus {block..<block + j} 1 m)"
    "j < n \<longrightarrow> \<not> k_bread k (block + j)"
    using read_bitmap_eq [of n k block m] by blast
  then have "j = n" using assms by (cases "j < n") auto
  then show ?thesis using j(2) by simp
qed

lemma fold_brelse: "distinct bs \<Longrightarrow> fold brelse (map Some bs) m = refs_plus (set bs) (- 1) m"
proof (induction bs arbitrary: m)
  case (Cons b bs)
  then show ?case by (simp add: brelse_Some refs_plus_union Un_commute)
qed simp

lemma fold_brelse_None [simp]: "fold brelse (replicate n None) m = m"
  by (induction n) simp_all

lemma release_read_bitmap:
  assumes "read_bitmap k block n m = (bhs, m')"
  shows "fold brelse bhs m' = m" and "None \<in> set bhs \<longleftrightarrow> (\<exists>b \<in> {block..<block + n}. \<not> k_bread k b)"
proof -
  obtain j where j: "j \<le> n" "bhs = map Some [block..<block + j] @ replicate (n - j) None"
    "m' = refs_plus {block..<block + j} 1 m" "\<forall>b \<in> {block..<block + j}. k_bread k b" "j < n \<longrightarrow> \<not> k_bread k (block + j)"
    using read_bitmap_eq [of n k block m] assms by auto
  then show "fold brelse bhs m' = m" by (simp add: fold_brelse)
  show "None \<in> set bhs \<longleftrightarrow> (\<exists>b \<in> {block..<block + n}. \<not> k_bread k b)"
  proof (cases "j = n")
    case False
    then have "block + j \<in> {block..<block + n}" "\<not> k_bread k (block + j)" "None \<in> set bhs" using j by auto
    then show ?thesis by blast
  qed (use j in auto)
qed


lemma refs_plus_mem [simp]:
  "(refs_plus B d m)\<lparr>m_map_mem := x\<rparr> = refs_plus B d (m\<lparr>m_map_mem := x\<rparr>)"
  "(refs_plus B d m)\<lparr>m_asb_mem := x\<rparr> = refs_plus B d (m\<lparr>m_asb_mem := x\<rparr>)"
  by (rule mount_refs_eqI; simp)+

text \<open>The super block fields the mount code loads, and the numbers of bitmap blocks.\<close>

definition disk_asb :: "mount \<Rightarrow> aufs_super_block" where
  "disk_asb m = aufs_super_block_fill zeroed_asb (read_disk_super (b_data (m_fs m) 0))"

definition map_blocks_of :: "mount \<Rightarrow> nat \<times> nat" where
  "map_blocks_of m = (unat (asb_zone_map_blocks (disk_asb m)), unat (asb_inode_map_blocks (disk_asb m)))"

definition read_prereq :: "kapi \<Rightarrow> mount_api \<Rightarrow> mount \<Rightarrow> bool" where
  "read_prereq k a m \<longleftrightarrow> ma_alloc_asb a \<and> k_bread k 0 \<and> 28 \<le> length (b_data (m_fs m) 0) \<and>
     ma_alloc_map a ((fst (map_blocks_of m) + snd (map_blocks_of m)) * 8)"

text \<open>Both bitmaps when every block of them can be read.\<close>

lemma read_maps_all:
  assumes all: "\<forall>b \<in> {1..<1 + z + i}. k_bread k b" and z: "read_bitmap k 1 z m = (zmap, m3)"
    and i: "read_bitmap k (1 + z) i m3 = (imap, m4)"
  shows "map the (zmap @ imap) = [1..<1 + z + i]" and "m4 = refs_plus {1..<1 + z + i} 1 m"
    and "None \<notin> set zmap" and "None \<notin> set imap"
proof -
  have split: "{1..<1 + z + i} = {1..<1 + z} \<union> {1 + z..<1 + z + i}" by auto
  have each: "\<forall>b \<in> {1..<1 + z}. k_bread k b" "\<forall>b \<in> {1 + z..<1 + z + i}. k_bread k b"
    using all unfolding split by blast+
  have m3: "zmap = map Some [1..<1 + z]" "m3 = refs_plus {1..<1 + z} 1 m"
    using z read_bitmap_all [OF each(1), of m] by simp_all
  have m4: "imap = map Some [1 + z..<1 + z + i]" "m4 = refs_plus {1 + z..<1 + z + i} 1 m3"
    using i read_bitmap_all [OF each(2), of m3] by simp_all
  have "{1 + z..<1 + z + i} \<inter> {1..<1 + z} = {}" by auto
  then show "m4 = refs_plus {1..<1 + z + i} 1 m"
    unfolding m4(2) m3(2) split by (simp only: refs_plus_union Un_commute)
  have "[1..<1 + z + i] = [1..<1 + z] @ [1 + z..<1 + z + i]" by (rule upt_add_eq_append) simp
  then show "map the (zmap @ imap) = [1..<1 + z + i]" unfolding m3(1) m4(1) by (simp add: o_def del: upt_Suc)
  show "None \<notin> set zmap" "None \<notin> set imap" by (auto simp: m3(1) m4(1))
qed

lemma super_block_read_eq:
  assumes "read_prereq k a m" and zi: "map_blocks_of m = (z, i)"
  shows "aufs_super_block_read k a m =
    (if \<exists>b \<in> {1..<1 + z + i}. \<not> k_bread k b
     then Ret (None, refs_plus {0} (- 1) (m\<lparr>m_map_mem := False, m_asb_mem := False\<rparr>))
     else super_block_finish k ((disk_asb m)\<lparr>s_sbh := 0\<rparr>) [1..<1 + z + i]
            (refs_plus {1..<1 + z + i} 1 (m\<lparr>m_asb_mem := True, m_map_mem := True\<rparr>)))"
proof -
  let ?m = "m\<lparr>m_asb_mem := True, m_map_mem := True\<rparr>"
  obtain zmap m3 where z: "read_bitmap k 1 z ?m = (zmap, m3)" by fastforce
  obtain imap m4 where i: "read_bitmap k (1 + z) i m3 = (imap, m4)" by fastforce
  note rz = release_read_bitmap [OF z] and ri = release_read_bitmap [OF i]
  have split: "{1..<1 + z + i} = {1..<1 + z} \<union> {1 + z..<1 + z + i}" by auto
  have body: "aufs_super_block_read k a m =
     (if None \<in> set zmap then Ret (None, out_freemap (replicate i None) zmap 0 m3)
      else if None \<in> set imap then Ret (None, out_freemap imap zmap 0 m4)
      else super_block_finish k ((disk_asb m)\<lparr>s_sbh := 0\<rparr>) (map the (zmap @ imap)) m4)"
    using assms z i
    by (simp add: aufs_super_block_read_def read_prereq_def sb_bread_eq brelse_Some disk_asb_def map_blocks_of_def
        Let_def)
  consider "\<exists>b \<in> {1..<1 + z}. \<not> k_bread k b"
    | "\<forall>b \<in> {1..<1 + z}. k_bread k b" "\<exists>b \<in> {1 + z..<1 + z + i}. \<not> k_bread k b"
    | "\<forall>b \<in> {1..<1 + z + i}. k_bread k b" unfolding split by blast
  then show ?thesis
  proof cases
    case 1
    then have "None \<in> set zmap" "\<exists>b \<in> {1..<1 + z + i}. \<not> k_bread k b" using rz(2) unfolding split by blast+
    then show ?thesis
      by (simp add: body out_freemap_def out_release_def out_free_def brelse_Some rz(1))
  next
    case 2
    then have "None \<notin> set zmap" "None \<in> set imap" "\<exists>b \<in> {1..<1 + z + i}. \<not> k_bread k b"
      using rz(2) ri(2) unfolding split by blast+
    then show ?thesis
      by (simp add: body out_freemap_def out_release_def out_free_def brelse_Some ri(1) rz(1))
  next
    case 3
    then have "\<not> (\<exists>b \<in> {1..<1 + z + i}. \<not> k_bread k b)" by blast
    with read_maps_all [OF 3 z i] show ?thesis by (simp only: body if_False)
  qed
qed

lemma disk_asb_sel [simp]:
  "asb_inodes_in_block (disk_asb m) = 64"
  "asb_magic (disk_asb m) = ucast (be32_at (b_data (m_fs m) 0) 0)"
  "asb_zone_size (disk_asb m) = ucast (be32_at (b_data (m_fs m) 0) 4)"
  "asb_root_inode (disk_asb m) = ucast (be32_at (b_data (m_fs m) 0) 8)"
  "asb_inode_blocks (disk_asb m) = ucast (be32_at (b_data (m_fs m) 0) 12)"
  "asb_inode_map_blocks (disk_asb m) = ucast (be32_at (b_data (m_fs m) 0) 16)"
  "asb_zone_map_blocks (disk_asb m) = ucast (be32_at (b_data (m_fs m) 0) 20)"
  "asb_alignment_num_blocks (disk_asb m) = ucast (be32_at (b_data (m_fs m) 0) 24)"
  "asb_blocks_per_zone (disk_asb m) =
     (if 4096 < asb_zone_size (disk_asb m) then asb_zone_size (disk_asb m) div 4096 else 1)"
  by (simp_all add: disk_asb_def aufs_super_block_fill_def read_disk_super_def zeroed_asb_def Let_def)


text \<open>What the mount code relies on of \<^verbatim>\<open>sb_set_blocksize\<close>: it sets the block size and nothing of the super block.\<close>

locale mount_kernel =
  fixes a :: mount_api
  assumes set_blocksize_sets: "ma_set_blocksize a bs st = Some st' \<Longrightarrow> s_blocksize st' = bs \<and> s_fs_info st' = s_fs_info st"
    and set_blocksize_same: "ma_set_blocksize a (s_blocksize st) st = Some st' \<Longrightarrow> st' = st"

lemma inode_get_error: "aufs_inode_get k no st = Ret (Inl e, st') \<Longrightarrow> e < 0"
  by (auto simp: aufs_inode_get_def Let_def split: option.splits if_splits)

text \<open>A zone is at most one block, or a whole number of blocks of 4096 bytes.\<close>

definition zone_size_ok :: "nat \<Rightarrow> bool" where
  "zone_size_ok zs \<longleftrightarrow> 0 < zs \<and> (zs \<le> 4096 \<or> 4096 dvd zs)"

lemma super_block_finish_eq:
  assumes "z = unat (asb_zone_map_blocks asb)" and "0 < z"
  shows "super_block_finish k asb [1..<1 + z + i] m =
    (if i = 0 then Fault OutOfBounds
     else
       let set = (\<lambda>b st. put_buffer b (set_map_bit (k_bits k) 0 (b_data (m_fs m) b)) st);
           m' = m\<lparr>m_fs := set (1 + z) (set 1 (m_fs m))\<rparr>
       in if asb_magic asb \<noteq> AUFS_MAGIC then Ret (None, out_free m')
          else Ret (Some (asb\<lparr>s_zmap := [1..<1 + z], s_imap := [1 + z..<1 + z + i]\<rparr>), m'))"
proof -
  have "[1..<1 + z + i] ! 0 = 1" using assms(2) by (simp add: nth_upt del: upt_Suc)
  moreover have "[1..<1 + z + i] ! z = 1 + z" if "0 < i" using that by (simp add: nth_upt del: upt_Suc)
  moreover have "take z [1..<1 + z + i] = [1..<1 + z]" "drop z [1..<1 + z + i] = [1 + z..<1 + z + i]"
    by (simp_all add: take_upt drop_upt del: upt_Suc)
  ultimately show ?thesis
    using assms by (simp add: super_block_finish_def Let_def del: upt_Suc One_nat_def)
qed

lemma super_block_read_prereq:
  assumes "aufs_super_block_read k a m = Ret (Some asb, m')"
  shows "read_prereq k a m"
  using assms
  by (auto simp: aufs_super_block_read_def read_prereq_def sb_bread_eq brelse_Some disk_asb_def map_blocks_of_def
      out_free_def Let_def split: if_splits)

lemma super_block_read_Some:
  assumes "aufs_super_block_read k a m = Ret (Some asb, m')" and zi: "map_blocks_of m = (z, i)" and "0 < z"
  shows "asb = (disk_asb m)\<lparr>s_zmap := [1..<1 + z], s_imap := [1 + z..<1 + z + i], s_sbh := 0\<rparr>" and "0 < i"
    and "asb_magic asb = AUFS_MAGIC"
    and "m' = refs_plus {1..<1 + z + i} 1 (m\<lparr>m_asb_mem := True, m_map_mem := True,
           m_fs := put_buffer (1 + z) (set_map_bit (k_bits k) 0 (b_data (m_fs m) (1 + z)))
             (put_buffer 1 (set_map_bit (k_bits k) 0 (b_data (m_fs m) 1)) (m_fs m))\<rparr>)"
proof -
  let ?asb = "(disk_asb m)\<lparr>s_sbh := 0\<rparr>"
  let ?m = "refs_plus {1..<1 + z + i} 1 (m\<lparr>m_asb_mem := True, m_map_mem := True\<rparr>)"
  have fin: "super_block_finish k ?asb [1..<1 + z + i] ?m = Ret (Some asb, m')"
    using assms(1) super_block_read_eq [OF super_block_read_prereq [OF assms(1)] zi]
    by (simp only: split: if_splits) simp_all
  have z: "z = unat (asb_zone_map_blocks ?asb)" using zi by (simp add: map_blocks_of_def)
  note f = fin [unfolded super_block_finish_eq [OF z assms(3)] Let_def]
  show "0 < i" "asb_magic asb = AUFS_MAGIC" using f by (auto simp del: upt_Suc split: if_splits)
  show "asb = (disk_asb m)\<lparr>s_zmap := [1..<1 + z], s_imap := [1 + z..<1 + z + i], s_sbh := 0\<rparr>"
    using f by (auto simp del: upt_Suc split: if_splits)
  show "m' = refs_plus {1..<1 + z + i} 1 (m\<lparr>m_asb_mem := True, m_map_mem := True,
           m_fs := put_buffer (1 + z) (set_map_bit (k_bits k) 0 (b_data (m_fs m) (1 + z)))
             (put_buffer 1 (set_map_bit (k_bits k) 0 (b_data (m_fs m) 1)) (m_fs m))\<rparr>)"
    using f by (auto simp del: upt_Suc split: if_splits intro!: mount_refs_eqI)
qed


lemma fill_sb_zero:
  assumes "mount_kernel a" and "aufs_fill_sb k a m = Ret (0, m')"
  obtains asb m1 where "aufs_super_block_read k a m = Ret (Some asb, m1)" and "m_info m' = Live asb"
    and "s_fs_info (m_fs m') = asb" and "m_root m' = Some (unat (asb_root_inode asb))"
    and "icache (m_fs m') (unat (asb_root_inode asb)) \<noteq> None"
    and "s_blocksize (m_fs m') = (if 4096 < asb_zone_size asb then 4096 else scast (ucast (asb_zone_size asb) :: u32))"
    and "m_refs m' = m_refs m1"
proof -
  obtain asb m1 where r: "aufs_super_block_read k a m = Ret (Some asb, m1)"
    using assms(2) by (auto simp: aufs_fill_sb_def split: sum.splits option.splits)
  let ?bs = "scast ((if 4096 < asb_zone_size asb then 4096 else ucast (asb_zone_size asb)) :: u32) :: u64"
  let ?st = "(m_fs m1)\<lparr>s_fs_info := asb\<rparr>"
  obtain st where b: "ma_set_blocksize a ?bs ?st = Some st"
    using assms(2) r by (cases "ma_set_blocksize a ?bs ?st") (simp_all add: aufs_fill_sb_def Let_def)
  have st: "s_blocksize st = ?bs" "s_fs_info st = asb" using mount_kernel.set_blocksize_sets [OF assms(1) b] by simp_all
  obtain root st1 where g: "aufs_inode_get k (asb_root_inode asb) st = Ret (Inr root, st1)"
    and m': "m' = m1\<lparr>m_info := Live asb, m_fs := st1, m_root := Some root\<rparr>"
    using assms(2) r b
    by (auto simp: aufs_fill_sb_def Let_def split: sum.splits if_splits dest: inode_get_error)
  have root: "root = unat (asb_root_inode asb)"
    using g by (auto simp: aufs_inode_get_def Let_def split: option.splits if_splits)
  note fr = inode_get_frame [OF g]
  show ?thesis
    by (rule that [OF r]) (use fr st m' root in \<open>simp_all split: if_splits\<close>)
qed

lemma mount_asb_ok:
  assumes zi: "map_blocks_of m = (z, i)" and zs: "zone_size_ok (unat (asb_zone_size (disk_asb m)))"
    and al: "asb_alignment_num_blocks (disk_asb m) \<noteq> 0"
  shows "asb_ok ((disk_asb m)\<lparr>s_zmap := [1..<1 + z], s_imap := [1 + z..<1 + z + i], s_sbh := 0\<rparr>)"
proof -
  let ?zs = "asb_zone_size (disk_asb m)"
  have lt: "unat ?zs < 4294967296" by (simp add: unat_u32_less)
  have "0 < unat (asb_blocks_per_zone (disk_asb m))" "unat (asb_blocks_per_zone (disk_asb m)) \<le> 2 ^ 20"
    using lt zs by (auto simp: unat_div word_less_nat_alt zone_size_ok_def)
  moreover have "0 < unat (asb_alignment_num_blocks (disk_asb m))" using al by (metis gr0I unat_eq_zero)
  ultimately show ?thesis
    using zi unat_u32_less [of "be32_at (b_data (m_fs m) 0) 16"] unat_u32_less [of "be32_at (b_data (m_fs m) 0) 20"]
    by (auto simp: asb_ok_def map_blocks_of_def unat_u32_less simp del: upt_Suc)
qed


lemma ucast_u32_u64_u32 [simp]: "(ucast (ucast (w :: u32) :: u64) :: u32) = w"
  by (rule bit_word_eqI) (simp add: bit_simps)

lemma scast_zone_size:
  assumes "unat (w :: u32) \<le> 4096"
  shows "scast w = (ucast w :: u64)"
proof -
  have "unat w < 2147483648" using assms by simp
  then have "(scast w :: u64) = of_nat (unat w)" by (rule scast_u32_small)
  then show ?thesis by simp
qed

subsection \<open>An example mount\<close>

definition ref_mount :: mount_api where
  "ref_mount =
     \<lparr>ma_alloc_asb = True, ma_alloc_map = (\<lambda>_. True),
      ma_set_blocksize = (\<lambda>bs st. Some (st\<lparr>s_blocksize := bs\<rparr>)), ma_make_root = (\<lambda>_. True)\<rparr>"

interpretation ref_mounts: mount_kernel ref_mount
  by unfold_locales (auto simp: ref_mount_def)

definition demo_super :: "u32 \<Rightarrow> bytes" where
  "demo_super magic = be32_enc magic @ be32_enc 8192 @ be32_enc 1 @ be32_enc 1 @ be32_enc 1 @ be32_enc 1 @ be32_enc 4"

definition demo_disk :: "u32 \<Rightarrow> mount" where
  "demo_disk magic =
     \<lparr>m_fs = \<lparr>s_blocksize = 4096, s_fs_info = zeroed_asb,
        b_data = (\<lambda>n. if n = 0 then demo_super magic else if n = 1 \<or> n = 2 then [3, 0, 0, 0]
                      else if n = 3 then replicate 116 0 @ be32_enc 0x41ED @ replicate 3976 0 else []),
        b_dirty = (\<lambda>_. False), icache = Map.empty, pages = (\<lambda>_ _. [])\<rparr>,
      m_info = Null, m_refs = (\<lambda>_. 0), m_asb_mem = False, m_map_mem = False, m_root = None\<rparr>"

lemma demo_disk_mounts: "map_sum id fst (aufs_fill_sb ref_kernel ref_mount (demo_disk 0x13131313)) = Ret 0"
  by code_simp

lemma demo_disk_dims: "map_blocks_of (demo_disk magic) = (1, 1)"
  by (simp add: map_blocks_of_def demo_disk_def demo_super_def codec_simps)

lemma demo_disk_fields: "asb_zone_size (disk_asb (demo_disk magic)) = 8192"
    "asb_alignment_num_blocks (disk_asb (demo_disk magic)) = 4" "asb_magic (disk_asb (demo_disk magic)) = ucast magic"
  by (simp_all add: demo_disk_def demo_super_def codec_simps be32_at_enc)

text \<open>The block size a mount sets divides the zone size as block mapping needs it just for good zone sizes.\<close>

lemma mount_geometry:
  assumes bs: "s_blocksize st = (if 4096 < zs then 4096 else scast (ucast zs :: u32))"
    and sb: "asb_zone_size (AUFS_SB st) = zs" "asb_blocks_per_zone (AUFS_SB st) = (if 4096 < zs then zs div 4096 else 1)"
    and lt: "unat zs < 4294967296"
  shows "geometry_ok st \<longleftrightarrow> zone_size_ok (unat zs)"
proof (cases "4096 < zs")
  case True
  then have big: "4096 < unat zs" by (simp add: word_less_nat_alt)
  then have "0 < unat zs div 4096" by (simp add: div_greater_zero_iff)
  moreover have "unat zs = unat zs div 4096 * 4096 \<longleftrightarrow> 4096 dvd unat zs" by (metis dvd_div_mult_self dvd_triv_right)
  ultimately show ?thesis
    using True big lt by (simp add: geometry_ok_def zone_size_ok_def bs sb unat_div)
next
  case False
  then have le: "unat zs \<le> 4096" by (simp add: word_less_nat_alt)
  then have small: "(ucast (ucast zs :: u32) :: u64) = zs" by (intro ucast_ucast_u64_small) simp
  then have u: "unat (ucast zs :: u32) = unat zs" using le by (simp add: unat_ucast_u64_u32)
  then have "scast (ucast zs :: u32) = zs" using scast_zone_size [of "ucast zs"] le small by simp
  then show ?thesis using False le by (simp add: geometry_ok_def zone_size_ok_def bs sb)
qed

subsection \<open>Properties\<close>

text \<open>
  C29: what a mount that succeeds establishes, when the super block on disk counts at least one block of the zone bitmap. The super block
  in memory has the values of the disk, the magic number is right, the lists of bitmap buffers are the blocks behind block 0, every bitmap
  buffer has one more reference and no other buffer has, and the root inode is cached and mounted. The mount does not check the other
  values: the bounds and the zone geometry that block mapping needs hold exactly when the alignment on disk is not zero and the zone size is
  positive and at most 4096 or a multiple of it.
\<close>

theorem mount_establishes_layout:
  assumes "mount_kernel a" and run: "aufs_fill_sb k a m = Ret (0, m')" and zi: "map_blocks_of m = (z, i)" and "0 < z"
  shows "AUFS_SB (m_fs m') = (disk_asb m)\<lparr>s_zmap := [1..<1 + z], s_imap := [1 + z..<1 + z + i], s_sbh := 0\<rparr> \<and>
    asb_magic (disk_asb m) = AUFS_MAGIC \<and>
    m_refs m' = (\<lambda>b. m_refs m b + (if b \<in> {1..<1 + z + i} then 1 else 0)) \<and>
    m_root m' = Some (unat (asb_root_inode (disk_asb m))) \<and>
    icache (m_fs m') (unat (asb_root_inode (disk_asb m))) \<noteq> None \<and>
    (asb_ok (AUFS_SB (m_fs m')) \<and> geometry_ok (m_fs m') \<longleftrightarrow>
       zone_size_ok (unat (asb_zone_size (disk_asb m))) \<and> asb_alignment_num_blocks (disk_asb m) \<noteq> 0)"
proof -
  obtain asb m1 where r: "aufs_super_block_read k a m = Ret (Some asb, m1)"
    and f: "s_fs_info (m_fs m') = asb" "m_root m' = Some (unat (asb_root_inode asb))"
      "icache (m_fs m') (unat (asb_root_inode asb)) \<noteq> None"
      "s_blocksize (m_fs m') = (if 4096 < asb_zone_size asb then 4096 else scast (ucast (asb_zone_size asb) :: u32))"
      "m_refs m' = m_refs m1"
    by (rule fill_sb_zero [OF assms(1) run])
  note s = super_block_read_Some [OF r zi \<open>0 < z\<close>]
  have sb: "AUFS_SB (m_fs m') = asb" using f(1) by (simp add: AUFS_SB_def)
  have zs: "asb_blocks_per_zone (disk_asb m) = (if 4096 < asb_zone_size (disk_asb m) then asb_zone_size (disk_asb m) div 4096 else 1)"
    "unat (asb_zone_size (disk_asb m)) < 4294967296"
    by (simp_all add: unat_u32_less)
  have "geometry_ok (m_fs m') \<longleftrightarrow> zone_size_ok (unat (asb_zone_size (disk_asb m)))"
    by (rule mount_geometry [OF _ _ _ zs(2)]) (use f(4) s(1) sb zs(1) in \<open>simp_all del: disk_asb_sel\<close>)
  moreover have "asb_ok asb \<longleftrightarrow> asb_alignment_num_blocks (disk_asb m) \<noteq> 0"
    if "zone_size_ok (unat (asb_zone_size (disk_asb m)))"
    unfolding s(1) using mount_asb_ok [OF zi that] by (auto simp: asb_ok_def simp del: disk_asb_sel)
  moreover have "m_refs m' = (\<lambda>b. m_refs m b + (if b \<in> {1..<1 + z + i} then 1 else 0))"
    unfolding f(5) s(4) by (auto simp: fun_eq_iff)
  ultimately show ?thesis using f(2,3) s(1,3) by (auto simp: sb simp del: disk_asb_sel upt_Suc)
qed

theorem mount_establishes_layout_witness:
  "\<exists>m'. aufs_fill_sb ref_kernel ref_mount (demo_disk 0x13131313) = Ret (0, m') \<and>
     geometry_ok (m_fs m') \<and> s_zmap (AUFS_SB (m_fs m')) = [1] \<and> s_imap (AUFS_SB (m_fs m')) = [2]"
proof -
  obtain m' where run: "aufs_fill_sb ref_kernel ref_mount (demo_disk 0x13131313) = Ret (0, m')"
    using demo_disk_mounts by (cases "aufs_fill_sb ref_kernel ref_mount (demo_disk 0x13131313)") auto
  have "zone_size_ok (unat (asb_zone_size (disk_asb (demo_disk 0x13131313))))"
    unfolding demo_disk_fields by (simp add: zone_size_ok_def)
  with mount_establishes_layout [OF ref_mounts.mount_kernel_axioms run demo_disk_dims] run show ?thesis
    by (simp add: demo_disk_fields upt_rec del: disk_asb_sel)
qed


text \<open>
  C30: when a bitmap block cannot be read, the error path gives back every bitmap buffer and both allocations, but it
  releases the buffer of the super block a second time; the mount then reads the zone size through the null pointer.
\<close>

theorem bitmap_failure_over_releases:
  assumes "read_prereq k a m" and "map_blocks_of m = (z, i)" and "\<exists>b. 1 \<le> b \<and> b \<le> z + i \<and> \<not> k_bread k b"
  shows "\<exists>m'. aufs_super_block_read k a m = Ret (None, m') \<and> m_refs m' = (m_refs m)(0 := m_refs m 0 - 1) \<and>
    \<not> m_asb_mem m' \<and> \<not> m_map_mem m' \<and> m_fs m' = m_fs m \<and> aufs_fill_sb k a m = Fault NullDeref"
proof -
  have "\<exists>b \<in> {1..<1 + z + i}. \<not> k_bread k b" using assms(3) by (auto simp: less_Suc_eq_le)
  then have r: "aufs_super_block_read k a m =
      Ret (None, refs_plus {0} (- 1) (m\<lparr>m_map_mem := False, m_asb_mem := False\<rparr>))"
    by (simp only: super_block_read_eq [OF assms(1,2)] if_True)
  then have "aufs_fill_sb k a m = Fault NullDeref" by (simp add: aufs_fill_sb_def)
  with r show ?thesis by (auto simp: fun_eq_iff)
qed

theorem bitmap_failure_over_releases_witness:
  "\<exists>m'. aufs_super_block_read (ref_kernel\<lparr>k_bread := (\<lambda>b. b \<noteq> 2)\<rparr>) ref_mount (demo_disk 0x13131313) = Ret (None, m') \<and>
     m_refs m' 0 = - 1"
proof -
  let ?k = "ref_kernel\<lparr>k_bread := (\<lambda>b. b \<noteq> 2)\<rparr>" and ?m = "demo_disk 0x13131313"
  have "read_prereq ?k ref_mount ?m"
    by (simp add: read_prereq_def ref_mount_def demo_disk_def demo_super_def)
  moreover have "\<exists>b. 1 \<le> b \<and> b \<le> 1 + (1 :: nat) \<and> \<not> k_bread ?k b" by (intro exI [of _ 2]) simp
  ultimately show ?thesis
    using bitmap_failure_over_releases [OF _ demo_disk_dims] by (fastforce simp: demo_disk_def)
qed

text \<open>
  On a device with another magic number the mount fails only after the bitmaps were read: bit 0 is set in both of
  them, every bitmap buffer keeps a reference and the array of them stays allocated, with no pointer left to it.
\<close>

lemma bad_magic_leaks_bitmaps:
  assumes "read_prereq k a m" and zi: "map_blocks_of m = (z, i)" and "0 < z" and "0 < i"
    and "\<forall>b. k_bread k b" and "asb_magic (disk_asb m) \<noteq> AUFS_MAGIC"
  shows "\<exists>m'. aufs_super_block_read k a m = Ret (None, m') \<and> \<not> m_asb_mem m' \<and> m_map_mem m' \<and>
    m_refs m' = (\<lambda>b. m_refs m b + (if b \<in> {1..<1 + z + i} then 1 else 0)) \<and>
    b_data (m_fs m') 1 = set_map_bit (k_bits k) 0 (b_data (m_fs m) 1)"
proof -
  let ?asb = "(disk_asb m)\<lparr>s_sbh := 0\<rparr>"
  have z: "z = unat (asb_zone_map_blocks ?asb)" using zi by (simp add: map_blocks_of_def)
  define m1 where "m1 = refs_plus {1..<1 + z + i} 1 (m\<lparr>m_asb_mem := True, m_map_mem := True\<rparr>)"
  let ?set = "\<lambda>b st. put_buffer b (set_map_bit (k_bits k) 0 (b_data (m_fs m1) b)) st"
  have "\<not> (\<exists>b \<in> {1..<1 + z + i}. \<not> k_bread k b)" "i \<noteq> 0" "asb_magic ?asb \<noteq> AUFS_MAGIC"
    using assms(4-6) by simp_all
  then have "aufs_super_block_read k a m = Ret (None, out_free (m1\<lparr>m_fs := ?set (1 + z) (?set 1 (m_fs m1))\<rparr>))"
    by (simp only: super_block_read_eq [OF assms(1) zi] m1_def [symmetric] super_block_finish_eq [OF z assms(3)] if_False
        Let_def simp_thms if_True)
  moreover have "m_map_mem m1" "m_fs m1 = m_fs m" "m_refs m1 = (\<lambda>b. m_refs m b + (if b \<in> {1..<1 + z + i} then 1 else 0))"
    by (auto simp: m1_def fun_eq_iff)
  ultimately show ?thesis using assms(3) by (simp add: out_free_def)
qed

text \<open>
  Unmounting never completes without a memory error: \<^verbatim>\<open>aufs_put_super\<close> reads the super block structure after it freed it,
  or through the null pointer when there is none.
\<close>

lemma put_super_uses_freed_memory:
  "aufs_put_super m = Fault (case m_info m of Null \<Rightarrow> NullDeref | _ \<Rightarrow> UseAfterFree)"
  by (cases "m_info m") (simp_all add: aufs_put_super_def release_bitmap_def Let_def)

end
