(* ===== verification/Mkfs_Bits.thy ===== *)
theory Mkfs_Bits
  imports Minix_Bitops
begin

text \<open>
  \<^verbatim>\<open>user/bit_iterator.hpp\<close>: references to single bits of a byte buffer, the iterator over them, and the two algorithms
  of the C++ library mkfs runs over it. A byte pointer is its distance from the start of the buffer; reading or writing
  through a pointer outside the buffer is a fault.
\<close>

subsection \<open>References to bits\<close>

record bit_reference =
  m_word :: int
  m_mask :: u8

definition in_buffer :: "bytes \<Rightarrow> int \<Rightarrow> bool" where
  "in_buffer d p \<longleftrightarrow> 0 \<le> p \<and> p < int (length d)"

definition ref_bool :: "bytes \<Rightarrow> bit_reference \<Rightarrow> bool cres" where
  "ref_bool d r = (if in_buffer d (m_word r) then Ret (d ! nat (m_word r) AND m_mask r \<noteq> 0) else Fault OutOfBounds)"

definition ref_assign :: "bytes \<Rightarrow> bit_reference \<Rightarrow> bool \<Rightarrow> bytes cres" where
  "ref_assign d r v =
     (if in_buffer d (m_word r) then
        Ret (d[nat (m_word r) := (if v then d ! nat (m_word r) OR m_mask r else d ! nat (m_word r) AND NOT (m_mask r))])
      else Fault OutOfBounds)"

definition ref_assign_ref :: "bytes \<Rightarrow> bit_reference \<Rightarrow> bit_reference \<Rightarrow> bytes cres" where
  "ref_assign_ref d r v = (case ref_bool d v of Inl f \<Rightarrow> Fault f | Inr b \<Rightarrow> ref_assign d r b)"

definition ref_flip :: "bytes \<Rightarrow> bit_reference \<Rightarrow> bytes cres" where
  "ref_flip d r =
     (if in_buffer d (m_word r) then Ret (d[nat (m_word r) := d ! nat (m_word r) XOR m_mask r]) else Fault OutOfBounds)"

definition ref_eq :: "bytes \<Rightarrow> bit_reference \<Rightarrow> bool \<Rightarrow> bool cres" where
  "ref_eq d l r = (case ref_bool d l of Inl f \<Rightarrow> Fault f | Inr b \<Rightarrow> Ret (b = r))"

definition ref_ne :: "bytes \<Rightarrow> bit_reference \<Rightarrow> bool \<Rightarrow> bool cres" where
  "ref_ne d l r = (case ref_eq d l r of Inl f \<Rightarrow> Fault f | Inr b \<Rightarrow> Ret (\<not> b))"

text \<open>The remaining comparisons: two references are compared by the bits they refer to.\<close>

definition ref_eq_ref :: "bytes \<Rightarrow> bit_reference \<Rightarrow> bit_reference \<Rightarrow> bool cres" where
  "ref_eq_ref d l r =
     (case ref_bool d l of Inl f \<Rightarrow> Fault f | Inr a \<Rightarrow> (case ref_bool d r of Inl f \<Rightarrow> Fault f | Inr b \<Rightarrow> Ret (a = b)))"

definition bool_eq_ref :: "bytes \<Rightarrow> bool \<Rightarrow> bit_reference \<Rightarrow> bool cres" where
  "bool_eq_ref d l r = ref_eq d r l"

definition ref_ne_ref :: "bytes \<Rightarrow> bit_reference \<Rightarrow> bit_reference \<Rightarrow> bool cres" where
  "ref_ne_ref d l r = (case ref_eq_ref d l r of Inl f \<Rightarrow> Fault f | Inr b \<Rightarrow> Ret (\<not> b))"

definition bool_ne_ref :: "bytes \<Rightarrow> bool \<Rightarrow> bit_reference \<Rightarrow> bool cres" where
  "bool_ne_ref d l r = (case bool_eq_ref d l r of Inl f \<Rightarrow> Fault f | Inr b \<Rightarrow> Ret (\<not> b))"

subsection \<open>The iterator\<close>

text \<open>\<^verbatim>\<open>BitIteratorBase\<close>; the offset is a \<^verbatim>\<open>size_t\<close>.\<close>

record bit_iterator =
  m_data :: int
  m_offset :: u64

definition increment :: "bit_iterator \<Rightarrow> bit_iterator" where
  "increment it =
     (if m_offset it = 8 - 1 then it\<lparr>m_data := m_data it + 1, m_offset := 0\<rparr>
      else it\<lparr>m_offset := m_offset it + 1\<rparr>)"

definition decrement :: "bit_iterator \<Rightarrow> bit_iterator" where
  "decrement it =
     (if m_offset it = 0 then it\<lparr>m_data := m_data it - 1, m_offset := 8 - 1\<rparr>
      else it\<lparr>m_offset := m_offset it - 1\<rparr>)"

text \<open>
  \<^verbatim>\<open>advance\<close>: \<^verbatim>\<open>n\<close> is signed, but \<^verbatim>\<open>Bits\<close> is unsigned, so \<^verbatim>\<open>n / Bits\<close> and \<^verbatim>\<open>n % Bits\<close> are computed on unsigned words. The
  remainder is below eight, so the branch for a negative one is never taken.
\<close>

definition advance :: "u64 \<Rightarrow> bit_iterator \<Rightarrow> bit_iterator" where
  "advance d it =
     (let n = m_offset it + d;
          data = m_data it + uint (n div 8);
          n' = n mod 8
      in if sint n' < 0 then it\<lparr>m_data := data - 1, m_offset := n' + 8\<rparr>
         else it\<lparr>m_data := data, m_offset := n'\<rparr>)"

definition it_eq :: "bit_iterator \<Rightarrow> bit_iterator \<Rightarrow> bool" where
  "it_eq a b \<longleftrightarrow> m_data a = m_data b \<and> m_offset a = m_offset b"

definition it_less :: "bit_iterator \<Rightarrow> bit_iterator \<Rightarrow> bool" where
  "it_less a b \<longleftrightarrow> m_data a < m_data b \<or> (m_data a = m_data b \<and> m_offset a < m_offset b)"

definition it_ne :: "bit_iterator \<Rightarrow> bit_iterator \<Rightarrow> bool" where "it_ne a b \<longleftrightarrow> \<not> it_eq a b"
definition it_greater :: "bit_iterator \<Rightarrow> bit_iterator \<Rightarrow> bool" where "it_greater a b \<longleftrightarrow> it_less b a"
definition it_le :: "bit_iterator \<Rightarrow> bit_iterator \<Rightarrow> bool" where "it_le a b \<longleftrightarrow> \<not> it_less b a"
definition it_ge :: "bit_iterator \<Rightarrow> bit_iterator \<Rightarrow> bool" where "it_ge a b \<longleftrightarrow> \<not> it_less a b"

definition it_diff :: "bit_iterator \<Rightarrow> bit_iterator \<Rightarrow> u64" where
  "it_diff l r = 8 * of_int (m_data l - m_data r) + m_offset l - m_offset r"

text \<open>\<^verbatim>\<open>BitIterator\<close>: the operators over \<^verbatim>\<open>BitIteratorBase\<close>.\<close>

definition bit_it :: "int \<Rightarrow> u64 \<Rightarrow> bit_iterator" where
  "bit_it ptr off = \<lparr>m_data = ptr, m_offset = off\<rparr>"

definition it_deref :: "bit_iterator \<Rightarrow> bit_reference" where
  "it_deref it = \<lparr>m_word = m_data it, m_mask = ucast (push_bit (unat (m_offset it)) 1 :: u64)\<rparr>"

definition it_preinc :: "bit_iterator \<Rightarrow> bit_iterator" where "it_preinc it = increment it"

definition it_postinc :: "bit_iterator \<Rightarrow> bit_iterator \<times> bit_iterator" where "it_postinc it = (it, increment it)"

definition it_predec :: "bit_iterator \<Rightarrow> bit_iterator" where "it_predec it = decrement it"

definition it_postdec :: "bit_iterator \<Rightarrow> bit_iterator \<times> bit_iterator" where "it_postdec it = (it, decrement it)"

definition it_plus_assign :: "bit_iterator \<Rightarrow> u64 \<Rightarrow> bit_iterator" where "it_plus_assign it d = advance d it"

definition it_minus_assign :: "bit_iterator \<Rightarrow> u64 \<Rightarrow> bit_iterator" where "it_minus_assign it d = it_plus_assign it (- d)"

definition it_plus :: "bit_iterator \<Rightarrow> u64 \<Rightarrow> bit_iterator" where "it_plus it d = it_plus_assign it d"

definition it_minus :: "bit_iterator \<Rightarrow> u64 \<Rightarrow> bit_iterator" where "it_minus it d = it_minus_assign it d"

definition it_index :: "bit_iterator \<Rightarrow> u64 \<Rightarrow> bit_reference" where "it_index it d = it_deref (it_plus it d)"

definition plus_it :: "u64 \<Rightarrow> bit_iterator \<Rightarrow> bit_iterator" where "plus_it d it = it_plus it d"

text \<open>\<^verbatim>\<open>BitConstIterator\<close>: the same base, but dereferencing reads the bit.\<close>

definition const_it :: "int \<Rightarrow> u64 \<Rightarrow> bit_iterator" where
  "const_it ptr off = \<lparr>m_data = ptr, m_offset = off\<rparr>"

definition const_of_it :: "bit_iterator \<Rightarrow> bit_iterator" where
  "const_of_it it = \<lparr>m_data = m_data it, m_offset = m_offset it\<rparr>"

definition const_preinc :: "bit_iterator \<Rightarrow> bit_iterator" where "const_preinc it = increment it"

definition const_postinc :: "bit_iterator \<Rightarrow> bit_iterator \<times> bit_iterator" where "const_postinc it = (it, increment it)"

definition const_predec :: "bit_iterator \<Rightarrow> bit_iterator" where "const_predec it = decrement it"

definition const_postdec :: "bit_iterator \<Rightarrow> bit_iterator \<times> bit_iterator" where "const_postdec it = (it, decrement it)"

definition const_plus_assign :: "bit_iterator \<Rightarrow> u64 \<Rightarrow> bit_iterator" where "const_plus_assign it d = advance d it"

definition const_minus_assign :: "bit_iterator \<Rightarrow> u64 \<Rightarrow> bit_iterator" where
  "const_minus_assign it d = const_plus_assign it (- d)"

definition const_plus :: "bit_iterator \<Rightarrow> u64 \<Rightarrow> bit_iterator" where "const_plus it d = const_plus_assign it d"

definition const_minus :: "bit_iterator \<Rightarrow> u64 \<Rightarrow> bit_iterator" where "const_minus it d = const_minus_assign it d"

definition plus_const :: "u64 \<Rightarrow> bit_iterator \<Rightarrow> bit_iterator" where "plus_const d it = const_plus it d"

definition const_deref :: "bytes \<Rightarrow> bit_iterator \<Rightarrow> bool cres" where
  "const_deref d it = ref_bool d \<lparr>m_word = m_data it, m_mask = ucast (push_bit (unat (m_offset it)) 1 :: u32)\<rparr>"

definition const_index :: "bytes \<Rightarrow> bit_iterator \<Rightarrow> u64 \<Rightarrow> bool cres" where
  "const_index d it n = const_deref d (const_plus it n)"

subsection \<open>The algorithms of the library\<close>

text \<open>
  A measure of the distance to the end of the buffer: bytes left, then steps left in the current byte. It also decreases from
  an offset outside the byte, which wraps around before it meets the last bit.
\<close>

definition steps_left :: "bytes \<Rightarrow> bit_iterator \<Rightarrow> nat \<times> nat" where
  "steps_left d it = (nat (int (length d) - m_data it), unat (7 - m_offset it))"

lemma steps_left_increment:
  assumes "in_buffer d (m_data it)"
  shows "(steps_left d (increment it), steps_left d it) \<in> less_than <*lex*> less_than"
proof (cases "m_offset it = 7")
  case True
  then show ?thesis using assms by (simp add: steps_left_def increment_def in_buffer_def)
next
  case False
  then have nz: "7 - m_offset it \<noteq> 0" by (metis eq_iff_diff_eq_0)
  have "unat (7 - m_offset it - 1) = unat (7 - m_offset it) - 1" using nz by (rule unat_minus_one)
  moreover have "0 < unat (7 - m_offset it)" using nz by (simp add: unat_gt_0)
  moreover have "7 - (m_offset it + 1) = 7 - m_offset it - 1" by simp
  ultimately show ?thesis using False by (simp add: steps_left_def increment_def)
qed

text \<open>
  \<^verbatim>\<open>std::find\<close> and \<^verbatim>\<open>std::fill\<close> as the standard defines them: \<open>find\<close> stops at the first element that compares equal, \<open>fill\<close>
  assigns to every element of the range. Both end: an access behind the buffer is a fault.
\<close>

function std_find :: "bytes \<Rightarrow> bit_iterator \<Rightarrow> bit_iterator \<Rightarrow> bool \<Rightarrow> bit_iterator cres" where
  "std_find d b e v =
     (if it_ne b e then
        (case ref_eq d (it_deref b) v of
           Inl f \<Rightarrow> Fault f
         | Inr found \<Rightarrow> if found then Ret b else std_find d (it_preinc b) e v)
      else Ret b)"
  by pat_completeness auto
termination
proof (relation "inv_image (less_than <*lex*> less_than) (\<lambda>(d, b, e, v). steps_left d b)", goal_cases)
  case (2 d b e v found)
  then have "in_buffer d (m_data b)"
    by (auto simp: ref_eq_def ref_bool_def it_deref_def split: sum.splits if_splits)
  then show ?case by (simp only: in_inv_image prod.case it_preinc_def steps_left_increment)
qed auto

function std_fill :: "bytes \<Rightarrow> bit_iterator \<Rightarrow> bit_iterator \<Rightarrow> bool \<Rightarrow> bytes cres" where
  "std_fill d b e v =
     (if it_ne b e then
        (case ref_assign d (it_deref b) v of
           Inl f \<Rightarrow> Fault f
         | Inr d' \<Rightarrow> std_fill d' (it_preinc b) e v)
      else Ret d)"
  by pat_completeness auto
termination
proof (relation "inv_image (less_than <*lex*> less_than) (\<lambda>(d, b, e, v). steps_left d b)", goal_cases)
  case (2 d b e v d')
  then have "in_buffer d (m_data b)" and "length d' = length d"
    by (auto simp: ref_assign_def it_deref_def split: if_splits)
  then have "in_buffer d' (m_data b)" "steps_left d' b = steps_left d b" by (simp_all add: in_buffer_def steps_left_def)
  then show ?case using steps_left_increment [of d' b] by (simp only: in_inv_image prod.case it_preinc_def)
qed auto

declare std_find.simps [simp del] std_fill.simps [simp del]

subsection \<open>Positions\<close>

text \<open>
  An iterator with an offset below eight stands for the position of its bit. The iterator operations are the integer operations
  on positions.
\<close>

definition it_ok :: "bit_iterator \<Rightarrow> bool" where
  "it_ok it \<longleftrightarrow> unat (m_offset it) < 8"

definition it_at :: "nat \<Rightarrow> bit_iterator" where
  "it_at n = bit_it (int (n div 8)) (of_nat (n mod 8))"

lemma unat_small_offset [simp]: "unat (of_nat (n mod 8) :: u64) = n mod 8"
proof -
  have "n mod 8 < 8" by simp
  then show ?thesis by (intro unat_of_nat_small) simp
qed

lemma it_at_ok [simp]: "it_ok (it_at n)"
  by (simp add: it_ok_def it_at_def bit_it_def)

lemma it_at_inject [simp]: "it_at a = it_at b \<longleftrightarrow> a = b"
proof
  assume "it_at a = it_at b"
  then have "a div 8 = b div 8" and "(of_nat (a mod 8) :: u64) = of_nat (b mod 8)" by (simp_all add: it_at_def bit_it_def)
  moreover from this(2) have "a mod 8 = b mod 8" by (metis unat_small_offset)
  ultimately show "a = b" by (metis div_mult_mod_eq)
qed simp

lemma it_ne_at [simp]: "it_ne (it_at a) (it_at b) \<longleftrightarrow> a \<noteq> b"
  using it_at_inject [of a b] by (auto simp: it_ne_def it_eq_def it_at_def bit_it_def)

lemma increment_at [simp]: "increment (it_at n) = it_at (Suc n)"
proof (cases "n mod 8 = 7")
  case True
  then have "Suc n mod 8 = 0" "Suc n div 8 = Suc (n div 8)" by (simp_all add: mod_Suc div_Suc)
  then show ?thesis using True by (simp add: it_at_def bit_it_def increment_def)
next
  case False
  then have "Suc n mod 8 = Suc (n mod 8)" "Suc n div 8 = n div 8" by (simp_all add: mod_Suc div_Suc)
  moreover have "(of_nat (n mod 8) :: u64) \<noteq> 7"
  proof
    assume "(of_nat (n mod 8) :: u64) = 7"
    then have "unat (of_nat (n mod 8) :: u64) = unat (7 :: u64)" by (rule arg_cong)
    then show False using False by simp
  qed
  ultimately show ?thesis by (simp add: it_at_def bit_it_def increment_def)
qed


lemma decrement_at [simp]: "decrement (it_at (Suc n)) = it_at n"
proof (cases "Suc n mod 8 = 0")
  case True
  then have "n mod 8 = 7" "Suc n div 8 = Suc (n div 8)" by (auto simp: mod_Suc div_Suc split: if_splits)
  then show ?thesis using True by (simp add: it_at_def bit_it_def decrement_def)
next
  case False
  then have n: "Suc n mod 8 = Suc (n mod 8)" "Suc n div 8 = n div 8" by (auto simp: mod_Suc div_Suc split: if_splits)
  have "(of_nat (Suc n mod 8) :: u64) \<noteq> 0" using False unat_small_offset [of "Suc n"] by (metis unat_0)
  then show ?thesis unfolding it_at_def n by (simp add: bit_it_def decrement_def)
qed

lemma sint_u64_small:
  assumes "unat (w :: u64) < 9223372036854775808"
  shows "sint w = int (unat w)"
proof -
  have "uint w = int (unat w)" by simp
  then have "- 9223372036854775808 \<le> uint w" and "uint w < 9223372036854775808" using assms by linarith+
  then have "signed_take_bit 63 (uint w) = uint w"
    by (intro signed_take_bit_int_eq_self) simp_all
  then show ?thesis by (simp add: sint_uint)
qed

lemma advance_at:
  assumes "m < 9223372036854775808"
  shows "advance (of_nat m) (it_at n) = it_at (n + m)"
proof -
  let ?w = "of_nat (n mod 8) + of_nat m :: u64"
  have lt: "n mod 8 < 8" by simp
  have "unat (of_nat m :: u64) = m" using assms by (intro unat_of_nat_small) simp
  then have w: "unat ?w = n mod 8 + m" using assms lt by (simp add: unat_add_no_wrap)
  have "unat (?w div 8) = (n mod 8 + m) div 8" by (simp add: unat_div w)
  then have q: "uint (?w div 8) = int ((n mod 8 + m) div 8)" by (metis uint_nat)
  have r: "?w mod 8 = of_nat ((n + m) mod 8)"
    by (rule word_unat_eq_iff [THEN iffD2]) (simp add: unat_mod w mod_add_left_eq)
  have "unat (?w mod 8) < 8" by (simp add: r)
  then have "sint (?w mod 8) = int (unat (?w mod 8))" by (intro sint_u64_small) simp
  then have "\<not> sint (?w mod 8) < 0" by simp
  moreover have "n div 8 + (n mod 8 + m) div 8 = (n + m) div 8" by presburger
  ultimately show ?thesis
    using q r by (simp add: advance_def it_at_def bit_it_def Let_def flip: of_nat_add)
qed


lemma it_diff_at: "it_diff (it_at a) (it_at b) = of_nat a - of_nat b"
proof -
  have "(of_nat n :: u64) = 8 * of_nat (n div 8) + of_nat (n mod 8)" for n
    by (metis div_mult_mod_eq mult.commute of_nat_add of_nat_mult of_nat_numeral)
  from this [of a] this [of b] show ?thesis
    by (simp add: it_diff_def it_at_def bit_it_def algebra_simps)
qed

lemma it_less_at: "it_less (it_at a) (it_at b) \<longleftrightarrow> a < b"
proof -
  have "(of_nat (a mod 8) :: u64) < of_nat (b mod 8) \<longleftrightarrow> a mod 8 < b mod 8" by (simp add: word_less_nat_alt)
  then have "it_less (it_at a) (it_at b) \<longleftrightarrow> a div 8 < b div 8 \<or> (a div 8 = b div 8 \<and> a mod 8 < b mod 8)"
    by (simp add: it_less_def it_at_def bit_it_def)
  also have "\<dots> \<longleftrightarrow> a < b"
    by (metis div_le_mono div_mult_mod_eq le_less nat_add_left_cancel_less not_le)
  finally show ?thesis .
qed

subsection \<open>Bits through the iterator\<close>

text \<open>The bit an iterator refers to is the bit of that number in the kernel's little-endian bitmaps.\<close>

lemma deref_at: "m_word (it_deref (it_at n)) = int (n div 8)" "m_mask (it_deref (it_at n)) = push_bit (n mod 8) 1"
proof -
  have "n mod 8 < 8" by simp
  then show "m_mask (it_deref (it_at n)) = push_bit (n mod 8) 1"
    by (intro bit_word_eqI) (auto simp: it_deref_def it_at_def bit_it_def bit_simps)
qed (simp add: it_deref_def it_at_def bit_it_def)

lemma in_buffer_at: "in_buffer d (int (n div 8)) \<longleftrightarrow> n < 8 * length d"
  by (auto simp: in_buffer_def div_less_iff_less_mult)

lemma ref_bool_at: "ref_bool d (it_deref (it_at n)) = (if n < 8 * length d then Ret (le_test_bit d n) else Fault OutOfBounds)"
proof -
  have "(w AND push_bit k 1 \<noteq> 0) = bit w k" for w :: u8 and k
    by (simp add: bit_iff_and_push_bit_not_eq_0)
  then show ?thesis by (simp add: ref_bool_def deref_at in_buffer_at le_test_bit_def)
qed

lemma ref_assign_at:
  "ref_assign d (it_deref (it_at n)) v = (if n < 8 * length d then Ret (le_assign_bit v n d) else Fault OutOfBounds)"
  by (simp add: ref_assign_def deref_at in_buffer_at le_assign_bit_def)

lemma const_deref_at: "const_deref d (it_at n) = (if n < 8 * length d then Ret (le_test_bit d n) else Fault OutOfBounds)"
proof -
  have "n mod 8 < 8" by simp
  then have "(ucast (push_bit (n mod 8) 1 :: u32) :: u8) = push_bit (n mod 8) 1"
    by (intro bit_word_eqI) (auto simp: bit_simps)
  then have "const_deref d (it_at n) = ref_bool d (it_deref (it_at n))"
    using deref_at [of n] by (simp add: const_deref_def ref_bool_def it_at_def bit_it_def it_deref_def)
  then show ?thesis by (simp add: ref_bool_at)
qed

lemma std_fill_at:
  assumes "a \<le> b" and "b \<le> 8 * length d"
  shows "\<exists>d'. std_fill d (it_at a) (it_at b) v = Ret d' \<and> length d' = length d \<and>
    (\<forall>n < 8 * length d. le_test_bit d' n = (if a \<le> n \<and> n < b then v else le_test_bit d n))"
  using assms
proof (induction "b - a" arbitrary: a d)
  case 0
  then show ?case by (subst std_fill.simps) auto
next
  case (Suc k)
  let ?d = "le_assign_bit v a d"
  have "k = b - Suc a" "Suc a \<le> b" "b \<le> 8 * length ?d" using Suc(2-4) by simp_all
  then obtain d' where d': "std_fill ?d (it_at (Suc a)) (it_at b) v = Ret d'" "length d' = length d"
    "\<forall>n < 8 * length d. le_test_bit d' n = (if Suc a \<le> n \<and> n < b then v else le_test_bit ?d n)"
    using Suc.hyps(1) [of "Suc a" ?d] by auto
  have "a < 8 * length d" "a \<noteq> b" using Suc(2,4) by simp_all
  then have "std_fill d (it_at a) (it_at b) v = Ret d'"
    using d'(1) by (subst std_fill.simps) (simp add: ref_assign_at it_preinc_def)
  moreover have "le_test_bit d' n = (if a \<le> n \<and> n < b then v else le_test_bit d n)" if "n < 8 * length d" for n
    using d'(3) that \<open>a < 8 * length d\<close> \<open>a \<noteq> b\<close> Suc(3) by (auto simp: le_test_assign)
  ultimately show ?case using d'(2) by blast
qed

lemma std_find_at:
  assumes "a \<le> j" and "j < 8 * length d" and "j < e" and "le_test_bit d j = v"
    and "\<And>i. a \<le> i \<Longrightarrow> i < j \<Longrightarrow> le_test_bit d i \<noteq> v"
  shows "std_find d (it_at a) (it_at e) v = Ret (it_at j)"
  using assms
proof (induction "j - a" arbitrary: a)
  case 0
  then have "a = j" by simp
  then show ?case using 0 by (subst std_find.simps) (simp add: ref_eq_def ref_bool_at)
next
  case (Suc k)
  then have "std_find d (it_at (Suc a)) (it_at e) v = Ret (it_at j)" by simp
  moreover have "le_test_bit d a \<noteq> v" "a < 8 * length d" "a \<noteq> e" using Suc by simp_all
  ultimately show ?case by (subst std_find.simps) (simp add: ref_eq_def ref_bool_at it_preinc_def)
qed

lemma std_find_overrun:
  assumes "a \<le> 8 * length d" and "8 * length d < e" and "\<And>i. a \<le> i \<Longrightarrow> i < 8 * length d \<Longrightarrow> le_test_bit d i \<noteq> v"
  shows "std_find d (it_at a) (it_at e) v = Fault OutOfBounds"
  using assms
proof (induction "8 * length d - a" arbitrary: a)
  case 0
  then show ?case by (subst std_find.simps) (simp add: ref_eq_def ref_bool_at)
next
  case (Suc k)
  then have "std_find d (it_at (Suc a)) (it_at e) v = Fault OutOfBounds" by simp
  moreover have "le_test_bit d a \<noteq> v" "a < 8 * length d" "a \<noteq> e" using Suc by simp_all
  ultimately show ?case by (subst std_find.simps) (simp add: ref_eq_def ref_bool_at it_preinc_def)
qed


subsection \<open>The contract of a random access iterator\<close>

text \<open>
  What the algorithms rely on: a position for every iterator, with the moves and comparisons as arithmetic on positions. A move
  is by less than half of the range of \<^verbatim>\<open>size_t\<close>.
\<close>

locale random_access =
  fixes at :: "nat \<Rightarrow> 'it" and inc dec :: "'it \<Rightarrow> 'it" and adv :: "u64 \<Rightarrow> 'it \<Rightarrow> 'it"
    and diff :: "'it \<Rightarrow> 'it \<Rightarrow> u64" and less :: "'it \<Rightarrow> 'it \<Rightarrow> bool"
  assumes inc_at: "inc (at n) = at (Suc n)" and dec_at: "dec (at (Suc n)) = at n"
    and adv_at: "m < 9223372036854775808 \<Longrightarrow> adv (of_nat m) (at n) = at (n + m)"
    and diff_at: "diff (at a) (at b) = of_nat a - of_nat b" and less_at: "less (at a) (at b) \<longleftrightarrow> a < b"
begin

lemma inc_iterates: "(inc ^^ m) (at n) = at (n + m)"
  by (induction m) (simp_all add: inc_at)

lemma dec_iterates: "(dec ^^ m) (at (n + m)) = at n"
proof (induction m)
  case (Suc m)
  have "(dec ^^ Suc m) (at (n + Suc m)) = (dec ^^ m) (dec (at (Suc (n + m))))" by (simp add: funpow_swap1)
  then show ?case using Suc by (simp add: dec_at)
qed simp

lemma adv_moves:
  assumes "m < 9223372036854775808"
  shows "adv (of_nat m) (at n) = (inc ^^ m) (at n)" and "diff (adv (of_nat m) (at n)) (at n) = of_nat m"
    and "0 < m \<Longrightarrow> less (at n) (adv (of_nat m) (at n))"
  using assms by (simp_all add: adv_at inc_iterates diff_at less_at)

end

interpretation bit_its: random_access it_at it_preinc it_predec plus_it it_diff it_less
  by unfold_locales
    (simp_all add: it_preinc_def it_predec_def plus_it_def it_plus_def it_plus_assign_def advance_at it_diff_at it_less_at)

text \<open>The constant iterator keeps the same contract.\<close>

interpretation const_its: random_access it_at const_preinc const_predec plus_const it_diff it_less
  by unfold_locales
    (simp_all add: const_preinc_def const_predec_def plus_const_def const_plus_def const_plus_assign_def advance_at
      it_diff_at it_less_at)

subsection \<open>Properties\<close>

text \<open>
  C39: moving a bit iterator forward by \<open>m\<close> with \<^verbatim>\<open>operator+\<close> is the same as \<open>m\<close> increments, \<open>m\<close> decrements undo it, and the
  difference of the two iterators is \<open>m\<close>. The constant iterator moves the same way, and indexing it reads the bit the
  reference at that index refers to.
\<close>

theorem bit_iterator_moves:
  assumes "m < 9223372036854775808"
  shows "it_plus (it_at n) (of_nat m) = (it_preinc ^^ m) (it_at n) \<and>
    (it_predec ^^ m) (it_plus (it_at n) (of_nat m)) = it_at n \<and>
    it_diff (it_plus (it_at n) (of_nat m)) (it_at n) = of_nat m \<and>
    const_plus (const_of_it (it_at n)) (of_nat m) = (const_preinc ^^ m) (it_at n) \<and>
    (const_predec ^^ m) (const_plus (const_of_it (it_at n)) (of_nat m)) = it_at n \<and>
    const_index d (const_of_it (it_at n)) (of_nat m) = ref_bool d (it_index (it_at n) (of_nat m))"
proof -
  have const: "const_of_it (it_at n) = it_at n" by (simp add: const_of_it_def it_at_def bit_it_def)
  have plus: "it_plus (it_at n) (of_nat m) = it_at (n + m)" "const_plus (const_of_it (it_at n)) (of_nat m) = it_at (n + m)"
    using assms bit_its.adv_at [OF assms, of n] const_its.adv_at [OF assms, of n]
    by (simp_all add: plus_it_def plus_const_def const)
  show ?thesis
    using bit_its.adv_moves [OF assms, of n] bit_its.dec_iterates [of m n] bit_its.inc_iterates [of m n]
      const_its.dec_iterates [of m n] const_its.inc_iterates [of m n]
    by (simp add: plus it_diff_at const_index_def it_index_def const_deref_at ref_bool_at)
qed

theorem bit_iterator_moves_witness:
  "it_plus (it_at 5) 20 = \<lparr>m_data = 3, m_offset = 1\<rparr> \<and> (it_preinc ^^ 20) (it_at 5) = \<lparr>m_data = 3, m_offset = 1\<rparr> \<and>
   const_index [0, 0, 0, 2] (const_of_it (it_at 5)) 20 = Ret True"
proof -
  have "it_at 25 = \<lparr>m_data = 3, m_offset = 1\<rparr>" by (simp add: it_at_def bit_it_def)
  moreover have "it_plus (it_at 5) (of_nat 20) = it_at 25" by (simp add: it_plus_def it_plus_assign_def advance_at del: of_nat_numeral)
  moreover have "ref_bool [0, 0, 0, 2] (it_index (it_at 5) (of_nat 20)) = Ret True"
    using \<open>it_plus (it_at 5) (of_nat 20) = it_at 25\<close> by (simp add: it_index_def ref_bool_at le_test_bit_def bit_simps del: of_nat_numeral)
  ultimately show ?thesis using bit_iterator_moves [of 20 5 "[0, 0, 0, 2]"] by simp
qed

text \<open>
  Moving a bit iterator back with \<^verbatim>\<open>operator-\<close> across a byte boundary yields a pointer far behind the buffer, because the
  negative distance is divided as an unsigned number.
\<close>

lemma it_minus_leaves_buffer:
  assumes "n mod 8 < m" and "m < 1152921504606846976"
  shows "1152921504606846976 \<le> m_data (it_minus (it_at n) (of_nat m))"
proof -
  let ?w = "of_nat (n mod 8) - of_nat m :: u64"
  let ?k = "m - n mod 8"
  have "(of_nat (18446744073709551616 - ?k) :: u64) = of_nat 18446744073709551616 - of_nat ?k"
    using assms(2) by (intro of_nat_diff) simp
  also have "\<dots> = ?w" using assms(1) by (simp add: of_nat_diff)
  finally have w: "?w = of_nat (18446744073709551616 - ?k)" by (rule sym)
  have "unat ?w = 18446744073709551616 - ?k" unfolding w using assms(1) by (intro unat_of_nat_small) simp
  then have "1152921504606846976 \<le> unat (?w div 8)" using assms(2) by (simp add: unat_div)
  then have "1152921504606846976 \<le> uint (?w div 8)" by (metis of_nat_le_iff of_nat_numeral uint_nat)
  moreover have "unat (?w mod 8) < 8" by (simp add: unat_mod)
  then have "sint (?w mod 8) = int (unat (?w mod 8))" by (intro sint_u64_small) simp
  ultimately show ?thesis
    by (simp add: it_minus_def it_minus_assign_def it_plus_assign_def advance_def it_at_def bit_it_def Let_def)
qed

text \<open>
  \<^verbatim>\<open>std::fill\<close> over a range of bits inside a buffer ends without a fault, gives every bit of the range the value and keeps
  every other bit; \<^verbatim>\<open>std::find\<close> ends at the first bit with the value.
\<close>

lemma bit_ranges_fill_and_find:
  assumes "a \<le> b" and "b \<le> 8 * length d"
  shows "(\<exists>d'. std_fill d (it_at a) (it_at b) v = Ret d' \<and> length d' = length d \<and>
      (\<forall>n < 8 * length d. le_test_bit d' n = (if a \<le> n \<and> n < b then v else le_test_bit d n))) \<and>
    (\<forall>j. a \<le> j \<and> j < b \<and> le_test_bit d j = v \<and> (\<forall>i. a \<le> i \<and> i < j \<longrightarrow> le_test_bit d i \<noteq> v) \<longrightarrow>
      std_find d (it_at a) (it_at b) v = Ret (it_at j))"
  using std_fill_at [OF assms] std_find_at [of a _ d b v] assms by auto

end
