(* ===== verification/Mkfs_Config.thy ===== *)
theory Mkfs_Config
  imports Aufs_Prelude
begin

text \<open>
  The configuration of the formatter (class \<^verbatim>\<open>Configuration\<close> of \<^verbatim>\<open>user/block.hpp\<close>) and how \<^verbatim>\<open>user/mkfs.cpp\<close> gets it from the
  command line and checks it. All its numbers are 32-bit words. The size of the device is a parameter.
\<close>

subsection \<open>Results\<close>

text \<open>A run ends with a value, an exception of the C++ code, or a crash.\<close>

datatype mkfs_error = Crash c_fault | Runtime_error string | Invalid_argument | Out_of_range

type_synonym 'a mres = "mkfs_error + 'a"

subsection \<open>Configuration\<close>

record configuration =
  cfg_device :: string
  cfg_dir :: string
  m_device_zones :: u32
  m_zone_size :: u32
  m_inode_blocks :: u32
  m_inode_map_blocks :: u32
  m_zone_map_blocks :: u32
  m_num_block_alignment :: u32

definition Device :: "configuration \<Rightarrow> string" where "Device c = cfg_device c"
definition SourceDir :: "configuration \<Rightarrow> string" where "SourceDir c = cfg_dir c"
definition NumZones :: "configuration \<Rightarrow> u32" where "NumZones c = m_device_zones c"
definition NumInodeEntryBlocks :: "configuration \<Rightarrow> u32" where "NumInodeEntryBlocks c = m_inode_blocks c"
definition ZoneSize :: "configuration \<Rightarrow> u32" where "ZoneSize c = m_zone_size c"

definition BlockSize :: "configuration \<Rightarrow> u32" where
  "BlockSize c = (if 4096 < m_zone_size c then 4096 else m_zone_size c)"

definition NumInodeMapBlocks :: "configuration \<Rightarrow> u32" where "NumInodeMapBlocks c = m_inode_map_blocks c"
definition NumZoneMapBlocks :: "configuration \<Rightarrow> u32" where "NumZoneMapBlocks c = m_zone_map_blocks c"
definition NumBlockAlignment :: "configuration \<Rightarrow> u32" where "NumBlockAlignment c = m_num_block_alignment c"

definition cfg_round_up_division :: "u32 \<Rightarrow> u32 \<Rightarrow> u32 cres" where
  "cfg_round_up_division dividend divisor =
     (if divisor = 0 then Fault DivByZero else Ret ((dividend + divisor - 1) div divisor))"

definition CalculateAlignedNumBlocks :: "configuration \<Rightarrow> u32 \<Rightarrow> u32 cres" where
  "CalculateAlignedNumBlocks c num_blocks =
     (case cfg_round_up_division num_blocks (m_num_block_alignment c) of
        Inl f \<Rightarrow> Fault f
      | Inr n \<Rightarrow> Ret (n * m_num_block_alignment c))"

definition CountInodeEntryBlocks :: "configuration \<Rightarrow> u32 cres" where
  "CountInodeEntryBlocks c =
     (let inodes = min (NumZones c) (NumInodeMapBlocks c * BlockSize c * 8);
          in_block = BlockSize c div 64
      in if in_block = 0 then Fault DivByZero else Ret ((inodes + in_block - 1) div in_block))"

text \<open>The constructor; the inode block count is computed last.\<close>

definition Configuration :: "string \<Rightarrow> string \<Rightarrow> u32 \<Rightarrow> u32 \<Rightarrow> u32 \<Rightarrow> u32 \<Rightarrow> u32 \<Rightarrow> configuration cres" where
  "Configuration device dir n_zones zone_size num_block_inode_map num_block_zone_map num_block_alignment =
     (let c = \<lparr>cfg_device = device, cfg_dir = dir, m_device_zones = 0, m_zone_size = zone_size, m_inode_blocks = 0,
               m_inode_map_blocks = num_block_inode_map, m_zone_map_blocks = num_block_zone_map,
               m_num_block_alignment = num_block_alignment\<rparr>;
          c1 = c\<lparr>m_device_zones := min (num_block_zone_map * BlockSize c * 8) n_zones\<rparr>
      in case CountInodeEntryBlocks c1 of
           Inl f \<Rightarrow> Fault f
         | Inr n \<Rightarrow> Ret (c1\<lparr>m_inode_blocks := n\<rparr>))"

subsection \<open>Checks\<close>

definition VerifyZones :: "configuration \<Rightarrow> bool" where
  "VerifyZones config = (\<not> NumZones config \<le> 3)"

text \<open>The product is a 32-bit word; only then it is compared with the \<^verbatim>\<open>size_t\<close>.\<close>

definition VerifyDevice :: "(string \<Rightarrow> u64) \<Rightarrow> configuration \<Rightarrow> bool" where
  "VerifyDevice DeviceSize config =
     (let sz = DeviceSize (Device config) in \<not> sz < ucast (NumZones config * ZoneSize config))"

function IsPowerOfTwo :: "u32 \<Rightarrow> bool" where
  "IsPowerOfTwo zs = (if 1 < zs then (if zs mod 2 = 1 then False else IsPowerOfTwo (zs div 2)) else True)"
  by pat_completeness auto
termination
proof (relation "measure unat", goal_cases)
  case (2 zs)
  then have "1 < unat zs" by (simp add: word_less_nat_alt)
  then show ?case by (simp add: unat_div)
qed simp

declare IsPowerOfTwo.simps [simp del]

definition VerifyZoneSize :: "configuration \<Rightarrow> bool" where
  "VerifyZoneSize config = (\<not> (ZoneSize config < 512 \<or> \<not> IsPowerOfTwo (ZoneSize config)))"

definition VerifyConfiguration :: "(string \<Rightarrow> u64) \<Rightarrow> configuration \<Rightarrow> configuration mres" where
  "VerifyConfiguration DeviceSize config =
     (if \<not> VerifyZoneSize config then Inl (Runtime_error ''Unsupported zone size'')
      else if \<not> VerifyZones config then Inl (Runtime_error ''Wrong number of zones'')
      else if \<not> VerifyDevice DeviceSize config then Inl (Runtime_error ''Device is too small'')
      else Inr config)"

subsection \<open>Arguments\<close>

definition isspace :: "char \<Rightarrow> bool" where
  "isspace c \<longleftrightarrow> (9 \<le> (of_char c :: nat) \<and> (of_char c :: nat) \<le> 13) \<or> (of_char c :: nat) = 32"

definition isdigit :: "char \<Rightarrow> bool" where
  "isdigit c \<longleftrightarrow> 48 \<le> (of_char c :: nat) \<and> (of_char c :: nat) \<le> 57"

definition digits_value :: "string \<Rightarrow> int" where
  "digits_value ds = foldl (\<lambda>acc c. 10 * acc + (of_char c - 48)) 0 ds"

text \<open>\<^verbatim>\<open>std::stoi\<close>: blanks, a sign, digits; what follows is ignored. The value has to fit an int.\<close>

definition stoi :: "string \<Rightarrow> int mres" where
  "stoi s =
     (let s1 = dropWhile isspace s;
          neg = (case s1 of [] \<Rightarrow> False | c # _ \<Rightarrow> c = CHR ''-'');
          s2 = (case s1 of [] \<Rightarrow> [] | c # cs \<Rightarrow> if c = CHR ''-'' \<or> c = CHR ''+'' then cs else s1);
          ds = takeWhile isdigit s2;
          v = (if neg then - digits_value ds else digits_value ds)
      in if ds = [] then Inl Invalid_argument
         else if v < - 2147483648 \<or> 2147483647 < v then Inl Out_of_range
         else Inr v)"

record options =
  o_device :: string
  o_dir :: string
  o_zone_size :: u64
  o_num_zones :: u64

text \<open>The loop over the arguments: an option takes the next argument as its value, if there is one.\<close>

fun parse_loop :: "string list \<Rightarrow> options \<Rightarrow> options mres" where
  "parse_loop [] opts = Inr opts"
| "parse_loop (arg # rest) opts =
     (case rest of
        [] \<Rightarrow>
          if arg = ''--help'' \<or> arg = ''-h'' then parse_loop [] opts
          else parse_loop [] (opts\<lparr>o_device := arg\<rparr>)
      | val # rest' \<Rightarrow>
          if arg = ''--nzones'' \<or> arg = ''-b'' then
            (case stoi val of Inl e \<Rightarrow> Inl e | Inr v \<Rightarrow> parse_loop rest' (opts\<lparr>o_num_zones := of_int v\<rparr>))
          else if arg = ''--zonesize'' \<or> arg = ''-s'' then
            (case stoi val of Inl e \<Rightarrow> Inl e | Inr v \<Rightarrow> parse_loop rest' (opts\<lparr>o_zone_size := of_int v\<rparr>))
          else if arg = ''--dir'' \<or> arg = ''-d'' then parse_loop rest' (opts\<lparr>o_dir := val\<rparr>)
          else if arg = ''--help'' \<or> arg = ''-h'' then parse_loop rest opts
          else parse_loop rest (opts\<lparr>o_device := arg\<rparr>))"

definition ParseArgs :: "(string \<Rightarrow> u64) \<Rightarrow> string list \<Rightarrow> configuration mres" where
  "ParseArgs DeviceSize args =
     (case parse_loop args \<lparr>o_device = [], o_dir = [], o_zone_size = 16384, o_num_zones = 0\<rparr> of
        Inl e \<Rightarrow> Inl e
      | Inr opts \<Rightarrow>
          if o_device opts = [] then Inl (Runtime_error ''Device name expected'')
          else if o_num_zones opts = 0 \<and> o_zone_size opts = 0 then Inl (Crash DivByZero)
          else
            let num_zones = (if o_num_zones opts = 0 then DeviceSize (o_device opts) div o_zone_size opts
                             else o_num_zones opts)
            in case Configuration (o_device opts) (o_dir opts) (ucast num_zones) (ucast (o_zone_size opts)) 1 1 1024 of
                 Inl f \<Rightarrow> Inl (Crash f)
               | Inr config \<Rightarrow> VerifyConfiguration DeviceSize config)"

subsection \<open>Powers of two\<close>

text \<open>The loop of \<^verbatim>\<open>IsPowerOfTwo\<close> ends for every word and accepts the powers of two, and zero.\<close>

lemma is_power_of_two_iff: "IsPowerOfTwo zs \<longleftrightarrow> zs = 0 \<or> (\<exists>k. unat zs = 2 ^ k)"
proof (induction zs rule: IsPowerOfTwo.induct)
  case (1 zs)
  show ?case
  proof (cases "1 < zs")
    case False
    then have "unat zs = 0 \<or> unat zs = 2 ^ 0" by (auto simp: word_less_nat_alt)
    then have "zs = 0 \<or> (\<exists>k. unat zs = 2 ^ k)" by (metis unat_eq_zero)
    then show ?thesis using False by (simp add: IsPowerOfTwo.simps [of zs])
  next
    case True
    then have gt: "1 < unat zs" by (simp add: word_less_nat_alt)
    have m: "zs mod 2 = 1 \<longleftrightarrow> unat zs mod 2 = 1" by (simp add: word_unat_eq_iff unat_mod)
    show ?thesis
    proof (cases "zs mod 2 = 1")
      case odd: True
      then have "unat zs mod 2 = 1" using m by simp
      then have "unat zs \<noteq> 2 ^ k" for k using gt by (cases k) auto
      then show ?thesis using True odd gt by (auto simp: IsPowerOfTwo.simps [of zs])
    next
      case even: False
      then have "2 dvd unat zs" using m by (simp add: even_iff_mod_2_eq_zero)
      then have half: "unat zs = 2 * unat (zs div 2)" by (simp add: unat_div)
      then have nz: "zs div 2 \<noteq> 0" using gt by auto
      have "(\<exists>k. unat (zs div 2) = 2 ^ k) \<longleftrightarrow> (\<exists>k. unat zs = 2 ^ k)"
      proof
        assume "\<exists>k. unat (zs div 2) = 2 ^ k"
        then obtain k where "unat zs = 2 ^ Suc k" using half by auto
        then show "\<exists>k. unat zs = 2 ^ k" by blast
      next
        assume "\<exists>k. unat zs = 2 ^ k"
        then obtain k where k: "unat zs = 2 ^ k" by blast
        then have "k \<noteq> 0" using gt by (metis power_0 less_irrefl)
        then obtain j where "k = Suc j" using not0_implies_Suc by blast
        then have "unat (zs div 2) = 2 ^ j" using half k by simp
        then show "\<exists>k. unat (zs div 2) = 2 ^ k" by blast
      qed
      then show ?thesis using True even 1 nz gt by (auto simp: IsPowerOfTwo.simps [of zs])
    qed
  qed
qed


subsection \<open>What a configuration from the command line satisfies\<close>

definition cfg_ok :: "configuration \<Rightarrow> nat \<Rightarrow> bool" where
  "cfg_ok c k \<longleftrightarrow>
     9 \<le> k \<and> k < 32 \<and> unat (ZoneSize c) = 2 ^ k \<and> unat (BlockSize c) = 2 ^ min k 12 \<and>
     4 \<le> unat (NumZones c) \<and> unat (NumZones c) \<le> 8 * 2 ^ min k 12 \<and>
     NumInodeMapBlocks c = 1 \<and> NumZoneMapBlocks c = 1 \<and> NumBlockAlignment c = 1024 \<and>
     unat (NumInodeEntryBlocks c) = (unat (NumZones c) + (2 ^ min k 12 div 64 - 1)) div (2 ^ min k 12 div 64)"

lemma word_of_unat: "unat w = n \<Longrightarrow> w = of_nat n"
  by auto

lemma min_u32: "unat (min a b :: u32) = min (unat a) (unat b)"
  by (simp add: min_def word_le_nat_alt)

text \<open>The constructor at the defaults: what it stores and how it counts the inode blocks.\<close>

lemma configuration_fields:
  assumes "Configuration device dir nz zs 1 1 1024 = Ret c"
  shows "cfg_device c = device" and "cfg_dir c = dir"
    and "m_zone_size c = zs" and "m_inode_map_blocks c = 1" and "m_zone_map_blocks c = 1" and "m_num_block_alignment c = 1024"
    and "m_device_zones c = min (BlockSize c * 8) nz"
    and "m_inode_blocks c = (m_device_zones c + BlockSize c div 64 - 1) div (BlockSize c div 64)"
proof -
  let ?c0 = "\<lparr>cfg_device = device, cfg_dir = dir, m_device_zones = 0, m_zone_size = zs, m_inode_blocks = 0,
      m_inode_map_blocks = 1, m_zone_map_blocks = 1, m_num_block_alignment = 1024\<rparr>"
  let ?c1 = "?c0\<lparr>m_device_zones := min (1 * BlockSize ?c0 * 8) nz\<rparr>"
  obtain n where n: "CountInodeEntryBlocks ?c1 = Ret n" and c: "c = ?c1\<lparr>m_inode_blocks := n\<rparr>"
    using assms unfolding Configuration_def Let_def by (cases "CountInodeEntryBlocks ?c1") auto
  show "cfg_device c = device" "cfg_dir c = dir" "m_zone_size c = zs" "m_inode_map_blocks c = 1" "m_zone_map_blocks c = 1" "m_num_block_alignment c = 1024"
    by (simp_all add: c)
  have same: "BlockSize c = BlockSize ?c0" "BlockSize c = BlockSize ?c1" by (simp_all add: c BlockSize_def)
  then show nz: "m_device_zones c = min (BlockSize c * 8) nz" by (simp add: c)
  have "m_inode_blocks c = (min (m_device_zones c) (BlockSize c * 8) + BlockSize c div 64 - 1) div (BlockSize c div 64)"
    using n same
    by (auto simp: c CountInodeEntryBlocks_def NumZones_def NumInodeMapBlocks_def Let_def split: if_splits)
  moreover have "min (m_device_zones c) (BlockSize c * 8) = m_device_zones c" by (simp add: nz)
  ultimately show "m_inode_blocks c = (m_device_zones c + BlockSize c div 64 - 1) div (BlockSize c div 64)" by (simp only:)
qed

text \<open>The block size of a zone of \<open>2 ^ k\<close> bytes.\<close>

lemma block_size_power:
  assumes k: "unat (m_zone_size c) = 2 ^ k"
  shows "unat (BlockSize c) = 2 ^ min k 12"
proof (cases "4096 < m_zone_size c")
  case True
  then have "2 ^ 12 < (2 ^ k :: nat)" using k by (simp add: word_less_nat_alt)
  then have "12 < k" by (rule power_less_imp_less_exp [rotated]) simp
  then show ?thesis using True by (simp add: BlockSize_def min_def)
next
  case False
  then have "2 ^ k \<le> (2 ^ 12 :: nat)" using k by (simp add: word_less_nat_alt)
  then have "k \<le> 12" by (rule power_le_imp_le_exp [rotated]) simp
  then show ?thesis using False k by (simp add: BlockSize_def min_def)
qed

text \<open>What the constructor computes for a zone size of \<open>2 ^ k\<close> bytes: the arithmetic on 32-bit words does not wrap.\<close>

lemma configuration_values:
  assumes cfg: "Configuration device dir nz zs 1 1 1024 = Ret c" and k: "unat zs = 2 ^ k" "9 \<le> k"
  shows "unat (BlockSize c) = 2 ^ min k 12" and "unat (m_device_zones c) = min (8 * 2 ^ min k 12) (unat nz)"
    and "unat (m_inode_blocks c) = (unat (m_device_zones c) + (2 ^ min k 12 div 64 - 1)) div (2 ^ min k 12 div 64)"
proof -
  note c = configuration_fields [OF cfg]
  let ?b = "2 ^ min k 12 :: nat"
  show bs: "unat (BlockSize c) = ?b" using block_size_power [of c k] k(1) c(3) by simp
  have b: "?b \<le> 2 ^ 12" "2 ^ 9 \<le> ?b" using k(2) by (intro power_increasing; simp)+
  then have b8: "unat (BlockSize c * 8) = 8 * ?b" using bs by (simp add: unat_mult_no_wrap)
  then show nz: "unat (m_device_zones c) = min (8 * ?b) (unat nz)" by (simp add: c(7) min_u32)
  then have le: "unat (m_device_zones c) \<le> 8 * ?b" by simp
  have ib: "unat (BlockSize c div 64) = ?b div 64" by (simp add: unat_div bs)
  have q: "8 \<le> ?b div 64" "?b div 64 \<le> 64" using b by (simp_all add: div_le_mono [of 512 ?b 64, simplified] div_le_mono [of ?b 4096 64, simplified])
  have "unat (m_device_zones c + BlockSize c div 64) = unat (m_device_zones c) + ?b div 64"
    using le q b ib by (subst unat_add_no_wrap) simp_all
  moreover have "unat (m_device_zones c + BlockSize c div 64 - 1) = unat (m_device_zones c + BlockSize c div 64) - 1"
    using calculation q by (intro unat_minus_one) auto
  ultimately show "unat (m_inode_blocks c) = (unat (m_device_zones c) + (?b div 64 - 1)) div (?b div 64)"
    using q by (simp add: c(8) unat_div bs)
qed

text \<open>The zone sizes the checks accept, and that the constructor does not fail for them.\<close>

lemma verify_zone_size_iff: "VerifyZoneSize c \<longleftrightarrow> (\<exists>k. 9 \<le> k \<and> k < 32 \<and> unat (ZoneSize c) = 2 ^ k)"
proof
  assume "VerifyZoneSize c"
  then obtain k where k: "unat (ZoneSize c) = 2 ^ k" "512 \<le> unat (ZoneSize c)"
    by (auto simp: VerifyZoneSize_def is_power_of_two_iff word_less_nat_alt)
  have "2 ^ 9 \<le> (2 ^ k :: nat)" using k by simp
  then have "9 \<le> k" by (rule power_le_imp_le_exp [rotated]) simp
  moreover have "(2 :: nat) ^ k < 2 ^ 32" using unat_u32_less [of "ZoneSize c"] k(1) by simp
  then have "k < 32" by (rule power_less_imp_less_exp [rotated]) simp
  ultimately show "\<exists>k. 9 \<le> k \<and> k < 32 \<and> unat (ZoneSize c) = 2 ^ k" using k(1) by blast
next
  assume "\<exists>k. 9 \<le> k \<and> k < 32 \<and> unat (ZoneSize c) = 2 ^ k"
  then obtain k where k: "9 \<le> k" "unat (ZoneSize c) = 2 ^ k" by blast
  have "2 ^ 9 \<le> (2 :: nat) ^ k" using k(1) by (rule power_increasing) simp
  then have "512 \<le> unat (ZoneSize c)" using k(2) by simp
  then show "VerifyZoneSize c" using k(2) by (auto simp: VerifyZoneSize_def is_power_of_two_iff word_less_nat_alt)
qed

lemma configuration_total:
  assumes "unat zs = 2 ^ k" and "9 \<le> k"
  shows "\<exists>c. Configuration device dir nz zs 1 1 1024 = Ret c"
proof -
  have b: "2 ^ 9 \<le> (2 :: nat) ^ min k 12" using assms(2) by (intro power_increasing) simp_all
  have "BlockSize c div 64 \<noteq> 0" if "m_zone_size c = zs" for c :: configuration
  proof -
    have "512 \<le> unat (BlockSize c)" using block_size_power [of c k] assms(1) that b by simp
    then have "unat (BlockSize c div 64) \<noteq> 0" by (simp add: unat_div div_eq_0_iff)
    then show ?thesis by auto
  qed
  then show ?thesis by (simp add: Configuration_def CountInodeEntryBlocks_def Let_def)
qed

lemma configuration_ok:
  assumes cfg: "Configuration device dir nz zs 1 1 1024 = Ret c" and ok: "VerifyZoneSize c" "VerifyZones c"
  shows "\<exists>k. cfg_ok c k"
proof -
  note c = configuration_fields [OF cfg]
  obtain k where k: "9 \<le> k" "k < 32" "unat zs = 2 ^ k"
    using ok(1) c(3) by (auto simp: verify_zone_size_iff ZoneSize_def)
  note v = configuration_values [OF cfg k(3,1)]
  have "unat (m_device_zones c) \<le> 8 * 2 ^ min k 12" using v(2) by simp
  moreover have "4 \<le> unat (m_device_zones c)" using ok(2) by (simp add: VerifyZones_def NumZones_def word_le_nat_alt)
  ultimately show ?thesis
    using k c(3-6) v(1,3)
    by (auto simp: cfg_ok_def ZoneSize_def NumZones_def NumInodeMapBlocks_def NumZoneMapBlocks_def NumBlockAlignment_def
        NumInodeEntryBlocks_def intro!: exI [of _ k])
qed

lemma parse_args_result:
  assumes "ParseArgs D args = Inr c"
  shows "\<exists>k. cfg_ok c k" and "VerifyDevice D c"
proof -
  obtain device dir nz zs where "Configuration device dir nz zs 1 1 1024 = Ret c" "VerifyZoneSize c" "VerifyZones c" "VerifyDevice D c"
    using assms by (auto simp: ParseArgs_def VerifyConfiguration_def Let_def split: sum.splits if_splits)
  then show "\<exists>k. cfg_ok c k" "VerifyDevice D c" using configuration_ok by blast+
qed

text \<open>
  What \<^verbatim>\<open>ParseArgs\<close> makes of its options: the zones asked for, and the configuration of a zone size of \<open>2 ^ k\<close> bytes. The options are
  \<^verbatim>\<open>size_t\<close> and the fields of a configuration have 32 bits.
\<close>

definition requested_zones :: "(string \<Rightarrow> u64) \<Rightarrow> options \<Rightarrow> u64" where
  "requested_zones D opts = (if o_num_zones opts = 0 then D (o_device opts) div o_zone_size opts else o_num_zones opts)"

definition config_for :: "(string \<Rightarrow> u64) \<Rightarrow> options \<Rightarrow> nat \<Rightarrow> configuration" where
  "config_for D opts k =
     (let zones = min (8 * 2 ^ min k 12) (unat (requested_zones D opts) mod 2 ^ 32); per_block = 2 ^ min k 12 div 64
      in \<lparr>cfg_device = o_device opts, cfg_dir = o_dir opts, m_device_zones = of_nat zones, m_zone_size = of_nat (2 ^ k),
          m_inode_blocks = of_nat ((zones + (per_block - 1)) div per_block), m_inode_map_blocks = 1, m_zone_map_blocks = 1,
          m_num_block_alignment = 1024\<rparr>)"

lemma config_for_eq:
  assumes cfg: "Configuration (o_device opts) (o_dir opts) (ucast (requested_zones D opts)) (ucast (o_zone_size opts)) 1 1 1024 = Ret c"
    and k: "unat (o_zone_size opts) mod 2 ^ 32 = 2 ^ k" "9 \<le> k"
  shows "c = config_for D opts k"
proof -
  have zs: "unat (ucast (o_zone_size opts) :: u32) = 2 ^ k" using k(1) by (simp add: unat_ucast_u64_u32)
  note f = configuration_fields [OF cfg] and v = configuration_values [OF cfg zs k(2)]
  define z where "z = min (8 * 2 ^ min k 12) (unat (requested_zones D opts) mod 2 ^ 32)"
  define b :: nat where "b = 2 ^ min k 12 div 64"
  have uz: "unat (m_device_zones c) = z" using v(2) by (simp add: z_def unat_ucast_u64_u32)
  have "m_device_zones c = of_nat z" "m_zone_size c = of_nat (2 ^ k)"
    "m_inode_blocks c = of_nat ((z + (b - 1)) div b)"
    using uz zs v(3) f(3) by (simp_all only: b_def word_of_unat)
  then show ?thesis
    using f(1,2,4-6) unfolding config_for_def Let_def z_def [symmetric] b_def [symmetric]
    by (intro configuration.equality) (simp_all only: configuration.select_convs, simp)
qed

subsection \<open>Properties\<close>

text \<open>
  C40: which command lines \<^verbatim>\<open>ParseArgs\<close> accepts and what configuration it makes of them. The options have to name a device; the zone size
  and the number of zones (by default the size of the device divided by the zone size) are cut to 32 bits. The cut zone size has to be
  a power of two from 512 on; the number of zones is at most the number of bits of one block (of the zone size, at most 4096 bytes) and at
  least four; the inode table has room for one inode per zone. The bytes of all zones, cut to 32 bits, have to fit on the device. Nothing
  else is checked, so sizes above 32 bits are accepted with other values than the ones asked for.
\<close>

theorem parse_args_configuration:
  "ParseArgs D args = Inr c \<longleftrightarrow>
    (\<exists>opts k. parse_loop args \<lparr>o_device = [], o_dir = [], o_zone_size = 16384, o_num_zones = 0\<rparr> = Inr opts \<and> o_device opts \<noteq> [] \<and>
       9 \<le> k \<and> k < 32 \<and> unat (o_zone_size opts) mod 2 ^ 32 = 2 ^ k \<and> c = config_for D opts k \<and>
       4 \<le> unat (m_device_zones c) \<and> unat (m_device_zones c) * 2 ^ k mod 2 ^ 32 \<le> unat (D (o_device opts)))"
  (is "?l \<longleftrightarrow> ?r")
proof -
  let ?opts = "parse_loop args \<lparr>o_device = [], o_dir = [], o_zone_size = 16384, o_num_zones = 0\<rparr>"
  have dev: "VerifyDevice D c \<longleftrightarrow> unat (m_device_zones c) * 2 ^ k mod 2 ^ 32 \<le> unat (D (cfg_device c))"
    if "unat (m_zone_size c) = 2 ^ k" for c k
    using that by (simp add: VerifyDevice_def NumZones_def ZoneSize_def Device_def word_less_nat_alt not_less unat_word_ariths)
  have zones: "VerifyZones c \<longleftrightarrow> 4 \<le> unat (m_device_zones c)" for c
    by (auto simp: VerifyZones_def NumZones_def word_le_nat_alt)
  have parse: "ParseArgs D args = Inr c \<longleftrightarrow> (\<exists>opts. ?opts = Inr opts \<and> o_device opts \<noteq> [] \<and>
      \<not> (o_num_zones opts = 0 \<and> o_zone_size opts = 0) \<and>
      Configuration (o_device opts) (o_dir opts) (ucast (requested_zones D opts)) (ucast (o_zone_size opts)) 1 1 1024 = Ret c \<and>
      VerifyZoneSize c \<and> VerifyZones c \<and> VerifyDevice D c)"
    by (auto simp: ParseArgs_def VerifyConfiguration_def requested_zones_def Let_def split: sum.splits if_splits)
  show ?thesis
  proof
    assume ?l
    then obtain opts where o: "?opts = Inr opts" "o_device opts \<noteq> []"
      and cfg: "Configuration (o_device opts) (o_dir opts) (ucast (requested_zones D opts)) (ucast (o_zone_size opts)) 1 1 1024 = Ret c"
      and ver: "VerifyZoneSize c" "VerifyZones c" "VerifyDevice D c" unfolding parse by blast
    note f = configuration_fields [OF cfg]
    obtain k where k: "9 \<le> k" "k < 32" "unat (m_zone_size c) = 2 ^ k" using ver(1) by (auto simp: verify_zone_size_iff ZoneSize_def)
    then have "unat (o_zone_size opts) mod 2 ^ 32 = 2 ^ k" using f(3) by (simp add: unat_ucast_u64_u32)
    with o k ver(2,3) config_for_eq [OF cfg this k(1)] zones dev [OF k(3)] f(1) show ?r by auto
  next
    assume ?r
    then obtain opts k where o: "?opts = Inr opts" "o_device opts \<noteq> []" and k: "9 \<le> k" "k < 32" "unat (o_zone_size opts) mod 2 ^ 32 = 2 ^ k"
      and c: "c = config_for D opts k" "4 \<le> unat (m_device_zones c)" "unat (m_device_zones c) * 2 ^ k mod 2 ^ 32 \<le> unat (D (o_device opts))"
      by blast
    have zs: "unat (ucast (o_zone_size opts) :: u32) = 2 ^ k" using k(3) by (simp add: unat_ucast_u64_u32)
    obtain c' where cfg: "Configuration (o_device opts) (o_dir opts) (ucast (requested_zones D opts)) (ucast (o_zone_size opts)) 1 1 1024 = Ret c'"
      using configuration_total [OF zs k(1)] by blast
    have cc: "c' = c" using config_for_eq [OF cfg k(3,1)] c(1) by simp
    note f = configuration_fields [OF cfg [unfolded cc]]
    have kz: "unat (m_zone_size c) = 2 ^ k" using f(3) zs by simp
    have "VerifyZoneSize c" using kz k by (auto simp: verify_zone_size_iff ZoneSize_def)
    moreover have "o_zone_size opts \<noteq> 0" using zs by auto
    moreover have "VerifyZones c" "VerifyDevice D c" using zones dev [OF kz] c(2,3) f(1) by simp_all
    ultimately show ?l unfolding parse using o cfg cc by blast
  qed
qed

definition demo_config :: configuration where
  "demo_config =
     \<lparr>cfg_device = ''img'', cfg_dir = [], m_device_zones = 64, m_zone_size = 8192, m_inode_blocks = 1,
      m_inode_map_blocks = 1, m_zone_map_blocks = 1, m_num_block_alignment = 1024\<rparr>"

lemma demo_parse: "ParseArgs (\<lambda>_. 524288) [''-s'', ''8192'', ''img''] = Inr demo_config"
  by code_simp

text \<open>
  The check of the device size multiplies 32-bit words: 32768 zones of 131072 bytes are accepted on a device of any size. A
  zone size below 64 ends in a division by zero before the checks are reached.
\<close>

lemma parse_args_unchecked:
  "(\<exists>c. ParseArgs DeviceSize [''-s'', ''131072'', ''-b'', ''32768'', ''img''] = Inr c \<and>
      unat (NumZones c) * unat (ZoneSize c) = 2 ^ 32) \<and>
   ParseArgs DeviceSize [''-s'', ''32'', ''img''] = Inl (Crash DivByZero)"
proof -
  let ?c = "\<lparr>cfg_device = ''img'', cfg_dir = [], m_device_zones = 32768, m_zone_size = 131072, m_inode_blocks = 512,
      m_inode_map_blocks = 1, m_zone_map_blocks = 1, m_num_block_alignment = 1024\<rparr>"
  have "parse_loop [''-s'', ''131072'', ''-b'', ''32768'', ''img''] \<lparr>o_device = [], o_dir = [], o_zone_size = 16384, o_num_zones = 0\<rparr> =
      Inr \<lparr>o_device = ''img'', o_dir = [], o_zone_size = 131072, o_num_zones = 32768\<rparr>" by code_simp
  moreover have "Configuration ''img'' [] 32768 131072 1 1 1024 = Ret ?c" by code_simp
  moreover have "VerifyZoneSize ?c" "VerifyZones ?c" by code_simp+
  moreover have "VerifyDevice DeviceSize ?c" by (simp add: VerifyDevice_def NumZones_def ZoneSize_def)
  ultimately have "ParseArgs DeviceSize [''-s'', ''131072'', ''-b'', ''32768'', ''img''] = Inr ?c"
    by (simp add: ParseArgs_def VerifyConfiguration_def)
  moreover have "unat (NumZones ?c) * unat (ZoneSize ?c) = 2 ^ 32" by (simp add: NumZones_def ZoneSize_def)
  moreover have "parse_loop [''-s'', ''32'', ''img''] \<lparr>o_device = [], o_dir = [], o_zone_size = 16384, o_num_zones = 0\<rparr> =
      Inr \<lparr>o_device = ''img'', o_dir = [], o_zone_size = 32, o_num_zones = 0\<rparr>" by code_simp
  then have "ParseArgs DeviceSize [''-s'', ''32'', ''img''] = Inl (Crash DivByZero)"
    by (simp add: ParseArgs_def Configuration_def CountInodeEntryBlocks_def BlockSize_def Let_def)
  ultimately show ?thesis by blast
qed

end
