(* ===== verification/Mkfs_Cache.thy ===== *)
theory Mkfs_Cache
  imports Mkfs_Config
begin

text \<open>
  The block cache of the formatter (classes \<^verbatim>\<open>Block\<close> and \<^verbatim>\<open>BlocksCache\<close>, \<^verbatim>\<open>user/block.hpp\<close> and \<^verbatim>\<open>user/block.cpp\<close>) and its refinement
  to an array of blocks. The device is a file: reading behind its end gives no bytes, writing behind its end extends it with zeros.
\<close>

subsection \<open>The device\<close>

definition byte_at :: "bytes \<Rightarrow> nat \<Rightarrow> u8" where
  "byte_at dev j = (if j < length dev then dev ! j else 0)"

text \<open>What a stream reads at an offset into a zeroed buffer, and the file after a write at an offset.\<close>

definition read_at :: "bytes \<Rightarrow> nat \<Rightarrow> nat \<Rightarrow> bytes" where
  "read_at dev off n = (let got = take n (drop off dev) in got @ replicate (n - length got) 0)"

definition write_at :: "nat \<Rightarrow> bytes \<Rightarrow> bytes \<Rightarrow> bytes" where
  "write_at off src dev = take off (dev @ replicate (off - length dev) 0) @ src @ drop (off + length src) dev"

subsection \<open>Blocks\<close>

text \<open>Class \<^verbatim>\<open>Block\<close>: its configuration, its number and its data, which is zero in a new block.\<close>

record block_obj =
  blk_config :: configuration
  m_number :: nat
  blk_data :: bytes

definition Block :: "configuration \<Rightarrow> nat \<Rightarrow> block_obj" where
  "Block config no = \<lparr>blk_config = config, m_number = no, blk_data = replicate (unat (BlockSize config)) 0\<rparr>"

definition BlockNo :: "block_obj \<Rightarrow> nat" where "BlockNo b = m_number b"

definition Data :: "block_obj \<Rightarrow> bytes" where "Data b = blk_data b"

definition Block_Size :: "block_obj \<Rightarrow> nat" where "Block_Size b = unat (BlockSize (blk_config b))"

text \<open>\<^verbatim>\<open>Dump\<close> writes the data at the position of the stream, \<^verbatim>\<open>Read\<close> overwrites as much of it as the stream has.\<close>

definition Dump :: "nat \<Rightarrow> block_obj \<Rightarrow> bytes \<Rightarrow> bytes" where
  "Dump off b out = write_at off (take (Block_Size b) (Data b)) out"

definition Read :: "bytes \<Rightarrow> nat \<Rightarrow> block_obj \<Rightarrow> block_obj" where
  "Read inp off b = (let got = take (Block_Size b) (drop off inp) in b\<lparr>blk_data := got @ drop (length got) (Data b)\<rparr>)"

subsection \<open>The cache\<close>

text \<open>
  \<open>m_cache\<close> is the map from block numbers to block data, in the order of the keys. A block object is shared with the callers that hold
  a pointer to it: \<open>c_held\<close> are the numbers of the blocks with an owner besides the cache.
\<close>

record blocks_cache =
  c_config :: configuration
  c_dev :: bytes
  m_cache :: "(nat \<times> bytes) list"
  c_held :: "nat set"

abbreviation c_bs :: "blocks_cache \<Rightarrow> nat" where
  "c_bs c \<equiv> unat (BlockSize (c_config c))"

definition BlocksCache :: "configuration \<Rightarrow> bytes \<Rightarrow> blocks_cache" where
  "BlocksCache config dev = \<lparr>c_config = config, c_dev = dev, m_cache = [], c_held = {}\<rparr>"

definition Config :: "blocks_cache \<Rightarrow> configuration" where "Config c = c_config c"

definition ReadBlock :: "configuration \<Rightarrow> bytes \<Rightarrow> nat \<Rightarrow> bytes" where
  "ReadBlock config dev no = Data (Read dev (no * unat (BlockSize config)) (Block config no))"

definition WriteBlock :: "configuration \<Rightarrow> nat \<Rightarrow> bytes \<Rightarrow> bytes \<Rightarrow> bytes" where
  "WriteBlock config no block dev =
     (let b = \<lparr>blk_config = config, m_number = no, blk_data = block\<rparr> in Dump (BlockNo b * Block_Size b) b dev)"

text \<open>The loop of \<^verbatim>\<open>Sync\<close>: every block is written, those without another owner leave the cache.\<close>

fun sync_loop :: "configuration \<Rightarrow> nat set \<Rightarrow> (nat \<times> bytes) list \<Rightarrow> bytes \<Rightarrow> (nat \<times> bytes) list \<times> bytes" where
  "sync_loop config held [] dev = ([], dev)"
| "sync_loop config held ((no, block) # rest) dev =
     (case sync_loop config held rest (WriteBlock config no block dev) of
        (kept, dev') \<Rightarrow> (if no \<in> held then (no, block) # kept else kept, dev'))"

definition Sync :: "blocks_cache \<Rightarrow> blocks_cache" where
  "Sync c = (case sync_loop (c_config c) (c_held c) (m_cache c) (c_dev c) of
               (kept, dev) \<Rightarrow> c\<lparr>m_cache := kept, c_dev := dev\<rparr>)"

definition ThresholdSize :: nat where "ThresholdSize = 1048576"

definition GetBlock :: "nat \<Rightarrow> blocks_cache \<Rightarrow> bytes \<times> blocks_cache" where
  "GetBlock no c =
     (case map_of (m_cache c) no of
        Some block \<Rightarrow> (block, c\<lparr>c_held := insert no (c_held c)\<rparr>)
      | None \<Rightarrow>
          let c1 = (if ThresholdSize < c_bs c * length (m_cache c) then Sync c else c);
              block = ReadBlock (c_config c1) (c_dev c1) no
          in (block, c1\<lparr>m_cache := insort_key fst (no, block) (m_cache c1), c_held := insert no (c_held c1)\<rparr>))"

text \<open>A caller writes through the pointer it holds, and drops the pointer.\<close>

definition PutData :: "nat \<Rightarrow> bytes \<Rightarrow> blocks_cache \<Rightarrow> blocks_cache" where
  "PutData no block c = c\<lparr>m_cache := map (\<lambda>(n, d). (n, if n = no then block else d)) (m_cache c)\<rparr>"

definition Release :: "nat \<Rightarrow> blocks_cache \<Rightarrow> blocks_cache" where
  "Release no c = c\<lparr>c_held := c_held c - {no}\<rparr>"

definition DestroyCache :: "blocks_cache \<Rightarrow> bytes" where
  "DestroyCache c = c_dev (Sync c)"

subsection \<open>Bytes of the device\<close>

lemma length_read_at [simp]: "length (read_at dev off n) = n"
  by (auto simp: read_at_def Let_def)

lemma nth_read_at: "i < n \<Longrightarrow> read_at dev off n ! i = byte_at dev (off + i)"
  by (auto simp: read_at_def Let_def byte_at_def nth_append)

lemma read_at_eqI: "length xs = n \<Longrightarrow> (\<And>i. i < n \<Longrightarrow> xs ! i = byte_at dev (off + i)) \<Longrightarrow> read_at dev off n = xs"
  by (rule nth_equalityI) (simp_all add: nth_read_at)

lemma byte_at_write:
  "byte_at (write_at off src dev) j = (if off \<le> j \<and> j < off + length src then src ! (j - off) else byte_at dev j)"
proof -
  define P where "P = take off (dev @ replicate (off - length dev) 0)"
  have P: "length P = off" by (simp add: P_def)
  have low: "P ! j = byte_at dev j" if "j < off"
    using that by (simp add: P_def byte_at_def nth_append)
  have W: "write_at off src dev = P @ src @ drop (off + length src) dev" by (simp add: write_at_def P_def)
  consider "j < off" | "off \<le> j" "j < off + length src" | "off + length src \<le> j" by linarith
  then show ?thesis
  proof cases
    case 1
    then have "byte_at (write_at off src dev) j = P ! j" using P by (simp add: byte_at_def W nth_append)
    then show ?thesis using 1 low by simp
  qed (auto simp: byte_at_def W nth_append P)
qed

lemma read_write_at:
  assumes "length src = bs"
  shows "read_at (write_at (m * bs) src dev) (n * bs) bs = (if n = m then src else read_at dev (n * bs) bs)"
proof (cases "n = m")
  case True
  then show ?thesis using assms by (intro read_at_eqI) (simp_all add: byte_at_write)
next
  case False
  have "\<not> (m * bs \<le> n * bs + i \<and> n * bs + i < m * bs + bs)" if "i < bs" for i
  proof (cases "n < m")
    case True
    then have "(n + 1) * bs \<le> m * bs" by (intro mult_le_mono1) simp
    then show ?thesis using that by simp
  next
    case False
    then have "(m + 1) * bs \<le> n * bs" using \<open>n \<noteq> m\<close> by (intro mult_le_mono1) simp
    then show ?thesis by simp
  qed
  then show ?thesis using False assms by (intro read_at_eqI) (auto simp: byte_at_write nth_read_at)
qed

lemma ReadBlock_eq: "ReadBlock config dev no = read_at dev (no * unat (BlockSize config)) (unat (BlockSize config))"
  by (simp add: ReadBlock_def Data_def Read_def Block_def Block_Size_def read_at_def Let_def)

lemma WriteBlock_eq:
  "length block = unat (BlockSize config) \<Longrightarrow> WriteBlock config no block dev = write_at (no * unat (BlockSize config)) block dev"
  by (simp add: WriteBlock_def Data_def BlockNo_def Dump_def Block_Size_def Let_def)

subsection \<open>Refinement to an array of blocks\<close>

text \<open>The array of blocks a cache stands for: cached data before data of the device.\<close>

definition view :: "blocks_cache \<Rightarrow> nat \<Rightarrow> bytes" where
  "view c n = (case map_of (m_cache c) n of Some d \<Rightarrow> d | None \<Rightarrow> ReadBlock (c_config c) (c_dev c) n)"

definition cache_ok :: "blocks_cache \<Rightarrow> bool" where
  "cache_ok c \<longleftrightarrow>
     sorted (map fst (m_cache c)) \<and> distinct (map fst (m_cache c)) \<and> (\<forall>(n, d) \<in> set (m_cache c). length d = c_bs c) \<and>
     c_held c \<subseteq> fst ` set (m_cache c)"

lemma view_held [simp]: "view (c\<lparr>c_held := h\<rparr>) = view c"
  by (simp add: view_def fun_eq_iff split: option.split)

lemma view_cached: "view (c\<lparr>m_cache := es\<rparr>) n = (case map_of es n of Some d \<Rightarrow> d | None \<Rightarrow> ReadBlock (c_config c) (c_dev c) n)"
  by (simp add: view_def split: option.split)

lemma sync_loop_spec:
  assumes "sync_loop config held es dev = (kept, dev')" and "distinct (map fst es)"
    and "\<forall>(n, d) \<in> set es. length d = unat (BlockSize config)"
  shows "kept = filter (\<lambda>(n, d). n \<in> held) es"
    and "ReadBlock config dev' n = (case map_of es n of Some d \<Rightarrow> d | None \<Rightarrow> ReadBlock config dev n)"
proof -
  show "kept = filter (\<lambda>(n, d). n \<in> held) es"
    using assms(1) by (induction es arbitrary: dev kept) (auto split: prod.splits)
  show "ReadBlock config dev' n = (case map_of es n of Some d \<Rightarrow> d | None \<Rightarrow> ReadBlock config dev n)"
    using assms
  proof (induction es arbitrary: dev kept)
    case (Cons e es)
    obtain no d where e: "e = (no, d)" by fastforce
    obtain kept1 where k: "sync_loop config held es (WriteBlock config no d dev) = (kept1, dev')"
      using Cons.prems(1) e by (auto split: prod.splits)
    have "ReadBlock config dev' n = (case map_of es n of Some x \<Rightarrow> x | None \<Rightarrow> ReadBlock config (WriteBlock config no d dev) n)"
      using Cons.IH [OF k] Cons.prems by auto
    moreover have "ReadBlock config (WriteBlock config no d dev) n = (if n = no then d else ReadBlock config dev n)"
      using Cons.prems(3) e by (simp add: ReadBlock_eq WriteBlock_eq read_write_at)
    moreover have "map_of es no = None" using Cons.prems(2) e by (simp add: map_of_eq_None_iff)
    ultimately show ?case using e by (auto split: option.splits)
  qed simp
qed

lemma map_of_filter_key: "map_of (filter (\<lambda>(n, d). n \<in> S) es) k = (if k \<in> S then map_of es k else None)"
  by (induction es) auto

lemma sync_spec:
  assumes "cache_ok c"
  shows "cache_ok (Sync c)" and "view (Sync c) = view c" and "ReadBlock (c_config c) (c_dev (Sync c)) n = view c n"
    and "c_config (Sync c) = c_config c" and "c_held (Sync c) = c_held c"
    and "m_cache (Sync c) = filter (\<lambda>(n, d). n \<in> c_held c) (m_cache c)"
proof -
  obtain kept dev where l: "sync_loop (c_config c) (c_held c) (m_cache c) (c_dev c) = (kept, dev)" by fastforce
  have ok: "distinct (map fst (m_cache c))" "\<forall>(n, d) \<in> set (m_cache c). length d = c_bs c"
    using assms by (simp_all add: cache_ok_def)
  note s = sync_loop_spec [OF l ok]
  have S: "Sync c = c\<lparr>m_cache := kept, c_dev := dev\<rparr>" by (simp add: Sync_def l)
  show "c_config (Sync c) = c_config c" "c_held (Sync c) = c_held c"
    "m_cache (Sync c) = filter (\<lambda>(n, d). n \<in> c_held c) (m_cache c)" by (simp_all add: S s(1))
  show "ReadBlock (c_config c) (c_dev (Sync c)) n = view c n" by (simp add: S s(2) view_def)
  show "view (Sync c) = view c"
    by (auto simp: fun_eq_iff S view_def s map_of_filter_key split: option.split)
  have "sorted (map fst kept)" "distinct (map fst kept)"
    using assms by (simp_all add: s(1) cache_ok_def sorted_filter distinct_map_filter)
  moreover have "c_held c \<subseteq> fst ` set kept"
  proof
    fix x assume x: "x \<in> c_held c"
    then obtain d where "(x, d) \<in> set (m_cache c)" using assms by (force simp: cache_ok_def)
    then have "(x, d) \<in> set kept" using x s(1) by simp
    then show "x \<in> fst ` set kept" by force
  qed
  ultimately show "cache_ok (Sync c)" using assms by (auto simp: S s(1) cache_ok_def)
qed


lemma insort_key_facts:
  assumes "no \<notin> fst ` set es"
  shows "map_of (insort_key fst (no, d) es) n = (if n = no then Some d else map_of es n)"
    and "distinct (map fst (insort_key fst (no, d) es)) = distinct (map fst es)"
  using assms
proof (induction es)
  case (Cons e es)
  { case 1
    then show ?case using Cons(1) by (cases e) auto
  next
    case 2
    have "fst ` set (insort_key fst (no, d) es) = insert no (fst ` set es)" by (simp add: set_insort_key)
    then show ?case using 2 Cons(2) by (cases e) auto }
qed auto

lemma get_block_spec:
  assumes ok: "cache_ok c" and get: "GetBlock no c = (block, c')"
  shows "block = view c no" and "view c' = view c" and "cache_ok c'" and "c_config c' = c_config c"
    and "c_held c' = insert no (c_held c)" and "length block = c_bs c"
proof -
  have "block = view c no \<and> view c' = view c \<and> cache_ok c' \<and> c_config c' = c_config c \<and>
      c_held c' = insert no (c_held c) \<and> length block = c_bs c"
  proof (cases "map_of (m_cache c) no")
    case (Some d)
    then have mem: "(no, d) \<in> set (m_cache c)" by (rule map_of_SomeD)
    then have "no \<in> fst ` set (m_cache c)" by force
    moreover have "length d = c_bs c" using mem ok by (auto simp: cache_ok_def)
    moreover have r: "block = d" "c' = c\<lparr>c_held := insert no (c_held c)\<rparr>" using Some get by (simp_all add: GetBlock_def)
    moreover have "view c no = d" using Some by (simp add: view_def)
    ultimately show ?thesis using ok by (simp add: cache_ok_def)
  next
    case None
    define c1 where "c1 = (if ThresholdSize < c_bs c * length (m_cache c) then Sync c else c)"
    have c1: "cache_ok c1" "view c1 = view c" "c_config c1 = c_config c" "c_held c1 = c_held c"
      using sync_spec [OF ok] ok by (simp_all add: c1_def)
    have n1: "no \<notin> fst ` set (m_cache c1)"
      using None sync_spec(6) [OF ok] by (auto simp: c1_def map_of_eq_None_iff image_iff)
    then have m1: "map_of (m_cache c1) no = None" by (simp add: map_of_eq_None_iff)
    let ?d = "ReadBlock (c_config c1) (c_dev c1) no"
    have r: "block = ?d" "c' = c1\<lparr>m_cache := insort_key fst (no, ?d) (m_cache c1), c_held := insert no (c_held c1)\<rparr>"
      using get unfolding GetBlock_def Let_def None option.case c1_def [symmetric] by auto
    have v: "view c1 no = ?d" using m1 by (simp add: view_def)
    have "view c' n = view c1 n" for n
      using v by (auto simp: r(2) view_cached insort_key_facts [OF n1]) (simp add: view_def)
    then have "view c' = view c1" by blast
    moreover have "length ?d = c_bs c" by (simp add: ReadBlock_eq c1(3))
    moreover have "cache_ok c'"
      using c1(1) insort_key_facts(2) [OF n1] by (auto simp: r(2) cache_ok_def set_insort_key sorted_insort_key ReadBlock_eq)
    ultimately show ?thesis using r v c1 by simp
  qed
  then show "block = view c no" "view c' = view c" "cache_ok c'" "c_config c' = c_config c"
    "c_held c' = insert no (c_held c)" "length block = c_bs c" by blast+
qed

lemma map_of_map_update: "map_of (map (\<lambda>(n, d). (n, if n = no then b else d)) es) k =
    (if k = no then map_option (\<lambda>_. b) (map_of es k) else map_of es k)"
  by (induction es) auto

lemma put_data_spec:
  assumes "cache_ok c" and "no \<in> c_held c" and "length block = c_bs c"
  shows "view (PutData no block c) = (view c)(no := block)" and "cache_ok (PutData no block c)"
    and "c_config (PutData no block c) = c_config c" and "c_held (PutData no block c) = c_held c"
proof -
  have "no \<in> fst ` set (m_cache c)" using assms(1,2) by (auto simp: cache_ok_def)
  then have "map_of (m_cache c) no \<noteq> None" by (simp add: map_of_eq_None_iff)
  then show "view (PutData no block c) = (view c)(no := block)"
    by (auto simp: fun_eq_iff PutData_def view_cached map_of_map_update) (simp add: view_def)
  have "fst \<circ> (\<lambda>(n, d). (n, if n = no then block else d)) = fst" by auto
  then show "cache_ok (PutData no block c)"
    using assms by (auto simp: cache_ok_def PutData_def image_image split_beta)
qed (simp_all add: PutData_def)

lemma release_spec:
  assumes "cache_ok c"
  shows "view (Release no c) = view c" and "cache_ok (Release no c)" and "c_config (Release no c) = c_config c"
    and "c_held (Release no c) = c_held c - {no}"
  using assms by (auto simp: Release_def cache_ok_def)


subsection \<open>The contract of a block store\<close>

text \<open>
  What the formatter relies on: blocks are an array of data of the block size; getting a block returns its data and leaves the array
  alone, putting data changes that block only, and when the store goes away the device holds the array.
\<close>

locale block_store =
  fixes ok :: "'s \<Rightarrow> bool" and blocks :: "'s \<Rightarrow> nat \<Rightarrow> bytes" and held :: "'s \<Rightarrow> nat set" and bsize :: "'s \<Rightarrow> nat"
    and get :: "nat \<Rightarrow> 's \<Rightarrow> bytes \<times> 's" and put :: "nat \<Rightarrow> bytes \<Rightarrow> 's \<Rightarrow> 's" and drop_ref :: "nat \<Rightarrow> 's \<Rightarrow> 's"
    and flush :: "'s \<Rightarrow> bytes"
  assumes get_law: "ok s \<Longrightarrow> get n s = (d, s') \<Longrightarrow>
      d = blocks s n \<and> length d = bsize s \<and> blocks s' = blocks s \<and> ok s' \<and> bsize s' = bsize s \<and> held s' = insert n (held s)"
    and put_law: "ok s \<Longrightarrow> n \<in> held s \<Longrightarrow> length d = bsize s \<Longrightarrow>
      blocks (put n d s) = (blocks s)(n := d) \<and> ok (put n d s) \<and> bsize (put n d s) = bsize s \<and> held (put n d s) = held s"
    and drop_law: "ok s \<Longrightarrow> blocks (drop_ref n s) = blocks s \<and> ok (drop_ref n s) \<and> bsize (drop_ref n s) = bsize s \<and>
      held (drop_ref n s) = held s - {n}"
    and flush_law: "ok s \<Longrightarrow> read_at (flush s) (n * bsize s) (bsize s) = blocks s n"
begin

text \<open>Reading, changing and writing one block, and what a later flush leaves on the device.\<close>

lemma update_block:
  assumes "ok s" and "get n s = (d, s1)" and "length (f d) = bsize s"
  shows "blocks (put n (f d) s1) = (blocks s)(n := f (blocks s n))" and "ok (put n (f d) s1)"
    and "bsize (put n (f d) s1) = bsize s" and "held (put n (f d) s1) = insert n (held s)"
  using get_law [OF assms(1,2)] put_law [of s1 n "f d"] assms(3) by auto

lemma update_flush:
  assumes "ok s" and "get n s = (d, s1)" and "length (f d) = bsize s"
  shows "read_at (flush (put n (f d) s1)) (m * bsize s) (bsize s) = (if m = n then f (blocks s n) else blocks s m)"
  using update_block [where f = f, OF assms] flush_law [of "put n (f d) s1" m] by simp

end

interpretation mkfs_store: block_store cache_ok view c_held c_bs GetBlock PutData Release DestroyCache
proof (unfold_locales, goal_cases)
  case (1 s n d s')
  then show ?case using get_block_spec [OF 1] by simp
next
  case (2 s n d)
  then show ?case using put_data_spec [OF 2] by simp
next
  case (3 s n)
  then show ?case using release_spec [OF 3] by simp
next
  case (4 s n)
  then show ?case using sync_spec(3) [OF 4, of n] by (simp add: DestroyCache_def ReadBlock_eq)
qed

lemma fresh_cache_ok: "cache_ok (BlocksCache config dev)" "view (BlocksCache config dev) n = ReadBlock config dev n"
  by (simp_all add: BlocksCache_def cache_ok_def view_def)

subsection \<open>Properties\<close>

text \<open>
  C38: the block cache refines an array of blocks. Getting a block returns the data of the array, also when the cache is full and
  writes blocks back before; changing a block changes that block of the array only; and when the cache is destroyed the device holds
  exactly the blocks of the array.
\<close>

theorem blocks_cache_refines_array:
  assumes "cache_ok c" and "GetBlock no c = (block, c1)" and "length (f block) = c_bs c"
  shows "block = view c no \<and> view c1 = view c \<and> cache_ok c1 \<and>
    view (PutData no (f block) c1) = (view c)(no := f (view c no)) \<and> cache_ok (PutData no (f block) c1) \<and>
    (\<forall>n. ReadBlock (c_config c) (DestroyCache (PutData no (f block) c1)) n = (if n = no then f (view c no) else view c n))"
  using mkfs_store.get_law [OF assms(1,2)] mkfs_store.update_block [where f = f, OF assms]
    mkfs_store.update_flush [where f = f, OF assms]
  by (simp add: ReadBlock_eq)

theorem blocks_cache_refines_array_witness:
  "ReadBlock demo_config (DestroyCache (PutData 2 (replicate 4096 7) (snd (GetBlock 2 (BlocksCache demo_config []))))) 2 =
     replicate 4096 7"
proof -
  obtain b c1 where g: "GetBlock 2 (BlocksCache demo_config []) = (b, c1)" by fastforce
  have "unat (BlockSize demo_config) = 4096" by (simp add: BlockSize_def demo_config_def)
  then have "length (replicate 4096 (7 :: u8)) = c_bs (BlocksCache demo_config [])" by (simp add: BlocksCache_def)
  from blocks_cache_refines_array [OF fresh_cache_ok(1) g, of "\<lambda>_. replicate 4096 7", OF this] g show ?thesis
    by (simp add: BlocksCache_def)
qed

end
