(* ===== verification/Mkfs_Format.thy ===== *)
theory Mkfs_Format
  imports Mkfs_Bits Mkfs_Cache
begin

text \<open>
  \<^verbatim>\<open>user/format.cpp\<close>: writing the super block, the two bitmaps, the root inode and the root directory through the block cache. A pointer
  to a block is the number of the block; \<open>view\<close> is the data behind it. The structures of \<^verbatim>\<open>user/aufs.hpp\<close> are offsets into the data of a
  block; the host is little-endian, so \<^verbatim>\<open>htonl\<close> and \<^verbatim>\<open>__cpu_to_be32\<close> store the bytes in big-endian order.
\<close>

subsection \<open>Structures on disk\<close>

text \<open>
  The structures of \<^verbatim>\<open>user/aufs.hpp\<close> by their members and the sizes of these; no member needs padding. The accessors
  give the offsets.
\<close>

definition aufs_super_block_members :: "(string \<times> nat) list" where
  "aufs_super_block_members =
     [(''asb_magic'', 4), (''asb_zone_size'', 4), (''asb_root_inode'', 4), (''asb_inode_blocks'', 4),
      (''asb_inode_map_blocks'', 4), (''asb_zone_map_blocks'', 4), (''asb_alignment_num_blocks'', 4)]"

definition aufs_inode_members :: "(string \<times> nat) list" where
  "aufs_inode_members =
     [(''ai_zone_ptr'', 9 * 4), (''ai_blocks'', 4), (''ai_size'', 4), (''ai_gid'', 4), (''ai_uid'', 4), (''ai_mode'', 4),
      (''ai_ctime'', 8)]"

definition aufs_disk_dir_entry_members :: "(string \<times> nat) list" where
  "aufs_disk_dir_entry_members = [(''dde_inode'', 4), (''dde_name'', 64 - 4)]"

primrec offset_of :: "string \<Rightarrow> (string \<times> nat) list \<Rightarrow> nat" where
  "offset_of name [] = 0"
| "offset_of name (m # ms) = (if fst m = name then 0 else snd m + offset_of name ms)"

definition struct_size :: "(string \<times> nat) list \<Rightarrow> nat" where "struct_size ms = sum_list (map snd ms)"

definition ASB_MAGIC :: nat where [layout_defs]: "ASB_MAGIC = 0"
definition ASB_ZONE_SIZE :: nat where [layout_defs]: "ASB_ZONE_SIZE = 4"
definition ASB_ROOT_INODE :: nat where [layout_defs]: "ASB_ROOT_INODE = 8"
definition ASB_INODE_BLOCKS :: nat where [layout_defs]: "ASB_INODE_BLOCKS = 12"
definition ASB_INODE_MAP_BLOCKS :: nat where [layout_defs]: "ASB_INODE_MAP_BLOCKS = 16"
definition ASB_BLOCK_MAP_BLOCKS :: nat where [layout_defs]: "ASB_BLOCK_MAP_BLOCKS = 20"
definition ASB_ALIGNMENT_NUM_BLOCKS :: nat where [layout_defs]: "ASB_ALIGNMENT_NUM_BLOCKS = 24"

definition AI_ZONE_PTR :: "nat \<Rightarrow> nat" where [layout_defs]: "AI_ZONE_PTR i = 4 * i"
definition AI_ZONE_PTR_FIRST :: nat where [layout_defs]: "AI_ZONE_PTR_FIRST = 0"
definition AI_BLOCKS :: nat where [layout_defs]: "AI_BLOCKS = 36"
definition AI_SIZE :: nat where [layout_defs]: "AI_SIZE = 40"
definition AI_GID :: nat where [layout_defs]: "AI_GID = 44"
definition AI_UID :: nat where [layout_defs]: "AI_UID = 48"
definition AI_MODE :: nat where [layout_defs]: "AI_MODE = 52"
definition AI_CTIME :: nat where [layout_defs]: "AI_CTIME = 56"

definition ADE_INODE :: nat where [layout_defs]: "ADE_INODE = 0"
definition ADE_NAME :: nat where [layout_defs]: "ADE_NAME = 4"

abbreviation sizeof_inode :: nat where "sizeof_inode \<equiv> 64"
abbreviation sizeof_dir_entry :: nat where "sizeof_dir_entry \<equiv> 64"

text \<open>The offsets are those of the members.\<close>

lemma super_block_layout:
  "ASB_MAGIC = offset_of ''asb_magic'' aufs_super_block_members"
  "ASB_ZONE_SIZE = offset_of ''asb_zone_size'' aufs_super_block_members"
  "ASB_ROOT_INODE = offset_of ''asb_root_inode'' aufs_super_block_members"
  "ASB_INODE_BLOCKS = offset_of ''asb_inode_blocks'' aufs_super_block_members"
  "ASB_INODE_MAP_BLOCKS = offset_of ''asb_inode_map_blocks'' aufs_super_block_members"
  "ASB_BLOCK_MAP_BLOCKS = offset_of ''asb_zone_map_blocks'' aufs_super_block_members"
  "ASB_ALIGNMENT_NUM_BLOCKS = offset_of ''asb_alignment_num_blocks'' aufs_super_block_members"
  "struct_size aufs_super_block_members = 28"
  by (simp_all add: layout_defs aufs_super_block_members_def struct_size_def)

lemma inode_layout:
  "AI_ZONE_PTR 0 = offset_of ''ai_zone_ptr'' aufs_inode_members" "AI_ZONE_PTR 9 = AI_BLOCKS"
  "AI_ZONE_PTR_FIRST = AI_ZONE_PTR 0" "AI_BLOCKS = offset_of ''ai_blocks'' aufs_inode_members"
  "AI_SIZE = offset_of ''ai_size'' aufs_inode_members" "AI_GID = offset_of ''ai_gid'' aufs_inode_members"
  "AI_UID = offset_of ''ai_uid'' aufs_inode_members" "AI_MODE = offset_of ''ai_mode'' aufs_inode_members"
  "AI_CTIME = offset_of ''ai_ctime'' aufs_inode_members" "struct_size aufs_inode_members = sizeof_inode"
  by (simp_all add: layout_defs aufs_inode_members_def struct_size_def)

lemma dir_entry_layout:
  "ADE_INODE = offset_of ''dde_inode'' aufs_disk_dir_entry_members"
  "ADE_NAME = offset_of ''dde_name'' aufs_disk_dir_entry_members"
  "struct_size aufs_disk_dir_entry_members = sizeof_dir_entry"
  by (simp_all add: layout_defs aufs_disk_dir_entry_members_def struct_size_def)

text \<open>Stores into the data of a block the caller holds.\<close>

definition store :: "nat \<Rightarrow> nat \<Rightarrow> bytes \<Rightarrow> blocks_cache \<Rightarrow> blocks_cache" where
  "store no off src c = PutData no (blit off src (view c no)) c"

subsection \<open>Inodes\<close>

record inode_obj =
  m_inode :: u32
  m_block :: nat
  m_raw :: nat

definition InodeNo :: "inode_obj \<Rightarrow> u32" where "InodeNo i = m_inode i"

definition FirstBlock :: "inode_obj \<Rightarrow> blocks_cache \<Rightarrow> u32" where
  "FirstBlock i c = be32_at (view c (m_block i)) (m_raw i + AI_ZONE_PTR_FIRST)"

definition SetFirstBlock :: "u32 \<Rightarrow> inode_obj \<Rightarrow> blocks_cache \<Rightarrow> blocks_cache" where
  "SetFirstBlock block i c = store (m_block i) (m_raw i + AI_ZONE_PTR_FIRST) (be32_enc block) c"

definition ClearAllOtherZones :: "inode_obj \<Rightarrow> blocks_cache \<Rightarrow> blocks_cache" where
  "ClearAllOtherZones i c = fold (\<lambda>idx. store (m_block i) (m_raw i + AI_ZONE_PTR idx) (be32_enc 0)) [1..<9] c"

definition BlocksCount :: "inode_obj \<Rightarrow> blocks_cache \<Rightarrow> u32" where
  "BlocksCount i c = be32_at (view c (m_block i)) (m_raw i + AI_BLOCKS)"

definition SetBlocksCount :: "u32 \<Rightarrow> inode_obj \<Rightarrow> blocks_cache \<Rightarrow> blocks_cache" where
  "SetBlocksCount count i c = store (m_block i) (m_raw i + AI_BLOCKS) (be32_enc count) c"

definition Size :: "inode_obj \<Rightarrow> blocks_cache \<Rightarrow> u32" where
  "Size i c = be32_at (view c (m_block i)) (m_raw i + AI_SIZE)"

definition SetSize :: "u32 \<Rightarrow> inode_obj \<Rightarrow> blocks_cache \<Rightarrow> blocks_cache" where
  "SetSize sz i c = store (m_block i) (m_raw i + AI_SIZE) (be32_enc sz) c"

definition Gid :: "inode_obj \<Rightarrow> blocks_cache \<Rightarrow> u32" where
  "Gid i c = be32_at (view c (m_block i)) (m_raw i + AI_GID)"

definition SetGid :: "u32 \<Rightarrow> inode_obj \<Rightarrow> blocks_cache \<Rightarrow> blocks_cache" where
  "SetGid gid i c = store (m_block i) (m_raw i + AI_GID) (be32_enc gid) c"

definition Uid :: "inode_obj \<Rightarrow> blocks_cache \<Rightarrow> u32" where
  "Uid i c = be32_at (view c (m_block i)) (m_raw i + AI_UID)"

definition SetUid :: "u32 \<Rightarrow> inode_obj \<Rightarrow> blocks_cache \<Rightarrow> blocks_cache" where
  "SetUid uid i c = store (m_block i) (m_raw i + AI_UID) (be32_enc uid) c"

definition Mode :: "inode_obj \<Rightarrow> blocks_cache \<Rightarrow> u32" where
  "Mode i c = be32_at (view c (m_block i)) (m_raw i + AI_MODE)"

definition SetMode :: "u32 \<Rightarrow> inode_obj \<Rightarrow> blocks_cache \<Rightarrow> blocks_cache" where
  "SetMode mode i c = store (m_block i) (m_raw i + AI_MODE) (be32_enc mode) c"

definition CreateTime :: "inode_obj \<Rightarrow> blocks_cache \<Rightarrow> u64" where
  "CreateTime i c = be64_at (view c (m_block i)) (m_raw i + AI_CTIME)"

definition SetCreateTime :: "u64 \<Rightarrow> inode_obj \<Rightarrow> blocks_cache \<Rightarrow> blocks_cache" where
  "SetCreateTime ctime i c = store (m_block i) (m_raw i + AI_CTIME) (be64_enc ctime) c"

text \<open>The constructor: \<^verbatim>\<open>FillInode\<close> finds the record; \<open>now\<close> is the result of \<^verbatim>\<open>time(NULL)\<close>.\<close>

definition FillInode :: "u64 \<Rightarrow> u32 \<Rightarrow> blocks_cache \<Rightarrow> (inode_obj \<times> blocks_cache) cres" where
  "FillInode now no c =
     (let config = Config c;
          in_block = unat (BlockSize config) div sizeof_inode
      in if in_block = 0 then Fault DivByZero
         else
           let block = unat no div in_block + 1 + unat (NumInodeMapBlocks config) + unat (NumZoneMapBlocks config);
               offset = unat no mod in_block * sizeof_inode;
               i = \<lparr>m_inode = no, m_block = block, m_raw = offset\<rparr>;
               c1 = snd (GetBlock block c)
           in Ret (i, SetCreateTime now i c1))"

subsection \<open>The super block and the bitmaps\<close>

text \<open>
  The calls of \<^verbatim>\<open>std::fill\<close> of \<^verbatim>\<open>FillZoneMap\<close> and \<^verbatim>\<open>FillInodeMap\<close> on the data of the first map block: bit 0 is set, the bits up to \<open>n\<close> are
  cleared, the bits up to \<open>nbits\<close> are set.
\<close>

definition fill_map :: "u64 \<Rightarrow> u64 \<Rightarrow> bytes \<Rightarrow> bytes cres" where
  "fill_map n nbits d =
     (let it = bit_it 0 0
      in case std_fill d it (it_plus it 1) True of
           Inl f \<Rightarrow> Fault f
         | Inr d1 \<Rightarrow>
             (case std_fill d1 (it_plus it 1) (it_plus it n) False of
                Inl f \<Rightarrow> Fault f
              | Inr d2 \<Rightarrow> std_fill d2 (it_plus it n) (it_plus it nbits) True))"

definition FillZoneMap :: "blocks_cache \<Rightarrow> blocks_cache cres" where
  "FillZoneMap c =
     (let config = Config c;
          bits = NumZoneMapBlocks config * BlockSize config * 8;
          blocks = min (NumZones config) bits
      in case fill_map (ucast blocks) (ucast bits) (view c 1) of
           Inl f \<Rightarrow> Fault f
         | Inr d \<Rightarrow> Ret (PutData 1 d c))"

definition inode_map_no :: "blocks_cache \<Rightarrow> nat" where
  "inode_map_no c = 1 + unat (NumZoneMapBlocks (Config c))"

definition FillInodeMap :: "blocks_cache \<Rightarrow> blocks_cache cres" where
  "FillInodeMap c =
     (let config = Config c;
          in_block = BlockSize config div 64;
          inode_blocks = NumInodeEntryBlocks config;
          bits = NumInodeMapBlocks config * BlockSize config * 8;
          num_inodes = min (inode_blocks * in_block) bits
      in case fill_map (ucast num_inodes) (ucast bits) (view c (inode_map_no c)) of
           Inl f \<Rightarrow> Fault f
         | Inr d \<Rightarrow> Ret (PutData (inode_map_no c) d c))"

text \<open>\<^verbatim>\<open>FillSuper\<close>; the number of zone map blocks it stores is that of the inode map.\<close>

definition FillSuper :: "blocks_cache \<Rightarrow> blocks_cache cres" where
  "FillSuper c =
     (let config = Config c
      in if length (view c 0) < 28 then Fault OutOfBounds
         else Ret
           (store 0 ASB_ALIGNMENT_NUM_BLOCKS (be32_enc (NumBlockAlignment config))
           (store 0 ASB_BLOCK_MAP_BLOCKS (be32_enc (NumInodeMapBlocks config))
           (store 0 ASB_INODE_MAP_BLOCKS (be32_enc (NumInodeMapBlocks config))
           (store 0 ASB_INODE_BLOCKS (be32_enc (NumInodeEntryBlocks config))
           (store 0 ASB_ROOT_INODE (be32_enc (- 1))
           (store 0 ASB_ZONE_SIZE (be32_enc (ZoneSize config))
           (store 0 ASB_MAGIC (be32_enc 0x13131313) c))))))))"

text \<open>The constructor of \<^verbatim>\<open>SuperBlock\<close>; its three pointers keep their blocks in the cache.\<close>

definition SuperBlock :: "blocks_cache \<Rightarrow> blocks_cache cres" where
  "SuperBlock c =
     (let c1 = snd (GetBlock (inode_map_no c) (snd (GetBlock 1 (snd (GetBlock 0 c)))))
      in case FillZoneMap c1 of
           Inl f \<Rightarrow> Fault f
         | Inr c2 \<Rightarrow> (case FillInodeMap c2 of Inl f \<Rightarrow> Fault f | Inr c3 \<Rightarrow> FillSuper c3))"

text \<open>
  \<^verbatim>\<open>AllocateInode\<close> and \<^verbatim>\<open>AllocateZones\<close>. The end iterator is eight times as far from the start as the map is long. Both functions are
  \<^verbatim>\<open>noexcept\<close>, so an exception ends the program.
\<close>

definition AllocateInode :: "blocks_cache \<Rightarrow> (u32 \<times> blocks_cache) cres" where
  "AllocateInode c =
     (let d = view c (inode_map_no c);
          e = bit_it (int (unat (NumInodeMapBlocks (Config c)) * unat (BlockSize (Config c)) * 8)) 0;
          b = bit_it 0 0
      in case std_find d b e False of
           Inl f \<Rightarrow> Fault f
         | Inr it \<Rightarrow>
             if it_ne it e then
               (case ref_assign d (it_deref it) True of
                  Inl f \<Rightarrow> Fault f
                | Inr d1 \<Rightarrow> Ret (ucast (it_diff it b), PutData (inode_map_no c) d1 c))
             else Fault Terminate)"

partial_function (option) alloc_zones_loop ::
    "bytes \<Rightarrow> bit_iterator \<Rightarrow> bit_iterator \<Rightarrow> u64 \<Rightarrow> bit_iterator \<Rightarrow> (u32 \<times> bytes) cres option" where
  "alloc_zones_loop d b e zones it =
     (if it_ne it e then
        (case std_find d it e True of
           Inl f \<Rightarrow> Some (Fault f)
         | Inr jt \<Rightarrow>
             if zones \<le> it_diff jt it then
               Some (case std_fill d it (it_plus it zones) True of
                       Inl f \<Rightarrow> Fault f
                     | Inr d' \<Rightarrow> Ret (ucast (it_diff it b), d'))
             else alloc_zones_loop d b e zones jt)
      else Some (Fault Terminate))"

text \<open>\<open>None\<close>: the loop does not end.\<close>

definition AllocateZones :: "u64 \<Rightarrow> blocks_cache \<Rightarrow> (u32 \<times> blocks_cache) cres option" where
  "AllocateZones zones c =
     (let d = view c 1;
          e = bit_it (int (unat (NumZoneMapBlocks (Config c)) * unat (BlockSize (Config c)) * 8)) 0;
          b = bit_it 0 0
      in case std_find d b e False of
           Inl f \<Rightarrow> Some (Fault f)
         | Inr it \<Rightarrow>
             (case alloc_zones_loop d b e zones it of
                None \<Rightarrow> None
              | Some (Inl f) \<Rightarrow> Some (Fault f)
              | Some (Inr (z, d')) \<Rightarrow> Some (Ret (z, PutData 1 d' c))))"

definition SetRootInode :: "u32 \<Rightarrow> blocks_cache \<Rightarrow> blocks_cache" where
  "SetRootInode root c = store 0 ASB_ROOT_INODE (be32_enc root) c"

subsection \<open>The root directory\<close>

text \<open>What the environment supplies: the two results of \<^verbatim>\<open>time(NULL)\<close>, \<^verbatim>\<open>getuid\<close> and \<^verbatim>\<open>getgid\<close>.\<close>

record mkfs_env =
  e_time1 :: u64
  e_time2 :: u64
  e_uid :: u32
  e_gid :: u32

text \<open>An entry of the array \<^verbatim>\<open>raw_parent_dirs\<close>: the number and the zero-terminated name.\<close>

definition put_entry :: "nat \<Rightarrow> nat \<Rightarrow> u32 \<Rightarrow> bytes \<Rightarrow> blocks_cache \<Rightarrow> blocks_cache" where
  "put_entry no k ino name c =
     store no (k * sizeof_dir_entry + 4) (name @ [0]) (store no (k * sizeof_dir_entry) (be32_enc ino) c)"

definition root_block :: "configuration \<Rightarrow> u32 cres" where
  "root_block config =
     (if BlockSize config = 0 then Fault DivByZero
      else
        case CalculateAlignedNumBlocks config
               (NumInodeMapBlocks config + NumInodeEntryBlocks config + NumZoneMapBlocks config + 1) of
          Inl f \<Rightarrow> Fault f
        | Inr n \<Rightarrow> Ret (1 * (ZoneSize config div BlockSize config) + n))"

definition fill_root_inode :: "mkfs_env \<Rightarrow> u32 \<Rightarrow> u32 \<Rightarrow> inode_obj \<Rightarrow> blocks_cache \<Rightarrow> blocks_cache" where
  "fill_root_inode env block num_blocks i c =
     SetCreateTime (e_time2 env) i (SetMode (0x4000 + 0x1ED) i (SetGid (e_gid env) i (SetUid (e_uid env) i
       (SetSize 128 i (SetBlocksCount num_blocks i (ClearAllOtherZones i (SetFirstBlock block i c)))))))"

definition fill_root_block :: "nat \<Rightarrow> blocks_cache \<Rightarrow> blocks_cache cres" where
  "fill_root_block block c =
     (let c1 = snd (GetBlock block c)
      in if unat (BlockSize (Config c)) < 2 * sizeof_dir_entry + 15 then Fault OutOfBounds
         else Ret (put_entry block 2 2 [46, 98, 97, 100, 98, 108, 111, 99, 107, 115]
                (put_entry block 1 1 [46, 46] (put_entry block 0 1 [46] c1))))"

text \<open>
  \<^verbatim>\<open>MkRootDir\<close>: the allocations are inside assertions, which are compiled in; a failed one aborts. The pointer to the content of the
  root directory is dropped at the end.
\<close>

definition MkRootDir :: "mkfs_env \<Rightarrow> blocks_cache \<Rightarrow> (inode_obj \<times> blocks_cache) cres option" where
  "MkRootDir env c =
     (let config = Config c;
          bytes = 2 * 64 :: u32
      in if ZoneSize config = 0 then Some (Fault DivByZero)
         else
           let num_blocks = (bytes + ZoneSize config - 1) div ZoneSize config
           in case AllocateInode c of
                Inl f \<Rightarrow> Some (Fault f)
              | Inr (n, c1) \<Rightarrow>
                  if n \<noteq> 1 then Some (Fault BugOn)
                  else
                    case FillInode (e_time1 env) 1 c1 of
                      Inl f \<Rightarrow> Some (Fault f)
                    | Inr (inode, c2) \<Rightarrow>
                        case AllocateZones (ucast num_blocks) c2 of
                          None \<Rightarrow> None
                        | Some (Inl f) \<Rightarrow> Some (Fault f)
                        | Some (Inr (z, c3)) \<Rightarrow>
                            if z \<noteq> 1 then Some (Fault BugOn)
                            else
                              case root_block config of
                                Inl f \<Rightarrow> Some (Fault f)
                              | Inr block \<Rightarrow>
                                  let c4 = fill_root_inode env block num_blocks inode c3
                                  in case fill_root_block (unat block) c4 of
                                       Inl f \<Rightarrow> Some (Fault f)
                                     | Inr c5 \<Rightarrow> Some (Ret (inode, Release (unat block) c5)))"

text \<open>Class \<^verbatim>\<open>Formatter\<close>: its constructor builds the cache and the super block object over it.\<close>

definition Formatter :: "configuration \<Rightarrow> bytes \<Rightarrow> blocks_cache cres" where
  "Formatter config dev = SuperBlock (BlocksCache config dev)"

definition Formatter_SetRootInode :: "inode_obj \<Rightarrow> blocks_cache \<Rightarrow> blocks_cache" where
  "Formatter_SetRootInode inode c = SetRootInode (InodeNo inode) c"

text \<open>The formatter as \<^verbatim>\<open>main\<close> runs it: construct, make the root directory, set the root inode, write everything back.\<close>

definition format_device :: "mkfs_env \<Rightarrow> configuration \<Rightarrow> bytes \<Rightarrow> bytes cres option" where
  "format_device env config dev =
     (case Formatter config dev of
        Inl f \<Rightarrow> Some (Fault f)
      | Inr c \<Rightarrow>
          (case MkRootDir env c of
             None \<Rightarrow> None
           | Some (Inl f) \<Rightarrow> Some (Fault f)
           | Some (Inr (inode, c1)) \<Rightarrow>
               Some (Ret (DestroyCache (Release (m_block inode) (Formatter_SetRootInode inode c1))))))"

text \<open>\<^verbatim>\<open>DeviceSize\<close>: the length of the device file, whatever its name.\<close>

definition DeviceSize :: "bytes \<Rightarrow> string \<Rightarrow> u64" where
  "DeviceSize dev = (\<lambda>device. of_nat (length dev))"

text \<open>\<^verbatim>\<open>main\<close>: the exit code and the device. An exception is reported and gives 1.\<close>

definition mkfs_main :: "mkfs_env \<Rightarrow> string list \<Rightarrow> bytes \<Rightarrow> (int \<times> bytes) cres option" where
  "mkfs_main env args dev =
     (case ParseArgs (DeviceSize dev) args of
        Inl (Crash f) \<Rightarrow> Some (Fault f)
      | Inl e \<Rightarrow> Some (Ret (1, dev))
      | Inr config \<Rightarrow>
          (case format_device env config dev of
             None \<Rightarrow> None
           | Some (Inl f) \<Rightarrow> Some (Fault f)
           | Some (Inr dev') \<Rightarrow> Some (Ret (0, dev'))))"


subsection \<open>Steps on the array of blocks\<close>

text \<open>
  The state during formatting: the cache is well formed, the three pointers of the super block object are held, and the blocks have the
  size of the configuration.
\<close>

definition fm_ok :: "configuration \<Rightarrow> nat set \<Rightarrow> blocks_cache \<Rightarrow> bool" where
  "fm_ok config H c \<longleftrightarrow> cache_ok c \<and> c_config c = config \<and> H \<subseteq> c_held c"

lemmas get_snd = get_block_spec [OF _ prod.collapse [symmetric]]

lemma view_length: "cache_ok c \<Longrightarrow> length (view c n) = c_bs c"
  using get_snd(1,6) [of c n] by simp

lemma get_fm:
  assumes "fm_ok config H c"
  shows "fm_ok config (insert n H) (snd (GetBlock n c))" and "view (snd (GetBlock n c)) = view c"
  using assms get_snd(2-5) [of c n] by (auto simp: fm_ok_def)

lemma fm_ok_mono: "fm_ok config H c \<Longrightarrow> H' \<subseteq> H \<Longrightarrow> fm_ok config H' c"
  by (auto simp: fm_ok_def)

lemma put_fm:
  assumes "fm_ok config H c" and "n \<in> H" and "length d = unat (BlockSize config)"
  shows "fm_ok config H (PutData n d c)" and "view (PutData n d c) = (view c)(n := d)"
  using assms put_data_spec [of c n d] by (auto simp: fm_ok_def)

lemma store_fm:
  assumes "fm_ok config H c" and "n \<in> H" and "off + length src \<le> unat (BlockSize config)"
  shows "fm_ok config H (store n off src c)" and "view (store n off src c) = (view c)(n := blit off src (view c n))"
proof -
  have "length (blit off src (view c n)) = unat (BlockSize config)"
    using assms view_length [of c n] by (simp add: fm_ok_def)
  from put_fm [OF assms(1,2) this] show "fm_ok config H (store n off src c)"
    "view (store n off src c) = (view c)(n := blit off src (view c n))" by (simp_all add: store_def)
qed

text \<open>A list of stores into one block.\<close>

definition stores :: "nat \<Rightarrow> (nat \<times> bytes) list \<Rightarrow> blocks_cache \<Rightarrow> blocks_cache" where
  "stores n l c = fold (\<lambda>(off, src). store n off src) l c"

definition blits :: "(nat \<times> bytes) list \<Rightarrow> bytes \<Rightarrow> bytes" where
  "blits l d = fold (\<lambda>(off, src). blit off src) l d"

lemma stores_fm:
  assumes "fm_ok config H c" and "n \<in> H" and "\<forall>(off, src) \<in> set l. off + length src \<le> unat (BlockSize config)"
  shows "fm_ok config H (stores n l c) \<and> view (stores n l c) = (view c)(n := blits l (view c n))"
  using assms
proof (induction l arbitrary: c)
  case (Cons e l)
  obtain off src where e: "e = (off, src)" by fastforce
  note s = store_fm [OF Cons.prems(1,2), of off src]
  have "off + length src \<le> unat (BlockSize config)" using Cons.prems(3) e by simp
  with s Cons.IH [of "store n off src c"] Cons.prems e show ?case
    by (simp add: stores_def blits_def fun_upd_def cong: if_cong)
qed (simp add: stores_def blits_def fun_upd_idem)

lemma length_blits: "\<forall>(off, src) \<in> set l. off + length src \<le> length d \<Longrightarrow> length (blits l d) = length d"
proof (induction l arbitrary: d)
  case (Cons e l)
  then show ?case by (cases e) (auto simp: blits_def)
qed (simp add: blits_def)

lemma blits_simps [simp]: "blits [] d = d" "blits ((off, src) # l) d = blits l (blit off src d)"
  by (simp_all add: blits_def)

lemma fill_map_spec:
  assumes "1 \<le> n" and "n \<le> 8 * length d" and "8 * length d < 4294967296"
  shows "\<exists>d'. fill_map (of_nat n) (of_nat (8 * length d)) d = Ret d' \<and> length d' = length d \<and>
    (\<forall>k < 8 * length d. le_test_bit d' k \<longleftrightarrow> k = 0 \<or> n \<le> k)"
proof -
  have at: "bit_it 0 0 = it_at 0" by (simp add: it_at_def)
  have plus: "it_plus (it_at 0) (of_nat m) = it_at m" if "m \<le> 8 * length d" for m
    using that assms(3) advance_at [of m 0] by (simp add: it_plus_def it_plus_assign_def)
  have one: "it_plus (it_at 0) 1 = it_at 1" using plus [of 1] assms by simp
  obtain d1 where d1: "std_fill d (it_at 0) (it_at 1) True = Ret d1" "length d1 = length d"
    "\<forall>k < 8 * length d. le_test_bit d1 k = (if 0 \<le> k \<and> k < 1 then True else le_test_bit d k)"
    using std_fill_at [of 0 1 d True] assms by auto
  obtain d2 where d2: "std_fill d1 (it_at 1) (it_at n) False = Ret d2" "length d2 = length d"
    "\<forall>k < 8 * length d. le_test_bit d2 k = (if 1 \<le> k \<and> k < n then False else le_test_bit d1 k)"
    using std_fill_at [of 1 n d1 False] assms d1(2) by auto
  obtain d3 where d3: "std_fill d2 (it_at n) (it_at (8 * length d)) True = Ret d3" "length d3 = length d"
    "\<forall>k < 8 * length d. le_test_bit d3 k = (if n \<le> k \<and> k < 8 * length d then True else le_test_bit d2 k)"
    using std_fill_at [of n "8 * length d" d2 True] assms d2(2) by auto
  have "fill_map (of_nat n) (of_nat (8 * length d)) d = Ret d3"
    unfolding fill_map_def Let_def at one plus [OF assms(2)] plus [OF order_refl] d1(1) d2(1) sum.case by (rule d3(1))
  moreover have "le_test_bit d3 k \<longleftrightarrow> k = 0 \<or> n \<le> k" if "k < 8 * length d" for k
    using d1(3) d2(3) d3(3) that by auto
  ultimately show ?thesis using d3(2) by blast
qed


subsection \<open>The numbers of a configuration\<close>

text \<open>The number of inodes the inode map offers, the blocks of a zone and the place of the root directory, as numbers.\<close>

definition cfg_inodes :: "configuration \<Rightarrow> nat" where
  "cfg_inodes c = min (unat (NumInodeEntryBlocks c) * (unat (BlockSize c) div 64)) (8 * unat (BlockSize c))"

definition cfg_root :: "configuration \<Rightarrow> nat" where
  "cfg_root c = unat (ZoneSize c) div unat (BlockSize c) + align_up (3 + unat (NumInodeEntryBlocks c)) 1024"

lemma cfg_bounds:
  assumes "cfg_ok c k"
  shows "512 \<le> unat (BlockSize c)" and "unat (BlockSize c) \<le> 4096" and "8 \<le> unat (BlockSize c) div 64"
    and "unat (NumZones c) \<le> unat (NumInodeEntryBlocks c) * (unat (BlockSize c) div 64)"
    and "unat (NumInodeEntryBlocks c) \<le> 4096" and "unat (BlockSize c) dvd unat (ZoneSize c)"
    and "512 \<le> unat (ZoneSize c)" and "unat (BlockSize c) \<le> unat (ZoneSize c)"
    and "0 < unat (ZoneSize c) div unat (BlockSize c)" and "unat (ZoneSize c) div unat (BlockSize c) < 1048576"
    and "4 \<le> cfg_inodes c" and "unat (ZoneSize c) \<le> 2147483648"
proof -
  let ?b = "unat (BlockSize c)" and ?q = "unat (BlockSize c) div 64" and ?e = "unat (NumInodeEntryBlocks c)"
  have k: "9 \<le> k" "k < 32" and zs: "unat (ZoneSize c) = 2 ^ k" and b: "?b = 2 ^ min k 12"
    and nz: "4 \<le> unat (NumZones c)" "unat (NumZones c) \<le> 8 * ?b"
    and e: "?e = (unat (NumZones c) + (?q - 1)) div ?q"
    using assms by (auto simp: cfg_ok_def)
  have "(2 :: nat) ^ 9 \<le> 2 ^ min k 12" "(2 :: nat) ^ min k 12 \<le> 2 ^ 12" using k by (intro power_increasing; simp)+
  then show b1: "512 \<le> ?b" and b2: "?b \<le> 4096" using b by simp_all
  show q: "8 \<le> ?q" using div_le_mono [OF b1, of 64] by simp
  have "unat (NumZones c) + (?q - 1) = ?e * ?q + (unat (NumZones c) + (?q - 1)) mod ?q"
    unfolding e by (rule div_mult_mod_eq [symmetric])
  moreover have "(unat (NumZones c) + (?q - 1)) mod ?q < ?q" using q by simp
  ultimately show le: "unat (NumZones c) \<le> ?e * ?q" by linarith
  have "?b \<le> 64 * ?q + 63" by presburger
  then have "unat (NumZones c) + (?q - 1) < 4097 * ?q" using nz(2) q by linarith
  then have "?e < 4097" unfolding e by (rule less_mult_imp_div_less)
  then show "?e \<le> 4096" by simp
  have split: "(2 :: nat) ^ k = 2 ^ min k 12 * 2 ^ (k - min k 12)" by (simp flip: power_add)
  then show "?b dvd unat (ZoneSize c)" using zs b by simp
  have "(2 :: nat) ^ 9 \<le> 2 ^ k" "(2 :: nat) ^ min k 12 \<le> 2 ^ k" "(2 :: nat) ^ k \<le> 2 ^ 31" using k by (intro power_increasing; simp)+
  then show "512 \<le> unat (ZoneSize c)" and "?b \<le> unat (ZoneSize c)" "unat (ZoneSize c) \<le> 2147483648" using zs b by simp_all
  have d: "unat (ZoneSize c) div ?b = 2 ^ (k - min k 12)" using zs b split by simp
  then show "0 < unat (ZoneSize c) div ?b" by simp
  have "k - min k 12 < 20" using k by (cases "k \<le> 12") (simp_all add: min_def)
  then have "(2 :: nat) ^ (k - min k 12) < 2 ^ 20" by (intro power_strict_increasing) simp_all
  then show "unat (ZoneSize c) div ?b < 1048576" using d by simp
  show "4 \<le> cfg_inodes c" using le nz(1) b1 by (simp add: cfg_inodes_def)
qed


lemma ucast_u32_of_nat: "(ucast (w :: u32) :: u64) = of_nat (unat w)"
  using unat_u32_less [of w] by (simp add: word_unat_eq_iff unat_of_nat_small)

lemma map_bits:
  assumes "cfg_ok config k"
  shows "unat (1 * BlockSize config * 8 :: u32) = 8 * unat (BlockSize config)"
  using cfg_bounds(2) [OF assms] by (simp add: unat_mult_no_wrap)

subsection \<open>The super block\<close>

lemma new_cache:
  shows "fm_ok config {} (BlocksCache config dev)" and "view (BlocksCache config dev) = ReadBlock config dev"
  by (simp_all add: fm_ok_def BlocksCache_def cache_ok_def view_def fun_eq_iff)

lemma fm_config: "fm_ok config H c \<Longrightarrow> Config c = config"
  by (simp add: fm_ok_def Config_def)

lemma fm_length: "fm_ok config H c \<Longrightarrow> length (view c n) = unat (BlockSize config)"
  using view_length [of c n] by (auto simp: fm_ok_def)

lemma fill_block_spec:
  assumes fm: "fm_ok config H c" and ok: "cfg_ok config k" and no: "no \<in> H"
    and n: "1 \<le> n" "n \<le> 8 * unat (BlockSize config)" and w: "unat (w :: u32) = n"
  shows "\<exists>d. fill_map (ucast w) (ucast (1 * BlockSize config * 8 :: u32)) (view c no) = Ret d \<and>
    fm_ok config H (PutData no d c) \<and> view (PutData no d c) = (view c)(no := d) \<and> length d = unat (BlockSize config) \<and>
    (\<forall>j < 8 * unat (BlockSize config). le_test_bit d j \<longleftrightarrow> j = 0 \<or> n \<le> j)"
proof -
  let ?b = "unat (BlockSize config)"
  have len: "length (view c no) = ?b" using fm by (rule fm_length)
  have b: "8 * ?b < 4294967296" using cfg_bounds(2) [OF ok] by simp
  have u: "ucast w = (of_nat n :: u64)" "ucast (1 * BlockSize config * 8 :: u32) = (of_nat (8 * ?b) :: u64)"
    unfolding ucast_u32_of_nat w map_bits [OF ok] by (rule refl)+
  obtain d where "fill_map (of_nat n) (of_nat (8 * ?b)) (view c no) = Ret d" "length d = ?b"
    "\<forall>j < 8 * ?b. le_test_bit d j \<longleftrightarrow> j = 0 \<or> n \<le> j"
    using fill_map_spec [of n "view c no"] n b unfolding len by blast
  then show ?thesis using put_fm [OF fm no, of d] unfolding u by blast
qed

lemma fill_zone_map_spec:
  assumes fm: "fm_ok config H c" and ok: "cfg_ok config k" and H: "1 \<in> H"
  shows "\<exists>c' Z. FillZoneMap c = Ret c' \<and> fm_ok config H c' \<and> view c' = (view c)(1 := Z) \<and> length Z = unat (BlockSize config) \<and>
    (\<forall>j < 8 * unat (BlockSize config). le_test_bit Z j \<longleftrightarrow> j = 0 \<or> unat (NumZones config) \<le> j)"
proof -
  have nz: "4 \<le> unat (NumZones config)" "unat (NumZones config) \<le> 8 * unat (BlockSize config)" "NumZoneMapBlocks config = 1"
    using ok by (auto simp: cfg_ok_def)
  let ?m = "min (NumZones config) (1 * BlockSize config * 8)"
  have m: "unat ?m = unat (NumZones config)" using nz(2) by (simp only: min_u32 map_bits [OF ok] min_absorb1)
  obtain d where "fill_map (ucast ?m) (ucast (1 * BlockSize config * 8 :: u32)) (view c 1) = Ret d"
    "fm_ok config H (PutData 1 d c) \<and> view (PutData 1 d c) = (view c)(1 := d) \<and> length d = unat (BlockSize config) \<and>
    (\<forall>j < 8 * unat (BlockSize config). le_test_bit d j \<longleftrightarrow> j = 0 \<or> unat (NumZones config) \<le> j)"
    using fill_block_spec [OF fm ok H _ nz(2) m] nz(1) by fastforce
  then show ?thesis unfolding FillZoneMap_def Let_def fm_config [OF fm] nz(3) by auto
qed

lemma inode_count:
  assumes "cfg_ok config k"
  shows "unat (min (NumInodeEntryBlocks config * (BlockSize config div 64)) (1 * BlockSize config * 8)) = cfg_inodes config"
proof -
  have q: "unat (BlockSize config div 64) = unat (BlockSize config) div 64" by (simp add: unat_div)
  have "unat (BlockSize config) div 64 \<le> 4096 div 64" by (rule div_le_mono) (rule cfg_bounds(2) [OF assms])
  then have "unat (NumInodeEntryBlocks config) * (unat (BlockSize config) div 64) \<le> 4096 * 64"
    using cfg_bounds(5) [OF assms] by (intro mult_le_mono) simp_all
  then have "unat (NumInodeEntryBlocks config * (BlockSize config div 64)) =
      unat (NumInodeEntryBlocks config) * (unat (BlockSize config) div 64)"
    by (simp add: unat_mult_no_wrap q)
  then show ?thesis by (simp only: min_u32 map_bits [OF assms] cfg_inodes_def)
qed

lemma fill_inode_map_spec:
  assumes fm: "fm_ok config H c" and ok: "cfg_ok config k" and H: "2 \<in> H"
  shows "\<exists>c' I. FillInodeMap c = Ret c' \<and> fm_ok config H c' \<and> view c' = (view c)(2 := I) \<and> length I = unat (BlockSize config) \<and>
    (\<forall>j < 8 * unat (BlockSize config). le_test_bit I j \<longleftrightarrow> j = 0 \<or> cfg_inodes config \<le> j)"
proof -
  have maps: "NumZoneMapBlocks config = 1" "NumInodeMapBlocks config = 1" using ok by (auto simp: cfg_ok_def)
  have no: "inode_map_no c = 2" by (simp add: inode_map_no_def fm_config [OF fm] maps)
  have n: "1 \<le> cfg_inodes config" "cfg_inodes config \<le> 8 * unat (BlockSize config)"
    using cfg_bounds(11) [OF ok] by (simp, simp add: cfg_inodes_def)
  let ?m = "min (NumInodeEntryBlocks config * (BlockSize config div 64)) (1 * BlockSize config * 8)"
  obtain d where "fill_map (ucast ?m) (ucast (1 * BlockSize config * 8 :: u32)) (view c 2) = Ret d"
    "fm_ok config H (PutData 2 d c) \<and> view (PutData 2 d c) = (view c)(2 := d) \<and> length d = unat (BlockSize config) \<and>
    (\<forall>j < 8 * unat (BlockSize config). le_test_bit d j \<longleftrightarrow> j = 0 \<or> cfg_inodes config \<le> j)"
    using fill_block_spec [OF fm ok H n inode_count [OF ok]] by fastforce
  then show ?thesis unfolding FillInodeMap_def Let_def fm_config [OF fm] maps no by auto
qed

definition super_fields :: "configuration \<Rightarrow> (nat \<times> bytes) list" where
  "super_fields config =
     [(0, be32_enc 0x13131313), (4, be32_enc (ZoneSize config)), (8, be32_enc (- 1)), (12, be32_enc (NumInodeEntryBlocks config)),
      (16, be32_enc (NumInodeMapBlocks config)), (20, be32_enc (NumInodeMapBlocks config)), (24, be32_enc (NumBlockAlignment config))]"

lemma fill_super_spec:
  assumes fm: "fm_ok config H c" and ok: "cfg_ok config k" and H: "0 \<in> H"
  shows "\<exists>c'. FillSuper c = Ret c' \<and> fm_ok config H c' \<and> view c' = (view c)(0 := blits (super_fields config) (view c 0))"
proof -
  have b: "512 \<le> unat (BlockSize config)" by (rule cfg_bounds(1) [OF ok])
  have "FillSuper c = Ret (stores 0 (super_fields config) c)"
    using b by (simp add: FillSuper_def fm_config [OF fm] fm_length [OF fm] stores_def super_fields_def layout_defs)
  moreover have "\<forall>(off, src) \<in> set (super_fields config). off + length src \<le> unat (BlockSize config)"
    using b by (simp add: super_fields_def)
  ultimately show ?thesis using stores_fm [OF fm H] by blast
qed

lemma super_block_spec:
  assumes ok: "cfg_ok config k"
  shows "\<exists>c Z I. SuperBlock (BlocksCache config dev) = Ret c \<and> fm_ok config {0, 1, 2} c \<and>
    view c = (ReadBlock config dev)(0 := blits (super_fields config) (ReadBlock config dev 0), 1 := Z, 2 := I) \<and>
    length Z = unat (BlockSize config) \<and> length I = unat (BlockSize config) \<and>
    (\<forall>j < 8 * unat (BlockSize config). le_test_bit Z j \<longleftrightarrow> j = 0 \<or> unat (NumZones config) \<le> j) \<and>
    (\<forall>j < 8 * unat (BlockSize config). le_test_bit I j \<longleftrightarrow> j = 0 \<or> cfg_inodes config \<le> j)"
proof -
  let ?c0 = "BlocksCache config dev"
  let ?c1 = "snd (GetBlock 2 (snd (GetBlock 1 (snd (GetBlock 0 ?c0)))))"
  have "NumZoneMapBlocks config = 1" using ok by (simp add: cfg_ok_def)
  then have no: "inode_map_no ?c0 = 2" by (simp add: inode_map_no_def Config_def BlocksCache_def)
  have fm: "fm_ok config {2, 1, 0} ?c1" and v: "view ?c1 = ReadBlock config dev"
    using get_fm(1) [OF get_fm(1) [OF get_fm(1) [OF new_cache(1)]]]
      get_fm(2) [OF get_fm(1) [OF get_fm(1) [OF new_cache(1)]]] get_fm(2) [OF get_fm(1) [OF new_cache(1)]]
      get_fm(2) [OF new_cache(1)] by (simp_all add: new_cache)
  obtain c2 Z where 2: "FillZoneMap ?c1 = Ret c2" "fm_ok config {2, 1, 0} c2" "view c2 = (view ?c1)(1 := Z)"
    and Z: "length Z = unat (BlockSize config)" "\<forall>j < 8 * unat (BlockSize config). le_test_bit Z j \<longleftrightarrow> j = 0 \<or> unat (NumZones config) \<le> j"
    using fill_zone_map_spec [OF fm ok] by blast
  obtain c3 I where 3: "FillInodeMap c2 = Ret c3" "fm_ok config {2, 1, 0} c3" "view c3 = (view c2)(2 := I)"
    and I: "length I = unat (BlockSize config)" "\<forall>j < 8 * unat (BlockSize config). le_test_bit I j \<longleftrightarrow> j = 0 \<or> cfg_inodes config \<le> j"
    using fill_inode_map_spec [OF 2(2) ok] by blast
  obtain c4 where 4: "FillSuper c3 = Ret c4" "fm_ok config {2, 1, 0} c4" "view c4 = (view c3)(0 := blits (super_fields config) (view c3 0))"
    using fill_super_spec [OF 3(2) ok] by blast
  have "SuperBlock ?c0 = Ret c4" unfolding SuperBlock_def Let_def no 2(1) sum.case 3(1) by (rule 4(1))
  moreover have "view c4 = (ReadBlock config dev)(0 := blits (super_fields config) (ReadBlock config dev 0), 1 := Z, 2 := I)"
    unfolding 4(3) 3(3) 2(3) v by (simp add: fun_upd_twist)
  ultimately show ?thesis using 4(2) Z I by (auto simp: insert_commute)
qed


subsection \<open>The allocations\<close>

lemma end_iterator: "bit_it (int (unat (1 :: u32) * n * 8)) 0 = it_at (64 * n)"
  by (simp add: it_at_def bit_it_def)

lemma start_iterator: "bit_it 0 0 = it_at 0"
  by (simp add: it_at_def)

lemma allocate_inode_spec:
  assumes fm: "fm_ok config H c" and ok: "cfg_ok config k" and H: "2 \<in> H"
    and bits: "\<forall>j < 8 * unat (BlockSize config). le_test_bit (view c 2) j \<longleftrightarrow> j = 0 \<or> n \<le> j" and n: "4 \<le> n"
  shows "\<exists>c'. AllocateInode c = Ret (1, c') \<and> fm_ok config H c' \<and> view c' = (view c)(2 := le_assign_bit True 1 (view c 2))"
proof -
  have maps: "NumZoneMapBlocks config = 1" "NumInodeMapBlocks config = 1" using ok by (auto simp: cfg_ok_def)
  have no: "inode_map_no c = 2" by (simp add: inode_map_no_def fm_config [OF fm] maps)
  have b: "512 \<le> unat (BlockSize config)" by (rule cfg_bounds(1) [OF ok])
  note len = fm_length [OF fm, of 2]
  have "std_find (view c 2) (it_at 0) (it_at (64 * unat (BlockSize config))) False = Ret (it_at 1)"
    using b bits n len by (intro std_find_at) auto
  moreover have "ref_assign (view c 2) (it_deref (it_at 1)) True = Ret (le_assign_bit True 1 (view c 2))"
    using b len by (simp add: ref_assign_at)
  moreover have "(ucast (it_diff (it_at 1) (it_at 0)) :: u32) = 1" by (simp add: it_diff_at)
  moreover have "1 \<noteq> 64 * unat (BlockSize config)" by presburger
  ultimately have "AllocateInode c = Ret (1, PutData 2 (le_assign_bit True 1 (view c 2)) c)"
    unfolding AllocateInode_def Let_def no fm_config [OF fm] maps start_iterator end_iterator by simp
  then show ?thesis using put_fm [OF fm H, of "le_assign_bit True 1 (view c 2)"] len by simp
qed

lemma zones_for_root:
  assumes "cfg_ok config k"
  shows "(2 * 64 + ZoneSize config - 1) div ZoneSize config = 1"
proof -
  let ?z = "unat (ZoneSize config)"
  have z: "512 \<le> ?z" "?z \<le> 2147483648" using cfg_bounds(7,12) [OF assms] .
  have "unat (2 * 64 + ZoneSize config) = 128 + ?z" using z by (subst unat_add_no_wrap) simp_all
  moreover have "2 * 64 + ZoneSize config \<noteq> 0" using calculation by auto
  ultimately have "unat (2 * 64 + ZoneSize config - 1) = 127 + ?z"
    using unat_minus_one [of "2 * 64 + ZoneSize config"] by linarith
  then have "unat ((2 * 64 + ZoneSize config - 1) div ZoneSize config) = (127 + ?z) div ?z" by (simp add: unat_div)
  also have "\<dots> = 1" by (rule div_nat_eqI) (use z in auto)
  finally show ?thesis by (simp add: word_unat_eq_iff)
qed

text \<open>The loop of \<^verbatim>\<open>AllocateZones\<close> from a set bit: the search stays where it is.\<close>

lemma alloc_zones_loop_stuck:
  assumes j: "j < 8 * length d" "j < n" "le_test_bit d j" and z: "0 < zones"
  shows "alloc_zones_loop d b (it_at n) zones (it_at j) = None"
proof (rule ccontr)
  assume "alloc_zones_loop d b (it_at n) zones (it_at j) \<noteq> None"
  then obtain y where "alloc_zones_loop d b (it_at n) zones (it_at j) = Some y" by blast
  moreover have "\<not> (d' = d \<and> e' = it_at n \<and> zones' = zones \<and> it' = it_at j)"
    if "alloc_zones_loop d' b' e' zones' it' = Some y'" for d' b' e' zones' it' y'
  proof (rule alloc_zones_loop.raw_induct [where P = "\<lambda>d' b' e' zones' it' y'. \<not> (d' = d \<and> e' = it_at n \<and> zones' = zones \<and> it' = it_at j)", OF _ that])
    fix loop d' b' e' zones' it' y'
    assume hyp: "\<And>d' b' e' zones' it' y'. loop d' b' e' zones' it' = Some y' \<Longrightarrow>
        \<not> (d' = d \<and> e' = it_at n \<and> zones' = zones \<and> it' = it_at j)"
      and body: "(if it_ne it' e' then (case std_find d' it' e' True of Inl f \<Rightarrow> Some (Fault f)
         | Inr jt \<Rightarrow> if zones' \<le> it_diff jt it' then
               Some (case std_fill d' it' (it_plus it' zones') True of Inl f \<Rightarrow> Fault f
                     | Inr d'' \<Rightarrow> Ret (ucast (it_diff it' b'), d''))
             else loop d' b' e' zones' jt) else Some (Fault Terminate)) = Some y'"
    have "std_find d (it_at j) (it_at n) True = Ret (it_at j)" using j by (intro std_find_at) auto
    moreover have "\<not> zones \<le> it_diff (it_at j) (it_at j)" using z by (simp add: it_diff_at)
    ultimately show "\<not> (d' = d \<and> e' = it_at n \<and> zones' = zones \<and> it' = it_at j)"
      using hyp [of d b' "it_at n" zones "it_at j"] body j(2) by auto
  qed
  ultimately show False by blast
qed

text \<open>
  One pass over the map: \<open>i\<close> is the first clear bit, \<open>j\<close> the first set bit behind it.
\<close>

lemma allocate_zones_general:
  assumes map1: "NumZoneMapBlocks (Config c) = 1" and len: "length (view c 1) = unat (BlockSize (Config c))"
    and i: "i < 8 * length (view c 1)" "\<not> le_test_bit (view c 1) i" "\<forall>k < i. le_test_bit (view c 1) k"
    and j: "i < j" "\<forall>k. i \<le> k \<and> k < j \<longrightarrow> \<not> le_test_bit (view c 1) k" and z: "0 < unat zones"
  shows "j < 8 * length (view c 1) \<Longrightarrow> le_test_bit (view c 1) j \<Longrightarrow> unat zones \<le> j - i \<Longrightarrow> j < 4294967296 \<Longrightarrow>
      \<exists>Z. AllocateZones zones c = Some (Ret (of_nat i, PutData 1 Z c)) \<and> length Z = length (view c 1) \<and>
        (\<forall>k < 8 * length (view c 1). le_test_bit Z k \<longleftrightarrow> i \<le> k \<and> k < i + unat zones \<or> le_test_bit (view c 1) k)"
    and "j < 8 * length (view c 1) \<Longrightarrow> le_test_bit (view c 1) j \<Longrightarrow> j - i < unat zones \<Longrightarrow> AllocateZones zones c = None"
    and "j = 8 * length (view c 1) \<Longrightarrow> AllocateZones zones c = Some (Fault OutOfBounds)"
proof -
  let ?d = "view c 1" and ?n = "64 * unat (BlockSize (Config c))"
  have n: "8 * length ?d < ?n" using len i(1) by linarith
  have "std_find ?d (it_at 0) (it_at ?n) False = Ret (it_at i)" using i n by (intro std_find_at) auto
  then have alloc: "AllocateZones zones c = (case alloc_zones_loop ?d (it_at 0) (it_at ?n) zones (it_at i) of
      None \<Rightarrow> None | Some (Inl f) \<Rightarrow> Some (Fault f) | Some (Inr (x, d')) \<Rightarrow> Some (Ret (x, PutData 1 d' c)))"
    unfolding AllocateZones_def Let_def map1 start_iterator end_iterator by simp
  have ne: "it_ne (it_at i) (it_at ?n)" using i(1) n by simp
  note loop = alloc_zones_loop.simps [of ?d "it_at 0" "it_at ?n" zones "it_at i"]
  have find: "std_find ?d (it_at i) (it_at ?n) True = Ret (it_at j)" if "j < 8 * length ?d" "le_test_bit ?d j"
    using that j n by (intro std_find_at) auto
  have diff: "it_diff (it_at j) (it_at i) = of_nat (j - i)" using j(1) by (simp add: it_diff_at of_nat_diff)
  { assume a: "j < 8 * length ?d" "le_test_bit ?d j" "unat zones \<le> j - i" "j < 4294967296"
    have "unat (of_nat (j - i) :: u64) = j - i" using a(4) by (intro unat_of_nat_small) simp
    then have le: "zones \<le> it_diff (it_at j) (it_at i)" using a(3) by (simp add: diff word_le_nat_alt)
    have "it_plus (it_at i) (of_nat (unat zones)) = it_at (i + unat zones)"
      unfolding it_plus_def it_plus_assign_def by (rule advance_at) (use a(3,4) in simp)
    then have plus: "it_plus (it_at i) zones = it_at (i + unat zones)" by simp
    have in_map: "i + unat zones \<le> 8 * length ?d" using a(1,3) j(1) by linarith
    obtain Z where Z: "std_fill ?d (it_at i) (it_at (i + unat zones)) True = Ret Z" "length Z = length ?d"
      "\<forall>k < 8 * length ?d. le_test_bit Z k = (if i \<le> k \<and> k < i + unat zones then True else le_test_bit ?d k)"
      using std_fill_at [OF le_add1 in_map, of True] by blast
    have "alloc_zones_loop ?d (it_at 0) (it_at ?n) zones (it_at i) = Some (Ret (of_nat i, Z))"
      unfolding loop find [OF a(1,2)] sum.case plus Z(1) using ne le by (simp add: it_diff_at ucast_u64_u32_of_nat)
    then have "AllocateZones zones c = Some (Ret (of_nat i, PutData 1 Z c))" by (simp add: alloc)
    then show "\<exists>Z. AllocateZones zones c = Some (Ret (of_nat i, PutData 1 Z c)) \<and> length Z = length ?d \<and>
        (\<forall>k < 8 * length ?d. le_test_bit Z k \<longleftrightarrow> i \<le> k \<and> k < i + unat zones \<or> le_test_bit ?d k)"
      using Z(2,3) by (intro exI [of _ Z]) (auto simp del: One_nat_def) }
  { assume a: "j < 8 * length ?d" "le_test_bit ?d j" "j - i < unat zones"
    have "j - i < 2 ^ LENGTH(64)" using a(3) unat_u64_less [of zones] by simp
    then have "unat (of_nat (j - i) :: u64) = j - i" by (rule unat_of_nat_small)
    then have "\<not> zones \<le> it_diff (it_at j) (it_at i)" using a(3) by (simp add: diff word_le_nat_alt)
    moreover have "alloc_zones_loop ?d (it_at 0) (it_at ?n) zones (it_at j) = None"
      using a n z by (intro alloc_zones_loop_stuck) (auto simp: word_less_nat_alt)
    ultimately have "alloc_zones_loop ?d (it_at 0) (it_at ?n) zones (it_at i) = None"
      unfolding loop find [OF a(1,2)] sum.case using ne by simp
    then show "AllocateZones zones c = None" by (simp add: alloc) }
  assume "j = 8 * length ?d"
  then have "std_find ?d (it_at i) (it_at ?n) True = Fault OutOfBounds" using i(1) j n by (intro std_find_overrun) auto
  then have "alloc_zones_loop ?d (it_at 0) (it_at ?n) zones (it_at i) = Some (Fault OutOfBounds)" unfolding loop using ne by simp
  then show "AllocateZones zones c = Some (Fault OutOfBounds)" by (simp add: alloc)
qed

lemma allocate_zones_spec:
  assumes fm: "fm_ok config H c" and ok: "cfg_ok config k" and H: "1 \<in> H"
    and bits: "\<forall>j < 8 * unat (BlockSize config). le_test_bit (view c 1) j \<longleftrightarrow> j = 0 \<or> unat (NumZones config) \<le> j"
    and less: "unat (NumZones config) < 8 * unat (BlockSize config)"
  shows "\<exists>c' Z. AllocateZones 1 c = Some (Ret (1, c')) \<and> fm_ok config H c' \<and> view c' = (view c)(1 := Z) \<and>
    length Z = unat (BlockSize config) \<and>
    (\<forall>j < 8 * unat (BlockSize config). le_test_bit Z j \<longleftrightarrow> j \<le> 1 \<or> unat (NumZones config) \<le> j)"
proof -
  let ?d = "view c 1" and ?n = "unat (NumZones config)" and ?b = "unat (BlockSize config)"
  have n4: "4 \<le> ?n" "NumZoneMapBlocks config = 1" using ok by (auto simp: cfg_ok_def)
  note b = cfg_bounds(1,2) [OF ok] and len = fm_length [OF fm, of 1]
  have "\<exists>Z. AllocateZones 1 c = Some (Ret (of_nat 1, PutData 1 Z c)) \<and> length Z = length ?d \<and>
        (\<forall>k < 8 * length ?d. le_test_bit Z k \<longleftrightarrow> 1 \<le> k \<and> k < 1 + unat (1 :: u64) \<or> le_test_bit ?d k)"
    using b len n4 bits less fm_config [OF fm] by (intro allocate_zones_general(1) [where j = ?n]) auto
  then obtain Z where Z: "AllocateZones 1 c = Some (Ret (1, PutData 1 Z c))" "length Z = ?b"
    "\<forall>k < 8 * ?b. le_test_bit Z k \<longleftrightarrow> k = 1 \<or> le_test_bit ?d k" using len by fastforce
  have "\<forall>j < 8 * ?b. le_test_bit Z j \<longleftrightarrow> j \<le> 1 \<or> ?n \<le> j" using Z(3) bits by auto
  then show ?thesis using put_fm [OF fm H Z(2)] Z(1,2) by blast
qed

lemma allocate_zones_overrun:
  assumes fm: "fm_ok config H c" and ok: "cfg_ok config k"
    and bits: "\<forall>j < 8 * unat (BlockSize config). le_test_bit (view c 1) j \<longleftrightarrow> j = 0 \<or> unat (NumZones config) \<le> j"
    and full: "unat (NumZones config) = 8 * unat (BlockSize config)"
  shows "AllocateZones 1 c = Some (Fault OutOfBounds)"
proof -
  have "NumZoneMapBlocks config = 1" using ok by (simp add: cfg_ok_def)
  then show ?thesis
    using cfg_bounds(1) [OF ok] fm_length [OF fm, of 1] bits full fm_config [OF fm]
    by (intro allocate_zones_general(3) [where i = 1 and j = "8 * unat (BlockSize config)"]) auto
qed

subsection \<open>The root directory\<close>

abbreviation root_obj :: inode_obj where "root_obj \<equiv> \<lparr>m_inode = 1, m_block = 3, m_raw = 64\<rparr>"

lemma fill_inode_spec:
  assumes fm: "fm_ok config H c" and ok: "cfg_ok config k"
  shows "\<exists>c'. FillInode t 1 c = Ret (root_obj, c') \<and> fm_ok config (insert 3 H) c' \<and>
    view c' = (view c)(3 := blit 120 (be64_enc t) (view c 3))"
proof -
  have q: "8 \<le> unat (BlockSize config) div 64" by (rule cfg_bounds(3) [OF ok])
  have maps: "NumZoneMapBlocks config = 1" "NumInodeMapBlocks config = 1" using ok by (auto simp: cfg_ok_def)
  let ?c1 = "snd (GetBlock 3 c)"
  have "1 div (unat (BlockSize config) div 64) = 0" "1 mod (unat (BlockSize config) div 64) = 1" using q by auto
  then have "FillInode t 1 c = Ret (root_obj, store 3 120 (be64_enc t) ?c1)"
    using q unfolding FillInode_def Let_def fm_config [OF fm] maps
    by (simp add: SetCreateTime_def layout_defs numeral_3_eq_3)
  moreover have "fm_ok config (insert 3 H) ?c1" "view ?c1 = view c" using get_fm [OF fm] by auto
  ultimately show ?thesis
    using store_fm [of config "insert 3 H" ?c1 3 120 "be64_enc t"] cfg_bounds(1) [OF ok] by auto
qed

lemma root_block_spec:
  assumes ok: "cfg_ok config k"
  shows "\<exists>w. root_block config = Ret w \<and> unat w = cfg_root config"
proof -
  let ?e = "unat (NumInodeEntryBlocks config)" and ?q = "unat (ZoneSize config) div unat (BlockSize config)"
  have maps: "NumZoneMapBlocks config = 1" "NumInodeMapBlocks config = 1" "m_num_block_alignment config = 1024"
    using ok by (auto simp: cfg_ok_def NumBlockAlignment_def)
  note b = cfg_bounds [OF ok]
  let ?w = "1 + NumInodeEntryBlocks config + 1 + 1"
  have "unat ?w = ?e + 3" using b(5) by (simp add: unat_word_ariths)
  moreover have "unat (?w + 1024) = unat ?w + 1024" using calculation b(5) by (subst unat_add_no_wrap) simp_all
  moreover have "?w + 1024 \<noteq> 0" using calculation by auto
  ultimately have "unat (?w + 1024 - 1) = ?e + 3 + 1024 - 1" using unat_minus_one [of "?w + 1024"] by linarith
  then have d: "unat ((?w + 1024 - 1) div 1024) = (?e + 3 + 1024 - 1) div 1024" by (simp add: unat_div)
  have le: "(?e + 3 + 1024 - 1) div 1024 * 1024 \<le> ?e + 3 + 1024" using div_times_less_eq_dividend [of "?e + 3 + 1024 - 1" 1024] by linarith
  have n: "unat (1024 :: u32) = 1024" by simp
  have "unat ((?w + 1024 - 1) div 1024) * unat (1024 :: u32) < 2 ^ LENGTH(32)"
    unfolding d n by (rule le_less_trans [OF le]) (use b(5) in simp)
  then have "unat ((?w + 1024 - 1) div 1024 * 1024) = unat ((?w + 1024 - 1) div 1024) * unat (1024 :: u32)"
    by (rule unat_mult_no_wrap)
  then have a: "unat ((?w + 1024 - 1) div 1024 * 1024) = align_up (3 + ?e) 1024"
    unfolding d n align_up_def by (simp only: add.commute)
  have z: "unat (1 * (ZoneSize config div BlockSize config)) = ?q" by (simp add: unat_div)
  have al: "align_up (3 + ?e) 1024 < 3 + ?e + 1024" by (rule align_up_less) simp
  have "unat (1 * (ZoneSize config div BlockSize config) + (?w + 1024 - 1) div 1024 * 1024) = cfg_root config"
    unfolding cfg_root_def a [symmetric] z [symmetric] by (rule unat_add_no_wrap) (use a z al b(5,10) in simp)
  moreover have "BlockSize config \<noteq> 0" using b(1) by auto
  ultimately show ?thesis by (simp add: root_block_def CalculateAlignedNumBlocks_def cfg_round_up_division_def maps)
qed

lemma cfg_root_ge: "cfg_ok config k \<Longrightarrow> 1024 < cfg_root config"
proof -
  assume ok: "cfg_ok config k"
  have "1024 dvd align_up (3 + unat (NumInodeEntryBlocks config)) 1024" by (rule align_up_dvd)
  moreover have "0 < align_up (3 + unat (NumInodeEntryBlocks config)) 1024"
    using align_up_ge [of 1024 "3 + unat (NumInodeEntryBlocks config)"] by simp
  ultimately have "1024 \<le> align_up (3 + unat (NumInodeEntryBlocks config)) 1024" by (rule dvd_imp_le)
  then show ?thesis using cfg_bounds(9) [OF ok] by (simp add: cfg_root_def)
qed

definition root_fields :: "mkfs_env \<Rightarrow> u32 \<Rightarrow> (nat \<times> bytes) list" where
  "root_fields env block =
     [(64, be32_enc block), (68, be32_enc 0), (72, be32_enc 0), (76, be32_enc 0), (80, be32_enc 0), (84, be32_enc 0),
      (88, be32_enc 0), (92, be32_enc 0), (96, be32_enc 0), (100, be32_enc 1), (104, be32_enc 128), (112, be32_enc (e_uid env)),
      (108, be32_enc (e_gid env)), (116, be32_enc 0x41ED), (120, be64_enc (e_time2 env))]"

lemma fill_root_inode_stores: "fill_root_inode env block 1 root_obj c = stores 3 (root_fields env block) c"
proof -
  have "[1..<9] = [1, 2, 3, 4, 5, 6, 7, 8 :: nat]" by (simp add: upt_rec)
  then show ?thesis
    by (simp add: fill_root_inode_def root_fields_def stores_def SetFirstBlock_def ClearAllOtherZones_def SetBlocksCount_def
        SetSize_def SetUid_def SetGid_def SetMode_def SetCreateTime_def layout_defs)
qed

definition root_entries :: "(nat \<times> bytes) list" where
  "root_entries =
     [(0, be32_enc 1), (4, [46, 0]), (64, be32_enc 1), (68, [46, 46, 0]), (128, be32_enc 2),
      (132, [46, 98, 97, 100, 98, 108, 111, 99, 107, 115, 0])]"

lemma fill_root_block_spec:
  assumes fm: "fm_ok config H c" and ok: "cfg_ok config k"
  shows "\<exists>c'. fill_root_block n c = Ret c' \<and> fm_ok config (insert n H) c' \<and> view c' = (view c)(n := blits root_entries (view c n))"
proof -
  let ?c1 = "snd (GetBlock n c)"
  have b: "512 \<le> unat (BlockSize config)" by (rule cfg_bounds(1) [OF ok])
  have "fill_root_block n c = Ret (stores n root_entries ?c1)"
    using b by (simp add: fill_root_block_def Let_def fm_config [OF fm] stores_def root_entries_def put_entry_def)
  moreover have "\<forall>(off, src) \<in> set root_entries. off + length src \<le> unat (BlockSize config)"
    using b by (simp add: root_entries_def)
  ultimately show ?thesis using stores_fm [OF get_fm(1) [OF fm, of n], of n root_entries] get_fm(2) [OF fm, of n] by simp
qed


lemma mk_root_dir_spec:
  assumes fm: "fm_ok config {0, 1, 2} c" and ok: "cfg_ok config k" and less: "unat (NumZones config) < 8 * unat (BlockSize config)"
    and Z: "\<forall>j < 8 * unat (BlockSize config). le_test_bit (view c 1) j \<longleftrightarrow> j = 0 \<or> unat (NumZones config) \<le> j"
    and I: "\<forall>j < 8 * unat (BlockSize config). le_test_bit (view c 2) j \<longleftrightarrow> j = 0 \<or> cfg_inodes config \<le> j"
  shows "\<exists>c' Z' rb. MkRootDir env c = Some (Ret (root_obj, c')) \<and> fm_ok config {0, 1, 2, 3} c' \<and> unat rb = cfg_root config \<and>
    view c' = (view c)(1 := Z', 2 := le_assign_bit True 1 (view c 2),
      3 := blits (root_fields env rb) (blit 120 (be64_enc (e_time1 env)) (view c 3)),
      cfg_root config := blits root_entries (view c (cfg_root config))) \<and>
    length Z' = unat (BlockSize config) \<and>
    (\<forall>j < 8 * unat (BlockSize config). le_test_bit Z' j \<longleftrightarrow> j \<le> 1 \<or> unat (NumZones config) \<le> j)"
proof -
  let ?rb = "cfg_root config"
  obtain c1 where 1: "AllocateInode c = Ret (1, c1)" "fm_ok config {0, 1, 2} c1" "view c1 = (view c)(2 := le_assign_bit True 1 (view c 2))"
    using allocate_inode_spec [OF fm ok _ I cfg_bounds(11) [OF ok]] by blast
  obtain c2 where 2: "FillInode (e_time1 env) 1 c1 = Ret (root_obj, c2)" "fm_ok config (insert 3 {0, 1, 2}) c2"
    "view c2 = (view c1)(3 := blit 120 (be64_enc (e_time1 env)) (view c1 3))"
    using fill_inode_spec [OF 1(2) ok] by blast
  have "view c2 1 = view c 1" by (simp add: 2(3) 1(3))
  with Z have Z2: "\<forall>j < 8 * unat (BlockSize config). le_test_bit (view c2 1) j \<longleftrightarrow> j = 0 \<or> unat (NumZones config) \<le> j" by simp
  obtain c3 Z' where 3: "AllocateZones 1 c2 = Some (Ret (1, c3))" "fm_ok config (insert 3 {0, 1, 2}) c3" "view c3 = (view c2)(1 := Z')"
    and Z': "length Z' = unat (BlockSize config)" "\<forall>j < 8 * unat (BlockSize config). le_test_bit Z' j \<longleftrightarrow> j \<le> 1 \<or> unat (NumZones config) \<le> j"
    using allocate_zones_spec [OF 2(2) ok _ Z2 less] by blast
  obtain w where w: "root_block config = Ret w" "unat w = ?rb" using root_block_spec [OF ok] by blast
  let ?c4 = "stores 3 (root_fields env w) c3"
  have "\<forall>(off, src) \<in> set (root_fields env w). off + length src \<le> unat (BlockSize config)"
    using cfg_bounds(1) [OF ok] by (simp add: root_fields_def)
  then have 4: "fm_ok config (insert 3 {0, 1, 2}) ?c4" "view ?c4 = (view c3)(3 := blits (root_fields env w) (view c3 3))"
    using stores_fm [OF 3(2), of 3 "root_fields env w"] by auto
  obtain c5 where 5: "fill_root_block ?rb ?c4 = Ret c5" "fm_ok config (insert ?rb (insert 3 {0, 1, 2})) c5"
    "view c5 = (view ?c4)(?rb := blits root_entries (view ?c4 ?rb))"
    using fill_root_block_spec [OF 4(1) ok] by blast
  let ?c6 = "Release ?rb c5"
  have rb: "1024 < ?rb" by (rule cfg_root_ge [OF ok])
  have 6: "fm_ok config {0, 1, 2, 3} ?c6" "view ?c6 = view c5"
    using 5(2) release_spec [of c5 ?rb] rb by (auto simp: fm_ok_def)
  have nz: "ZoneSize config \<noteq> 0" using cfg_bounds(7) [OF ok] by auto
  have "MkRootDir env c = Some (Ret (root_obj, ?c6))"
    unfolding MkRootDir_def Let_def fm_config [OF fm] zones_for_root [OF ok] 1(1) sum.case prod.case 2(1)
    using nz by (simp add: 3(1) w fill_root_inode_stores 5(1))
  moreover have "view ?c6 = (view c)(1 := Z', 2 := le_assign_bit True 1 (view c 2),
      3 := blits (root_fields env w) (blit 120 (be64_enc (e_time1 env)) (view c 3)), ?rb := blits root_entries (view c ?rb))"
    unfolding 6(2) 5(3) 4(2) 3(3) 2(3) 1(3) using rb by (auto simp: fun_eq_iff)
  ultimately show ?thesis using 6(1) Z' w(2) by blast
qed

text \<open>The blocks of a formatted device.\<close>

definition formatted_blocks :: "mkfs_env \<Rightarrow> configuration \<Rightarrow> u32 \<Rightarrow> bytes \<Rightarrow> bytes \<Rightarrow> (nat \<Rightarrow> bytes) \<Rightarrow> nat \<Rightarrow> bytes" where
  "formatted_blocks env config rb Z I old =
     old(0 := blits (super_fields config @ [(8, be32_enc 1)]) (old 0), 1 := Z, 2 := I,
         3 := blits (root_fields env rb) (blit 120 (be64_enc (e_time1 env)) (old 3)),
         unat rb := blits root_entries (old (unat rb)))"

lemma blits_append: "blits (l @ l') d = blits l' (blits l d)"
  by (simp add: blits_def)

lemma format_device_spec:
  assumes ok: "cfg_ok config k" and less: "unat (NumZones config) < 8 * unat (BlockSize config)"
  shows "\<exists>dev' Z I rb. format_device env config dev = Some (Ret dev') \<and> unat rb = cfg_root config \<and>
    ReadBlock config dev' = formatted_blocks env config rb Z I (ReadBlock config dev) \<and>
    length Z = unat (BlockSize config) \<and> length I = unat (BlockSize config) \<and>
    (\<forall>j < 8 * unat (BlockSize config). le_test_bit Z j \<longleftrightarrow> j \<le> 1 \<or> unat (NumZones config) \<le> j) \<and>
    (\<forall>j < 8 * unat (BlockSize config). le_test_bit I j \<longleftrightarrow> j \<le> 1 \<or> cfg_inodes config \<le> j)"
proof -
  let ?rb = "cfg_root config" and ?b = "unat (BlockSize config)" and ?v = "ReadBlock config dev"
  note b = cfg_bounds(1) [OF ok]
  have rb: "1024 < ?rb" by (rule cfg_root_ge [OF ok])
  obtain c Z I where c: "SuperBlock (BlocksCache config dev) = Ret c" "fm_ok config {0, 1, 2} c"
    "view c = ?v(0 := blits (super_fields config) (?v 0), 1 := Z, 2 := I)"
    and len: "length Z = ?b" "length I = ?b"
    and bits: "\<forall>j < 8 * ?b. le_test_bit Z j \<longleftrightarrow> j = 0 \<or> unat (NumZones config) \<le> j"
      "\<forall>j < 8 * ?b. le_test_bit I j \<longleftrightarrow> j = 0 \<or> cfg_inodes config \<le> j"
    using super_block_spec [OF ok, of dev] by blast
  have v: "view c 1 = Z" "view c 2 = I" "view c 3 = ?v 3" "view c ?rb = ?v ?rb" using rb by (auto simp: c(3))
  obtain c1 Z' w where 1: "MkRootDir env c = Some (Ret (root_obj, c1))" "fm_ok config {0, 1, 2, 3} c1" "unat w = ?rb"
    "view c1 = (view c)(1 := Z', 2 := le_assign_bit True 1 I, 3 := blits (root_fields env w) (blit 120 (be64_enc (e_time1 env)) (?v 3)),
       ?rb := blits root_entries (?v ?rb))"
    and Z': "length Z' = ?b" "\<forall>j < 8 * ?b. le_test_bit Z' j \<longleftrightarrow> j \<le> 1 \<or> unat (NumZones config) \<le> j"
    using mk_root_dir_spec [OF c(2) ok less, of env] bits unfolding v by blast
  let ?c2 = "store 0 8 (be32_enc 1) c1"
  have 2: "fm_ok config {0, 1, 2, 3} ?c2" "view ?c2 = (view c1)(0 := blit 8 (be32_enc 1) (view c1 0))"
    using store_fm [OF 1(2), of 0 8 "be32_enc 1"] b by auto
  let ?c3 = "Release 3 ?c2"
  have 3: "cache_ok ?c3" "view ?c3 = view ?c2" "c_config ?c3 = config"
    using 2(1) release_spec [of ?c2 3] by (auto simp: fm_ok_def)
  have dev: "ReadBlock config (DestroyCache ?c3) n = view ?c2 n" for n
    using sync_spec(3) [OF 3(1), of n] 3(2,3) by (simp add: DestroyCache_def)
  have "format_device env config dev = Some (Ret (DestroyCache ?c3))"
    by (simp add: format_device_def Formatter_def Formatter_SetRootInode_def c(1) 1(1) SetRootInode_def InodeNo_def layout_defs)
  moreover have "ReadBlock config (DestroyCache ?c3) = formatted_blocks env config w Z' (le_assign_bit True 1 I) ?v"
    using rb by (auto simp: fun_eq_iff dev 2(2) 1(3,4) c(3) formatted_blocks_def blits_append)
  moreover have "\<forall>j < 8 * ?b. le_test_bit (le_assign_bit True 1 I) j \<longleftrightarrow> j \<le> 1 \<or> cfg_inodes config \<le> j"
    using bits(2) len(2) b by (auto simp: le_test_assign)
  ultimately show ?thesis using 1(3) Z' len(2) by (intro exI conjI) (assumption | simp)+
qed

lemma format_device_full_map:
  assumes ok: "cfg_ok config k" and full: "unat (NumZones config) = 8 * unat (BlockSize config)"
  shows "format_device env config dev = Some (Fault OutOfBounds)"
proof -
  let ?b = "unat (BlockSize config)" and ?v = "ReadBlock config dev"
  obtain c Z I where c: "SuperBlock (BlocksCache config dev) = Ret c" "fm_ok config {0, 1, 2} c"
    "view c = ?v(0 := blits (super_fields config) (?v 0), 1 := Z, 2 := I)"
    and bits: "\<forall>j < 8 * ?b. le_test_bit Z j \<longleftrightarrow> j = 0 \<or> unat (NumZones config) \<le> j"
      "\<forall>j < 8 * ?b. le_test_bit I j \<longleftrightarrow> j = 0 \<or> cfg_inodes config \<le> j"
    using super_block_spec [OF ok, of dev] by blast
  have v: "view c 1 = Z" "view c 2 = I" by (auto simp: c(3))
  obtain c1 where 1: "AllocateInode c = Ret (1, c1)" "fm_ok config {0, 1, 2} c1" "view c1 = (view c)(2 := le_assign_bit True 1 (view c 2))"
    using allocate_inode_spec [OF c(2) ok _ _ cfg_bounds(11) [OF ok]] bits(2) v(2) by blast
  obtain c2 where 2: "FillInode (e_time1 env) 1 c1 = Ret (root_obj, c2)" "fm_ok config (insert 3 {0, 1, 2}) c2"
    "view c2 = (view c1)(3 := blit 120 (be64_enc (e_time1 env)) (view c1 3))"
    using fill_inode_spec [OF 1(2) ok] by blast
  have "view c2 1 = Z" using v(1) by (simp add: 2(3) 1(3))
  then have f: "AllocateZones 1 c2 = Some (Fault OutOfBounds)"
    using allocate_zones_overrun [OF 2(2) ok _ full] bits(1) by simp
  have nz: "ZoneSize config \<noteq> 0" using cfg_bounds(7) [OF ok] by auto
  have "MkRootDir env c = Some (Fault OutOfBounds)"
    unfolding MkRootDir_def Let_def fm_config [OF c(2)] zones_for_root [OF ok] 1(1) sum.case prod.case 2(1)
    using nz by (simp add: f)
  then show ?thesis by (simp add: format_device_def Formatter_def Formatter_SetRootInode_def c(1))
qed


subsection \<open>Reading the blocks back\<close>

lemmas read_fields = be32_at_blit be32_at_blit_other be64_at_blit be64_at_blit_other slice_blit_other

lemma super_read:
  assumes "512 \<le> length d"
  shows "let s = blits (super_fields config @ [(8, be32_enc 1)]) d in
    be32_at s ASB_MAGIC = 0x13131313 \<and> be32_at s ASB_ZONE_SIZE = ZoneSize config \<and> be32_at s ASB_ROOT_INODE = 1 \<and>
    be32_at s ASB_INODE_BLOCKS = NumInodeEntryBlocks config \<and> be32_at s ASB_INODE_MAP_BLOCKS = NumInodeMapBlocks config \<and>
    be32_at s ASB_BLOCK_MAP_BLOCKS = NumInodeMapBlocks config \<and> be32_at s ASB_ALIGNMENT_NUM_BLOCKS = NumBlockAlignment config"
  using assms by (simp add: super_fields_def layout_defs read_fields Let_def)

lemma blits_field:
  assumes "(off, be32_enc w) \<in> set l"
    and "\<forall>(o', s) \<in> set l. o' + length s \<le> length d \<and> ((o', s) = (off, be32_enc w) \<or> o' + length s \<le> off \<or> off + 4 \<le> o')"
  shows "be32_at (blits l d) off = w"
  using assms
proof (induction l rule: rev_induct)
  case (snoc e l)
  obtain o' s where e: "e = (o', s)" by fastforce
  have len: "length (blits l d) = length d" using snoc.prems(2) by (intro length_blits) auto
  have s: "o' + length s \<le> length d" using snoc.prems(2) e by simp
  show ?case
  proof (cases "e = (off, be32_enc w)")
    case True
    then show ?thesis using s len e by (simp add: blits_append be32_at_blit)
  next
    case False
    then have f: "(off, be32_enc w) \<in> set l" using snoc.prems(1) by simp
    then have "off + 4 \<le> length d" using snoc.prems(2) by fastforce
    moreover have "o' + length s \<le> off \<or> off + 4 \<le> o'" using False e snoc.prems(2) by auto
    ultimately show ?thesis using snoc.IH [OF f] snoc.prems(2) s len e by (auto simp: blits_append be32_at_blit_other)
  qed
qed simp

lemma root_read:
  assumes "512 \<le> length d"
  shows "let r = blits (root_fields env block) d in
    be32_at r (64 + AI_ZONE_PTR 0) = block \<and> (\<forall>i \<in> {1..<9}. be32_at r (64 + AI_ZONE_PTR i) = 0) \<and> be32_at r (64 + AI_BLOCKS) = 1 \<and>
    be32_at r (64 + AI_SIZE) = 128 \<and> be32_at r (64 + AI_GID) = e_gid env \<and> be32_at r (64 + AI_UID) = e_uid env \<and>
    be32_at r (64 + AI_MODE) = 0x41ED \<and> be64_at r (64 + AI_CTIME) = e_time2 env"
proof -
  let ?l = "root_fields env block"
  have f: "be32_at (blits ?l d) off = w"
    if "(off, be32_enc w) \<in> set ?l"
      "\<forall>(o', s) \<in> set ?l. (o', s) = (off, be32_enc w) \<or> o' + length s \<le> off \<or> off + 4 \<le> o'" for off w
  proof -
    have "\<forall>(o', s) \<in> set ?l. o' + length s \<le> length d" using assms by (simp add: root_fields_def)
    then show ?thesis using that by (intro blits_field) auto
  qed
  have t: "be64_at (blits ?l d) 120 = e_time2 env"
  proof -
    have l: "blits ?l d = blit 120 (be64_enc (e_time2 env)) (blits (butlast ?l) d)"
      by (simp add: blits_append [symmetric, of "butlast ?l" "[(120, be64_enc (e_time2 env))]" d, simplified] root_fields_def)
    have "length (blits (butlast ?l) d) = length d" using assms by (intro length_blits) (simp add: root_fields_def)
    then show ?thesis unfolding l using assms by (simp add: be64_at_blit)
  qed
  have r: "i \<in> {1, 2, 3, 4, 5, 6, 7, 8}" if "i \<in> {1..<9}" for i :: nat using that by auto
  have z: "be32_at (blits ?l d) (64 + 4 * i) = 0" if "i \<in> {1..<9}" for i
    using r [OF that] by (elim insertE emptyE; simp; intro f; simp add: root_fields_def)
  have "be32_at (blits ?l d) 64 = block" "be32_at (blits ?l d) 100 = 1" "be32_at (blits ?l d) 104 = 128"
    "be32_at (blits ?l d) 108 = e_gid env" "be32_at (blits ?l d) 112 = e_uid env" "be32_at (blits ?l d) 116 = 0x41ED"
    by (intro f; simp add: root_fields_def)+
  then show ?thesis using z t unfolding Let_def layout_defs by simp
qed

lemma slice_at_blit: "off + length src \<le> length dst \<Longrightarrow> n = length src \<Longrightarrow> slice off n (blit off src dst) = src"
  using slice_blit_same by blast

lemma entries_read:
  assumes "512 \<le> length d"
  shows "let r = blits root_entries d in
    be32_at r 0 = 1 \<and> slice 4 2 r = [46, 0] \<and> be32_at r 64 = 1 \<and> slice 68 3 r = [46, 46, 0] \<and>
    be32_at r 128 = 2 \<and> slice 132 11 r = [46, 98, 97, 100, 98, 108, 111, 99, 107, 115, 0]"
  using assms by (simp add: root_entries_def read_fields slice_at_blit Let_def)

subsection \<open>Properties\<close>

text \<open>The device \<^verbatim>\<open>mkfs\<close> leaves, in terms of its blocks and those of the device it found.\<close>

definition device_formatted :: "mkfs_env \<Rightarrow> configuration \<Rightarrow> (nat \<Rightarrow> bytes) \<Rightarrow> (nat \<Rightarrow> bytes) \<Rightarrow> bool" where
  "device_formatted env config old B \<longleftrightarrow>
    (be32_at (B 0) ASB_MAGIC = 0x13131313 \<and> be32_at (B 0) ASB_ZONE_SIZE = ZoneSize config \<and> be32_at (B 0) ASB_ROOT_INODE = 1 \<and>
     be32_at (B 0) ASB_INODE_BLOCKS = NumInodeEntryBlocks config \<and> be32_at (B 0) ASB_INODE_MAP_BLOCKS = 1 \<and>
     be32_at (B 0) ASB_BLOCK_MAP_BLOCKS = 1 \<and> be32_at (B 0) ASB_ALIGNMENT_NUM_BLOCKS = 1024) \<and>
    (\<forall>j < 8 * unat (BlockSize config). le_test_bit (B 1) j = (j \<le> 1 \<or> unat (NumZones config) \<le> j)) \<and>
    (\<forall>j < 8 * unat (BlockSize config). le_test_bit (B 2) j = (j \<le> 1 \<or> cfg_inodes config \<le> j)) \<and>
    (unat (be32_at (B 3) (64 + AI_ZONE_PTR 0)) = cfg_root config \<and> (\<forall>i \<in> {1..<9}. be32_at (B 3) (64 + AI_ZONE_PTR i) = 0) \<and>
     be32_at (B 3) (64 + AI_BLOCKS) = 1 \<and> be32_at (B 3) (64 + AI_SIZE) = 128 \<and> be32_at (B 3) (64 + AI_GID) = e_gid env \<and>
     be32_at (B 3) (64 + AI_UID) = e_uid env \<and> be32_at (B 3) (64 + AI_MODE) = 0x41ED \<and>
     be64_at (B 3) (64 + AI_CTIME) = e_time2 env) \<and>
    (be32_at (B (cfg_root config)) 0 = 1 \<and> slice 4 2 (B (cfg_root config)) = [46, 0] \<and>
     be32_at (B (cfg_root config)) 64 = 1 \<and> slice 68 3 (B (cfg_root config)) = [46, 46, 0] \<and>
     be32_at (B (cfg_root config)) 128 = 2 \<and>
     slice 132 11 (B (cfg_root config)) = [46, 98, 97, 100, 98, 108, 111, 99, 107, 115, 0]) \<and>
    (\<forall>n. n \<notin> {0, 1, 2, 3, cfg_root config} \<longrightarrow> B n = old n)"

lemma mkfs_formats:
  assumes args: "ParseArgs (DeviceSize dev) args = Inr config" and less: "unat (NumZones config) < 8 * unat (BlockSize config)"
  shows "\<exists>dev'. mkfs_main env args dev = Some (Ret (0, dev')) \<and>
    device_formatted env config (ReadBlock config dev) (ReadBlock config dev')"
proof -
  obtain k where ok: "cfg_ok config k" using parse_args_result(1) [OF args] by blast
  have maps: "NumInodeMapBlocks config = 1" "NumBlockAlignment config = 1024" using ok by (auto simp: cfg_ok_def)
  let ?v = "ReadBlock config dev"
  obtain dev' Z I rb where dev': "format_device env config dev = Some (Ret dev')" "unat rb = cfg_root config"
    "ReadBlock config dev' = formatted_blocks env config rb Z I ?v"
    and bits: "\<forall>j < 8 * unat (BlockSize config). le_test_bit Z j \<longleftrightarrow> j \<le> 1 \<or> unat (NumZones config) \<le> j"
      "\<forall>j < 8 * unat (BlockSize config). le_test_bit I j \<longleftrightarrow> j \<le> 1 \<or> cfg_inodes config \<le> j"
    using format_device_spec [OF ok less, of env dev] by blast
  have rb: "1024 < cfg_root config" by (rule cfg_root_ge [OF ok])
  have len: "512 \<le> length (?v n)" for n using cfg_bounds(1) [OF ok] by (simp add: ReadBlock_eq)
  have B: "ReadBlock config dev' 0 = blits (super_fields config @ [(8, be32_enc 1)]) (?v 0)" "ReadBlock config dev' 1 = Z"
    "ReadBlock config dev' 2 = I" "ReadBlock config dev' 3 = blits (root_fields env rb) (blit 120 (be64_enc (e_time1 env)) (?v 3))"
    "ReadBlock config dev' (cfg_root config) = blits root_entries (?v (cfg_root config))"
    using rb by (auto simp: dev' formatted_blocks_def)
  have len3: "512 \<le> length (blit 120 (be64_enc (e_time1 env)) (?v 3))" using len [of 3] by simp
  have "mkfs_main env args dev = Some (Ret (0, dev'))" by (simp add: mkfs_main_def args dev'(1))
  moreover have "\<forall>n. n \<notin> {0, 1, 2, 3, cfg_root config} \<longrightarrow> ReadBlock config dev' n = ?v n" by (simp add: dev' formatted_blocks_def)
  ultimately show ?thesis
    using super_read [OF len, of config 0] root_read [OF len3, of env rb] entries_read [OF len, of "cfg_root config"] bits maps dev'(2)
    unfolding Let_def B [symmetric] device_formatted_def by (intro exI [of _ dev']) (simp del: One_nat_def)
qed

text \<open>
  C14: how a run of \<^verbatim>\<open>mkfs\<close> ends. Arguments that raise an exception give exit code 1 and leave the device alone, and a division by zero
  in \<^verbatim>\<open>ParseArgs\<close> is a crash. With arguments \<^verbatim>\<open>ParseArgs\<close> accepts and fewer zones than the zone bitmap has bits, the exit code is 0 and the
  device is formatted: the super block has the fields of the configuration and root inode 1, the bitmaps have exactly the bits 0
  and 1 and the bits behind the last zone and the last inode set, the second inode record is the root directory with one zone, the root
  directory block starts with the three entries, and no other block changes. With as many zones as the bitmap has bits (there are never
  more), \<^verbatim>\<open>mkfs\<close> reads behind the bitmap.
\<close>

theorem mkfs_formats_device:
  "case ParseArgs (DeviceSize dev) args of
     Inl e \<Rightarrow> mkfs_main env args dev = Some (case e of Crash f \<Rightarrow> Fault f | _ \<Rightarrow> Ret (1, dev))
   | Inr config \<Rightarrow>
       if unat (NumZones config) < 8 * unat (BlockSize config) then
         \<exists>dev'. mkfs_main env args dev = Some (Ret (0, dev')) \<and>
           device_formatted env config (ReadBlock config dev) (ReadBlock config dev')
       else mkfs_main env args dev = Some (Fault OutOfBounds)"
proof (cases "ParseArgs (DeviceSize dev) args")
  case (Inl e)
  then show ?thesis by (cases e) (simp_all add: mkfs_main_def)
next
  case (Inr config)
  obtain k where ok: "cfg_ok config k" using parse_args_result(1) [OF Inr] by blast
  have "mkfs_main env args dev = Some (Fault OutOfBounds)" if "\<not> unat (NumZones config) < 8 * unat (BlockSize config)"
    using format_device_full_map [OF ok, of env dev] that ok Inr by (simp add: cfg_ok_def mkfs_main_def)
  then show ?thesis using mkfs_formats [OF Inr] Inr by simp
qed

lemma demo_device: "ParseArgs (DeviceSize (replicate 524288 0)) [''-s'', ''8192'', ''img''] = Inr demo_config"
  using demo_parse by (simp add: DeviceSize_def)

theorem mkfs_formats_device_witness:
  "\<exists>dev'. mkfs_main \<lparr>e_time1 = 7, e_time2 = 8, e_uid = 0, e_gid = 0\<rparr> [''-s'', ''8192'', ''img''] (replicate 524288 0) = Some (Ret (0, dev')) \<and>
     be32_at (ReadBlock demo_config dev' 0) ASB_ROOT_INODE = 1 \<and> unat (be32_at (ReadBlock demo_config dev' 3) (64 + AI_ZONE_PTR 0)) = 1026"
proof -
  have "unat (NumZones demo_config) < 8 * unat (BlockSize demo_config)" by (simp add: demo_config_def NumZones_def BlockSize_def)
  moreover have "cfg_root demo_config = 1026"
    by (simp add: demo_config_def cfg_root_def ZoneSize_def BlockSize_def NumInodeEntryBlocks_def align_up_def)
  ultimately show ?thesis
    using mkfs_formats_device [where dev = "replicate 524288 0" and args = "[''-s'', ''8192'', ''img'']"
        and env = "\<lparr>e_time1 = 7, e_time2 = 8, e_uid = 0, e_gid = 0\<rparr>"]
    unfolding demo_device by (auto simp: device_formatted_def)
qed

text \<open>
  C37: what \<^verbatim>\<open>AllocateZones\<close> does on a zone bitmap whose first free run goes from bit \<open>i\<close> up to bit \<open>j\<close>. A run that is long enough is
  taken: the zones from \<open>i\<close> on are marked and \<open>i\<close> is returned. Otherwise, with a used zone at \<open>j\<close>, the loop never ends: the
  search for a used zone starts at \<open>j\<close> again and again. When the run goes up to the end of the bitmap, the search reads behind it.
\<close>

theorem allocate_zones_outcomes:
  assumes "NumZoneMapBlocks (Config c) = 1" and "length (view c 1) = unat (BlockSize (Config c))" and "j < 4294967296"
    and "i < 8 * length (view c 1)" and "\<not> le_test_bit (view c 1) i" and "\<forall>k < i. le_test_bit (view c 1) k"
    and "i < j" and "\<forall>k. i \<le> k \<and> k < j \<longrightarrow> \<not> le_test_bit (view c 1) k" and "0 < unat zones"
  shows "(j < 8 * length (view c 1) \<and> le_test_bit (view c 1) j \<and> unat zones \<le> j - i \<longrightarrow>
      (\<exists>Z. AllocateZones zones c = Some (Ret (of_nat i, PutData 1 Z c)) \<and> length Z = length (view c 1) \<and>
        (\<forall>k < 8 * length (view c 1). le_test_bit Z k = (i \<le> k \<and> k < i + unat zones \<or> le_test_bit (view c 1) k)))) \<and>
    (j < 8 * length (view c 1) \<and> le_test_bit (view c 1) j \<and> j - i < unat zones \<longrightarrow> AllocateZones zones c = None) \<and>
    (j = 8 * length (view c 1) \<longrightarrow> AllocateZones zones c = Some (Fault OutOfBounds))"
  using allocate_zones_general [OF assms(1,2,4-9)] assms(3) by blast

text \<open>A bitmap of two bytes with the free run from bit 1 up to bit 4.\<close>

definition demo_zone_cache :: blocks_cache where
  "demo_zone_cache =
     \<lparr>c_config = demo_config\<lparr>m_zone_size := 2\<rparr>, c_dev = [], m_cache = [(1, [0x11, 0xFF])], c_held = {1}\<rparr>"

theorem allocate_zones_outcomes_witness:
  "(\<exists>Z. AllocateZones 2 demo_zone_cache = Some (Ret (1, PutData 1 Z demo_zone_cache)) \<and> le_test_bit Z 2 \<and> \<not> le_test_bit Z 3) \<and>
   AllocateZones 4 demo_zone_cache = None"
proof -
  let ?c = demo_zone_cache
  have v: "view ?c 1 = [0x11, 0xFF]" by (simp add: view_def demo_zone_cache_def)
  have cfg: "NumZoneMapBlocks (Config ?c) = 1" "length (view ?c 1) = unat (BlockSize (Config ?c))"
    unfolding v by (simp_all add: demo_zone_cache_def Config_def demo_config_def NumZoneMapBlocks_def BlockSize_def)
  have ex: "k = 1 \<or> k = 2 \<or> k = 3" if "1 \<le> k" "k < 4" for k :: nat using that by linarith
  have bits: "\<not> le_test_bit [0x11, 0xFF] 1" "\<not> le_test_bit [0x11, 0xFF] 2" "\<not> le_test_bit [0x11, 0xFF] 3"
    "le_test_bit [0x11, 0xFF] 0" "le_test_bit [0x11, 0xFF] 4" by (simp_all add: le_test_bit_def)
  have run: "\<forall>k. 1 \<le> k \<and> k < 4 \<longrightarrow> \<not> le_test_bit (view ?c 1) k" unfolding v using ex bits by metis
  have low: "\<forall>k < 1. le_test_bit (view ?c 1) k" unfolding v using bits by simp
  have len: "length (view ?c 1) = 2" unfolding v by simp
  have at: "(4 :: nat) < 8 * length (view ?c 1)" "le_test_bit (view ?c 1) 4" "(1 :: nat) < 8 * length (view ?c 1)" "\<not> le_test_bit (view ?c 1) 1"
    unfolding len unfolding v using bits by simp_all
  note out = allocate_zones_outcomes [OF cfg _ at(3,4) low _ run]
  have "unat (2 :: u64) \<le> 4 - 1" "4 - 1 < unat (4 :: u64)" by simp_all
  then have 1: "\<exists>Z. AllocateZones 2 ?c = Some (Ret (of_nat 1, PutData 1 Z ?c)) \<and> length Z = length (view ?c 1) \<and>
        (\<forall>k < 8 * length (view ?c 1). le_test_bit Z k = (1 \<le> k \<and> k < 1 + unat (2 :: u64) \<or> le_test_bit (view ?c 1) k))"
    and 2: "AllocateZones 4 ?c = None"
    using out [of 2, THEN conjunct1] out [of 4, THEN conjunct2, THEN conjunct1] at(1,2) by (simp, simp)
  then obtain Z where Z: "AllocateZones 2 ?c = Some (Ret (1, PutData 1 Z ?c))"
    "\<forall>k < 8 * 2. le_test_bit Z k = (1 \<le> k \<and> k < 1 + unat (2 :: u64) \<or> le_test_bit (view ?c 1) k)"
    unfolding len of_nat_1 by blast
  have "le_test_bit Z 2" "\<not> le_test_bit Z 3" using spec [OF Z(2), of 2] spec [OF Z(2), of 3] bits(3) v by simp_all
  then show ?thesis using Z(1) 2 by blast
qed

end
