(* ===== verification/Mkfs_Mount.thy ===== *)
theory Mkfs_Mount
  imports Kern_Super Mkfs_Format
begin

text \<open>
  The formatter and the kernel module together: a device that \<^verbatim>\<open>mkfs\<close> wrote, with zones from 4096 bytes up to \<open>2 ^ 27\<close> and a zeroed inode
  table, mounts, and the mounted file system satisfies the ownership invariant of \<^verbatim>\<open>Zone_Ownership\<close>, from which the properties of the
  module follow.
\<close>

subsection \<open>The state after reading the bitmaps of a formatted device\<close>

definition mounted_on :: "configuration \<Rightarrow> fs \<Rightarrow> bool" where
  "mounted_on config st \<longleftrightarrow>
     s_blocksize st = 4096 \<and> asb_ok (AUFS_SB st) \<and> geometry_ok st \<and> s_zmap (AUFS_SB st) = [1] \<and> s_imap (AUFS_SB st) = [2] \<and>
     unat (asb_zone_map_blocks (AUFS_SB st)) = 1 \<and> unat (asb_inode_map_blocks (AUFS_SB st)) = 1 \<and>
     unat (asb_inode_blocks (AUFS_SB st)) = unat (NumInodeEntryBlocks config) \<and>
     unat (asb_alignment_num_blocks (AUFS_SB st)) = 1024 \<and>
     unat (asb_blocks_per_zone (AUFS_SB st)) = unat (ZoneSize config) div 4096 \<and>
     length (b_data st 1) = 4096 \<and> length (b_data st 2) = 4096 \<and>
     (\<forall>j < 32768. le_test_bit (b_data st 1) j \<longleftrightarrow> j \<le> 1 \<or> unat (NumZones config) \<le> j) \<and>
     (\<forall>j < 32768. le_test_bit (b_data st 2) j \<longleftrightarrow> j \<le> 1 \<or> cfg_inodes config \<le> j) \<and>
     (\<forall>no i. 0 < no \<longrightarrow> no < 64 * unat (NumInodeEntryBlocks config) \<longrightarrow> i < ZONE_PTR_IN_INODE_NUM \<longrightarrow>
        disk_zone st no i = (if no = 1 \<and> i = 0 then cfg_root config else 0)) \<and>
     icache st = Map.empty"

lemma big_zones:
  assumes "cfg_ok config k" and "12 \<le> k" and "k \<le> 27"
  shows "unat (BlockSize config) = 4096" and "cfg_inodes config = 64 * unat (NumInodeEntryBlocks config)"
    and "unat (NumInodeEntryBlocks config) \<le> 512" and "unat (ZoneSize config) div 4096 \<le> 32768"
    and "cfg_root config = unat (ZoneSize config) div 4096 + align_up (3 + unat (NumInodeEntryBlocks config)) 1024"
    and "0 < unat (ZoneSize config) div 4096"
proof -
  show b: "unat (BlockSize config) = 4096" using assms by (simp add: cfg_ok_def min_def)
  have e: "unat (NumInodeEntryBlocks config) = (unat (NumZones config) + 63) div 64" and nz: "unat (NumZones config) \<le> 32768"
    using assms min_absorb2 [OF assms(2)] by (auto simp: cfg_ok_def)
  show e512: "unat (NumInodeEntryBlocks config) \<le> 512" unfolding e using nz by simp
  then show "cfg_inodes config = 64 * unat (NumInodeEntryBlocks config)" by (simp add: cfg_inodes_def b)
  have "unat (ZoneSize config) = 2 ^ k" using assms(1) by (simp add: cfg_ok_def)
  also have "\<dots> \<le> 2 ^ 27" using assms(3) by (intro power_increasing) simp_all
  finally show "unat (ZoneSize config) div 4096 \<le> 32768" by simp
  show "cfg_root config = unat (ZoneSize config) div 4096 + align_up (3 + unat (NumInodeEntryBlocks config)) 1024"
    by (simp add: cfg_root_def b)
  show "0 < unat (ZoneSize config) div 4096" using cfg_bounds(9) [OF assms(1)] by (simp add: b)
qed

lemma mounted_placement:
  assumes ok: "cfg_ok config k" "12 \<le> k" "k \<le> 27" and m: "mounted_on config st"
  shows "placement_ok (cfg_root config) (AUFS_SB st) (n_zones st)"
proof -
  let ?q = "unat (ZoneSize config) div 4096" and ?e = "unat (NumInodeEntryBlocks config)"
  have n: "n_zones st = 32768" using m by (simp add: mounted_on_def n_zones_def zone_bits_def)
  have meta: "meta_end (AUFS_SB st) = 3 + ?e" and d: "data_start (AUFS_SB st) = align_up (3 + ?e + ?q) 1024"
    and bpz: "unat (asb_blocks_per_zone (AUFS_SB st)) = ?q"
    using m by (simp_all add: mounted_on_def meta_end_def data_start_def numeral_3_eq_3)
  note b = big_zones [OF ok]
  have a1: "3 + ?e \<le> align_up (3 + ?e) 1024" by (rule align_up_ge) simp
  have a2: "align_up (3 + ?e) 1024 \<le> align_up (3 + ?e + ?q) 1024" by (rule align_up_mono) simp
  have a3: "align_up (3 + ?e + ?q) 1024 < 3 + ?e + ?q + 1024" by (rule align_up_less) simp
  have "32768 * ?q \<le> 32768 * 32768" using b(4) by (intro mult_le_mono) simp_all
  then show ?thesis unfolding placement_ok_def zone_start_def n meta d bpz b(5) using a1 a2 a3 b(3,4) by linarith
qed

lemma mounted_used:
  assumes m: "mounted_on config st"
  shows "used_zones le_bitops st = {j. j < 32768 \<and> (j \<le> 1 \<or> unat (NumZones config) \<le> j)}"
    and "used_inodes le_bitops st = {j. j < 32768 \<and> (j \<le> 1 \<or> cfg_inodes config \<le> j)}"
    and "maps_ok st" and "n_inodes st = 32768" and "zone_bits st = 32768"
proof -
  show z: "zone_bits st = 32768" "n_inodes st = 32768" using m by (simp_all add: mounted_on_def zone_bits_def n_inodes_def)
  have maps: "s_zmap (AUFS_SB st) = [1]" "s_imap (AUFS_SB st) = [2]" and len: "length (b_data st 1) = 4096" "length (b_data st 2) = 4096"
    and bits: "\<forall>j < 32768. le_test_bit (b_data st 1) j \<longleftrightarrow> j \<le> 1 \<or> unat (NumZones config) \<le> j"
      "\<forall>j < 32768. le_test_bit (b_data st 2) j \<longleftrightarrow> j \<le> 1 \<or> cfg_inodes config \<le> j"
    using m by (auto simp: mounted_on_def)
  show "used_zones le_bitops st = {j. j < 32768 \<and> (j \<le> 1 \<or> unat (NumZones config) \<le> j)}"
    unfolding used_zones_def z(1) maps area_used_def using bits(1) by (auto simp: le_bitops_def)
  show "used_inodes le_bitops st = {j. j < 32768 \<and> (j \<le> 1 \<or> cfg_inodes config \<le> j)}"
    unfolding used_inodes_def z(1) maps area_used_def using bits(2) by (auto simp: le_bitops_def)
  have "area_ok st [1] 32768" "area_ok st [2] 32768" using len by (simp_all add: area_ok_def map_ok_def)
  then show "maps_ok st" using m maps z(1) by (auto simp: maps_ok_def mounted_on_def)
qed

lemma mounted_own_inv:
  assumes ok: "cfg_ok config k" "12 \<le> k" "k \<le> 27" and m: "mounted_on config st"
  shows "own_inv le_bitops (cfg_root config) st" and "1 \<in> live_inodes le_bitops st"
proof -
  let ?e = "unat (NumInodeEntryBlocks config)" and ?rb = "cfg_root config"
  note b = big_zones [OF ok] and u = mounted_used [OF m]
  have f: "s_zmap (AUFS_SB st) = [1]" "s_imap (AUFS_SB st) = [2]" "unat (asb_zone_map_blocks (AUFS_SB st)) = 1"
    "unat (asb_inode_map_blocks (AUFS_SB st)) = 1" "geometry_ok st" "icache st = Map.empty"
    and cap: "inode_cap (AUFS_SB st) = 64 * ?e"
    and dz: "\<And>no i. 0 < no \<Longrightarrow> no < 64 * ?e \<Longrightarrow> i < ZONE_PTR_IN_INODE_NUM \<Longrightarrow> disk_zone st no i = (if no = 1 \<and> i = 0 then ?rb else 0)"
    using m by (auto simp: mounted_on_def inode_cap_def)
  have "4 \<le> 64 * ?e" using cfg_bounds(11) [OF ok(1)] b(2) by simp
  then have live: "live_inodes le_bitops st = {1}" unfolding live_inodes_def u(2) cap b(2) using b(3) by auto
  have "layout_inv le_bitops ?rb st"
    unfolding layout_inv_def u(1,2,4) cap b(2) f(1-4) using mounted_placement [OF ok m] u(3) f(5) by (auto simp: upt_rec)
  moreover have "cache_inv le_bitops st" using f(6) by (simp add: cache_inv_def)
  moreover have "blank_inv le_bitops st"
    unfolding blank_inv_def cap u(2) using dz b(2,3) by auto
  moreover have zo: "zone_of st 1 i = (if i = 0 then ?rb else 0)" if "i < ZONE_PTR_IN_INODE_NUM" for i
    using dz [of 1 i] that f(6) \<open>4 \<le> 64 * ?e\<close> by (simp add: zone_of_def)
  have "owner_inv le_bitops ?rb st"
    unfolding owner_inv_def live u(1) using zo by (auto simp: zone_loc_def image_iff split: if_splits)
  ultimately show "own_inv le_bitops ?rb st" by (simp add: own_inv_def)
  show "1 \<in> live_inodes le_bitops st" using live by simp
qed


subsection \<open>The inode table of a formatted device\<close>

lemma blits_frame:
  assumes "\<forall>(o', s) \<in> set l. o' + length s \<le> length d \<and> (o' + length s \<le> off \<or> off + 4 \<le> o')" and "off + 4 \<le> length d"
  shows "be32_at (blits l d) off = be32_at d off"
  using assms
proof (induction l rule: rev_induct)
  case (snoc e l)
  obtain o' s where e: "e = (o', s)" by fastforce
  have "length (blits l d) = length d" using snoc.prems(1) by (intro length_blits) auto
  then show ?case using snoc e by (auto simp: blits_append be32_at_blit_other)
qed simp

lemma be32_at_zeros: "off + 4 \<le> n \<Longrightarrow> be32_at (replicate n 0) off = 0"
  by (simp add: be32_at_def word32_of_bytes_def)

text \<open>Blocks of the inode table: the record of inode 1 is in block 3, everything else is as it was.\<close>

lemma formatted_record:
  assumes ok: "cfg_ok config k" "12 \<le> k" "k \<le> 27"
    and B: "B = formatted_blocks env config rb Z I old" "unat rb = cfg_root config"
    and zero: "\<And>n. 3 \<le> n \<Longrightarrow> n < 3 + unat (NumInodeEntryBlocks config) \<Longrightarrow> old n = replicate 4096 0"
    and no: "0 < no" "no < 64 * unat (NumInodeEntryBlocks config)" "i < 9"
  shows "unat (be32_at (B (3 + no div 64)) (64 * (no mod 64) + 4 * i)) = (if no = 1 \<and> i = 0 then cfg_root config else 0)"
proof -
  let ?e = "unat (NumInodeEntryBlocks config)"
  note b = big_zones [OF ok]
  have blk: "no div 64 < ?e" using no(2) by (simp add: less_mult_imp_div_less mult.commute)
  have "3 + ?e \<le> align_up (3 + ?e) 1024" by (rule align_up_ge) simp
  then have rb: "3 + no div 64 < cfg_root config" using b(5) blk by linarith
  have r: "no mod 64 < 64" by simp
  have old: "old (3 + no div 64) = replicate 4096 0" using blk by (intro zero) simp_all
  show ?thesis
  proof (cases "no div 64 = 0")
    case False
    then have "B (3 + no div 64) = replicate 4096 0" using B rb old by (simp add: formatted_blocks_def)
    moreover have "64 * (no mod 64) + 4 * i + 4 \<le> 4096" using r no(3) by linarith
    moreover have "no \<noteq> 1" using False by auto
    ultimately show ?thesis by (simp add: be32_at_zeros)
  next
    case True
    then have m: "no mod 64 = no" "no < 64" using r by (auto simp: div_eq_0_iff)
    let ?d = "blit 120 (be64_enc (e_time1 env)) (replicate 4096 (0 :: u8))"
    have B3: "B (3 + no div 64) = blits (root_fields env rb) ?d" using True B rb old by (simp add: formatted_blocks_def)
    show ?thesis
    proof (cases "no = 1")
      case one: True
      have "512 \<le> length ?d" by simp
      note f = root_read [OF this, of env rb, unfolded Let_def layout_defs]
      show ?thesis
      proof (cases "i = 0")
        case False
        then have "i \<in> {1..<9}" using no(3) by simp
        then have "be32_at (blits (root_fields env rb) ?d) (64 + 4 * i) = 0" using f by blast
        then show ?thesis using False one B3 by simp
      qed (use f one B3 B(2) in simp)
    next
      case False
      let ?off = "64 * no + 4 * i"
      have out: "?off + 4 \<le> 64 \<or> 128 \<le> ?off" "?off + 4 \<le> 4096" using False no m by linarith+
      have "be32_at (blits (root_fields env rb) ?d) ?off = be32_at ?d ?off"
        using out by (intro blits_frame) (auto simp: root_fields_def)
      also have "\<dots> = be32_at (replicate 4096 0) ?off" using out by (intro be32_at_blit_other) auto
      finally show ?thesis using out False B3 m(1) by (simp add: be32_at_zeros)
    qed
  qed
qed


subsection \<open>Mounting\<close>

text \<open>The kernel functions of a mount that meets no failure, on a device whose blocks are \<open>B\<close>.\<close>

definition kernel_serves :: "kapi \<Rightarrow> mount_api \<Rightarrow> (nat \<Rightarrow> bytes) \<Rightarrow> mount \<Rightarrow> bool" where
  "kernel_serves k a B m \<longleftrightarrow>
     k_bits k = le_bitops \<and> (\<forall>b. k_bread k b) \<and> (\<forall>n. k_iget k n \<noteq> None) \<and> ma_alloc_asb a \<and> (\<forall>n. ma_alloc_map a n) \<and>
     (\<forall>st. ma_set_blocksize a 4096 st \<noteq> None) \<and> (\<forall>r. ma_make_root a r) \<and>
     s_blocksize (m_fs m) = 4096 \<and> icache (m_fs m) = Map.empty \<and> b_data (m_fs m) = B"

definition super_ok :: "configuration \<Rightarrow> bytes \<Rightarrow> bool" where
  "super_ok config s \<longleftrightarrow>
     28 \<le> length s \<and> be32_at s 0 = 0x13131313 \<and> be32_at s 4 = ZoneSize config \<and> be32_at s 8 = 1 \<and>
     be32_at s 12 = NumInodeEntryBlocks config \<and> be32_at s 16 = 1 \<and> be32_at s 20 = 1 \<and> be32_at s 24 = 1024"

lemma mount_reads_super:
  assumes serves: "kernel_serves k a B m" and super: "super_ok config (B 0)"
  defines "asb \<equiv> (disk_asb m)\<lparr>s_zmap := [1], s_imap := [2], s_sbh := 0\<rparr>"
  shows "\<exists>m1. aufs_super_block_read k a m = Ret (Some asb, m1) \<and>
    m_fs m1 = put_buffer 2 (le_assign_bit True 0 (B 2)) (put_buffer 1 (le_assign_bit True 0 (B 1)) (m_fs m))"
proof -
  have B: "b_data (m_fs m) = B" using serves by (simp add: kernel_serves_def)
  have dims: "map_blocks_of m = (1, 1)" using super B by (simp add: map_blocks_of_def super_ok_def)
  have pre: "read_prereq k a m" using serves super B by (simp add: read_prereq_def kernel_serves_def super_ok_def)
  have all: "\<not> (\<exists>b \<in> {1..<1 + 1 + 1}. \<not> k_bread k b)" using serves by (simp add: kernel_serves_def)
  let ?m = "refs_plus {1..<1 + 1 + 1} 1 (m\<lparr>m_asb_mem := True, m_map_mem := True\<rparr>)" and ?asb = "(disk_asb m)\<lparr>s_sbh := 0\<rparr>"
  have z: "1 = unat (asb_zone_map_blocks ?asb)" using super B by (simp add: super_ok_def)
  have magic: "\<not> asb_magic ?asb \<noteq> AUFS_MAGIC" using super B by (simp add: super_ok_def AUFS_MAGIC_def)
  have set: "set_map_bit (k_bits k) = le_assign_bit True" using serves by (simp add: kernel_serves_def le_bitops_def)
  have "aufs_super_block_read k a m = super_block_finish k ?asb [1..<1 + 1 + 1] ?m"
    using super_block_read_eq [OF pre dims] all by (simp only: if_False)
  also have "\<dots> = Ret (Some asb, ?m\<lparr>m_fs := put_buffer 2 (le_assign_bit True 0 (B 2)) (put_buffer 1 (le_assign_bit True 0 (B 1)) (m_fs m))\<rparr>)"
    using super_block_finish_eq [OF z, of k 1 ?m] magic
    by (simp add: Let_def asb_def set B upt_rec numeral_2_eq_2 del: disk_asb_sel)
  finally show ?thesis by simp
qed

lemma mounted_after_read:
  assumes ok: "cfg_ok config k'" "12 \<le> k'" "k' \<le> 27" and serves: "kernel_serves k a B m" and super: "super_ok config (B 0)"
    and B: "B = formatted_blocks env config rb Z I old" "unat rb = cfg_root config"
    and zero: "\<And>n. 3 \<le> n \<Longrightarrow> n < 3 + unat (NumInodeEntryBlocks config) \<Longrightarrow> old n = replicate 4096 0"
    and len: "length Z = 4096" "length I = 4096"
    and bits: "\<forall>j < 32768. le_test_bit Z j \<longleftrightarrow> j \<le> 1 \<or> unat (NumZones config) \<le> j"
      "\<forall>j < 32768. le_test_bit I j \<longleftrightarrow> j \<le> 1 \<or> cfg_inodes config \<le> j"
    and asb: "asb = (disk_asb m)\<lparr>s_zmap := [1], s_imap := [2], s_sbh := 0\<rparr>"
    and st: "st = (put_buffer 2 (le_assign_bit True 0 (B 2)) (put_buffer 1 (le_assign_bit True 0 (B 1)) (m_fs m)))\<lparr>s_fs_info := asb\<rparr>"
  shows "mounted_on config st"
proof -
  note b = big_zones [OF ok]
  have fs: "b_data (m_fs m) = B" "s_blocksize (m_fs m) = 4096" "icache (m_fs m) = Map.empty" using serves by (auto simp: kernel_serves_def)
  have rb: "1024 < cfg_root config" by (rule cfg_root_ge [OF ok(1)])
  have B12: "B 1 = Z" "B 2 = I" using B rb by (simp_all add: formatted_blocks_def)
  have sb: "AUFS_SB st = asb" by (simp add: AUFS_SB_def st)
  have zs: "4096 \<le> unat (ZoneSize config)" "4096 dvd unat (ZoneSize config)" using cfg_bounds(6,8) [OF ok(1)] b(1) by auto
  have bpz: "unat (asb_blocks_per_zone asb) = unat (ZoneSize config) div 4096"
  proof (cases "4096 < unat (ZoneSize config)")
    case True
    then show ?thesis using super fs(1) by (simp add: asb super_ok_def word_less_nat_alt unat_div)
  next
    case False
    then have "unat (ZoneSize config) = 4096" using zs(1) by simp
    then show ?thesis using super fs(1) by (simp add: asb super_ok_def word_less_nat_alt)
  qed
  have fields: "unat (asb_zone_map_blocks asb) = 1" "unat (asb_inode_map_blocks asb) = 1" "asb_inodes_in_block asb = 64"
    "unat (asb_inode_blocks asb) = unat (NumInodeEntryBlocks config)" "unat (asb_alignment_num_blocks asb) = 1024"
    "unat (asb_zone_size asb) = unat (ZoneSize config)" "s_zmap asb = [1]" "s_imap asb = [2]"
    using super fs(1) by (simp_all add: asb super_ok_def)
  have "asb_ok asb" unfolding asb_ok_def fields bpz using b(3,4,6) by simp
  moreover have "geometry_ok st"
    unfolding geometry_ok_def sb fields bpz using zs(2) b(6) fs(2) unat_u32_less [of "ZoneSize config"] by (simp add: st)
  moreover have data: "b_data st n = (if n = 2 then le_assign_bit True 0 I else if n = 1 then le_assign_bit True 0 Z else B n)" for n
    using B12 by (simp add: st fs(1))
  moreover have "disk_zone st no i = (if no = 1 \<and> i = 0 then cfg_root config else 0)"
    if "0 < no" "no < 64 * unat (NumInodeEntryBlocks config)" "i < ZONE_PTR_IN_INODE_NUM" for no i
  proof -
    have "inode_blk asb no = 3 + no div 64" by (simp add: inode_blk_def fields)
    then show ?thesis
      using formatted_record [OF ok B zero that(1,2), of i] that(3)
      by (simp add: disk_zone_def sb data inode_off_def ZONE_PTR_IN_INODE_NUM_def)
  qed
  moreover have "\<forall>j < 32768. le_test_bit (le_assign_bit True 0 Z) j \<longleftrightarrow> j \<le> 1 \<or> unat (NumZones config) \<le> j"
    "\<forall>j < 32768. le_test_bit (le_assign_bit True 0 I) j \<longleftrightarrow> j \<le> 1 \<or> cfg_inodes config \<le> j"
    using bits len by (auto simp: le_test_assign)
  moreover have "s_blocksize st = 4096" "icache st = Map.empty" by (simp_all add: st fs)
  ultimately show ?thesis unfolding mounted_on_def sb fields bpz data using len by simp
qed


lemma mount_block_size:
  assumes "4096 \<le> unat (zs :: u32)"
  shows "scast ((if 4096 < (ucast zs :: u64) then 4096 else ucast (ucast zs :: u64)) :: u32) = (4096 :: u64)"
proof (cases "4096 < unat zs")
  case False
  then have "zs = 4096" using assms by (simp add: word_unat_eq_iff)
  then show ?thesis by simp
qed (simp add: word_less_nat_alt)

text \<open>Loading the root inode \<^verbatim>\<open>mkfs\<close> has written.\<close>

lemma root_inode_get:
  assumes serves: "kernel_serves k a B m" and mo: "mounted_on config st" and ic: "icache st = Map.empty"
    and maps: "unat (asb_zone_map_blocks (AUFS_SB st)) = 1" "unat (asb_inode_map_blocks (AUFS_SB st)) = 1"
    and d3: "b_data st 3 = blits (root_fields env rb) (blit 120 (be64_enc t) (replicate 4096 0))"
  obtains ai where "aufs_inode_get k 1 st = Ret (Inr 1, put_inode 1 ai st)" and "i_size ai = 128" and "i_mode ai = 0x41ED"
    and "unat (ai_zone_ptr ai ! 0) = unat rb"
proof -
  let ?d = "blit 120 (be64_enc t) (replicate 4096 (0 :: u8))"
  obtain new where new: "k_iget k 1 = Some new" using serves by (force simp: kernel_serves_def)
  let ?ai = "aufs_inode_fill new (read_disk_inode (b_data st 3) 64)"
  have blk: "inode_blk (AUFS_SB st) 1 = 3" "inode_off 1 = 64" using maps by (simp_all add: inode_blk_def inode_off_def)
  have "length (blits (root_fields env rb) ?d) = length ?d" by (rule length_blits) (simp add: root_fields_def)
  then have l3: "length (b_data st 3) = 4096" unfolding d3 by simp
  have "512 \<le> length ?d" by simp
  note rec = root_read [OF this, of env rb, unfolded Let_def layout_defs, folded d3]
  have ai: "i_size ?ai = 128" "i_mode ?ai = 0x41ED" using rec by (simp_all add: aufs_inode_fill_def read_disk_inode_def)
  have zone: "unat (ai_zone_ptr ?ai ! 0) = unat rb"
    using rec fill_disk_zones(2) [of 0 new "b_data st 3" 64] by (simp add: ZONE_PTR_IN_INODE_NUM_def)
  have dir: "S_ISDIR (i_mode ?ai)" "\<not> S_ISREG (i_mode ?ai)" unfolding ai(2) by code_simp+
  have "aufs_inode_get k (of_nat 1) st = Ret (Inr 1, put_inode 1 (ops_for (?ai\<lparr>i_ino := of_nat 1\<rparr>)) st)"
    by (rule inode_get_miss [where new = new])
      (use mo new serves ic l3 dir blk in \<open>simp_all add: mounted_on_def kernel_serves_def\<close>)
  then have "aufs_inode_get k 1 st = Ret (Inr 1, put_inode 1 (ops_for (?ai\<lparr>i_ino := 1\<rparr>)) st)" by simp
  then show ?thesis by (rule that) (use ai zone dir(2) in \<open>simp_all add: ops_for_def\<close>)
qed

lemma fill_sb_formatted:
  assumes mk: "mount_kernel a" and ok: "cfg_ok config k'" "12 \<le> k'" "k' \<le> 27"
    and serves: "kernel_serves k a B m" and super: "super_ok config (B 0)"
    and B: "B = formatted_blocks env config rb Z I old" "unat rb = cfg_root config"
    and zero: "\<And>n. 3 \<le> n \<Longrightarrow> n < 3 + unat (NumInodeEntryBlocks config) \<Longrightarrow> old n = replicate 4096 0"
    and len: "length Z = 4096" "length I = 4096"
    and bits: "\<forall>j < 32768. le_test_bit Z j \<longleftrightarrow> j \<le> 1 \<or> unat (NumZones config) \<le> j"
      "\<forall>j < 32768. le_test_bit I j \<longleftrightarrow> j \<le> 1 \<or> cfg_inodes config \<le> j"
  shows "\<exists>m' ai. aufs_fill_sb k a m = Ret (0, m') \<and> own_inv le_bitops (cfg_root config) (m_fs m') \<and> m_root m' = Some 1 \<and>
    icache (m_fs m') = [1 \<mapsto> ai] \<and> i_size ai = 128 \<and> i_mode ai = 0x41ED \<and> pages (m_fs m') = pages (m_fs m) \<and>
    s_blocksize (m_fs m') = 4096 \<and> unat (ai_zone_ptr ai ! 0) = cfg_root config"
proof -
  let ?asb = "(disk_asb m)\<lparr>s_zmap := [1], s_imap := [2], s_sbh := 0\<rparr>"
  obtain m1 where r: "aufs_super_block_read k a m = Ret (Some ?asb, m1)"
    "m_fs m1 = put_buffer 2 (le_assign_bit True 0 (B 2)) (put_buffer 1 (le_assign_bit True 0 (B 1)) (m_fs m))"
    using mount_reads_super [OF serves super] by blast
  let ?st = "(m_fs m1)\<lparr>s_fs_info := ?asb\<rparr>"
  have mo: "mounted_on config ?st" using mounted_after_read [OF ok serves super B zero len bits refl refl] r(2) by simp
  note own = mounted_own_inv [OF ok mo]
  have fs: "b_data (m_fs m) = B" "s_blocksize ?st = 4096" "icache ?st = Map.empty" using serves r(2) by (auto simp: kernel_serves_def)
  have zs: "4096 \<le> unat (ZoneSize config)" using cfg_bounds(8) [OF ok(1)] big_zones(1) [OF ok] by simp
  have fields: "asb_zone_size ?asb = ucast (ZoneSize config)" "asb_root_inode ?asb = 1"
    "unat (asb_zone_map_blocks ?asb) = 1" "unat (asb_inode_map_blocks ?asb) = 1" using super fs(1) by (simp_all add: super_ok_def)
  note size = mount_block_size [OF zs, folded fields(1)]
  have "ma_set_blocksize a 4096 ?st \<noteq> None" using serves by (simp add: kernel_serves_def)
  then obtain st where "ma_set_blocksize a 4096 ?st = Some st" by blast
  moreover from this have "st = ?st" using mount_kernel.set_blocksize_same [OF mk, of ?st st] fs(2) by simp
  ultimately have bsz: "ma_set_blocksize a 4096 ?st = Some ?st" by simp
  have e: "0 < unat (NumInodeEntryBlocks config)"
    using cfg_bounds(11) [OF ok(1)] big_zones(2) [OF ok] by (cases "unat (NumInodeEntryBlocks config)") simp_all
  have d3: "b_data ?st 3 = blits (root_fields env rb) (blit 120 (be64_enc (e_time1 env)) (replicate 4096 0))"
    using cfg_root_ge [OF ok(1)] zero [of 3] e B r(2) fs(1) by (simp add: formatted_blocks_def)
  have sb: "unat (asb_zone_map_blocks (AUFS_SB ?st)) = 1" "unat (asb_inode_map_blocks (AUFS_SB ?st)) = 1"
    using fields by (simp_all add: AUFS_SB_def)
  obtain ai where get: "aufs_inode_get k 1 ?st = Ret (Inr 1, put_inode 1 ai ?st)" and ai: "i_size ai = 128" "i_mode ai = 0x41ED" "unat (ai_zone_ptr ai ! 0) = cfg_root config"
    by (rule root_inode_get [OF serves mo fs(3) sb d3, unfolded B(2)])
  let ?m' = "m1\<lparr>m_info := Live ?asb, m_fs := put_inode 1 ai ?st, m_root := Some 1\<rparr>"
  have "aufs_fill_sb k a m = Ret (0, ?m')"
    using serves get bsz unfolding aufs_fill_sb_def r(1) sum.case prod.case option.case Let_def size fields(2)
    by (simp add: kernel_serves_def)
  moreover have "own_inv le_bitops (cfg_root config) (m_fs ?m')"
    using inode_get_own_inv [OF own, of k "Inr 1"] get by simp
  moreover have "pages (m_fs ?m') = pages (m_fs m)" "s_blocksize (m_fs ?m') = 4096" using fs(2) by (simp_all add: r(2))
  moreover have "icache (m_fs ?m') = [1 \<mapsto> ai]" using fs(3) by simp
  ultimately show ?thesis using ai by (intro exI [of _ ?m'] exI [of _ ai]) simp
qed


lemma formatted_super:
  assumes ok: "cfg_ok config k" and B: "B = formatted_blocks env config rb Z I (ReadBlock config dev)" "unat rb = cfg_root config"
  shows "super_ok config (B 0)"
proof -
  have len: "512 \<le> length (ReadBlock config dev 0)" using cfg_bounds(1) [OF ok] by (simp add: ReadBlock_eq)
  let ?l = "super_fields config @ [(8, be32_enc 1)]"
  have "length (blits ?l (ReadBlock config dev 0)) = length (ReadBlock config dev 0)"
    using len by (intro length_blits) (auto simp: super_fields_def)
  moreover have "B 0 = blits ?l (ReadBlock config dev 0)" using B cfg_root_ge [OF ok] by (simp add: formatted_blocks_def)
  ultimately show ?thesis
    using super_read [OF len, of config] len ok by (auto simp: super_ok_def Let_def layout_defs cfg_ok_def)
qed

lemma mkfs_mount:
  assumes args: "ParseArgs (DeviceSize dev) args = Inr config" and less: "unat (NumZones config) < 8 * unat (BlockSize config)"
    and zs: "4096 \<le> unat (ZoneSize config)" "unat (ZoneSize config) \<le> 134217728"
    and zero: "\<forall>n. 3 \<le> n \<and> n < 3 + unat (NumInodeEntryBlocks config) \<longrightarrow> ReadBlock config dev n = replicate 4096 0"
    and run: "mkfs_main env args dev = Some (Ret (0, dev'))"
    and mk: "mount_kernel a" and serves: "kernel_serves k a (ReadBlock config dev') m"
  shows "\<exists>m' ai. aufs_fill_sb k a m = Ret (0, m') \<and> own_inv le_bitops (cfg_root config) (m_fs m') \<and> m_root m' = Some 1 \<and>
    icache (m_fs m') = [1 \<mapsto> ai] \<and> i_size ai = 128 \<and> i_mode ai = 0x41ED \<and> pages (m_fs m') = pages (m_fs m) \<and>
    s_blocksize (m_fs m') = 4096 \<and> unat (ai_zone_ptr ai ! 0) = cfg_root config"
    and "ReadBlock config dev' (cfg_root config) = blits root_entries (ReadBlock config dev (cfg_root config))"
    and "unat (BlockSize config) = 4096"
proof -
  obtain k' where ok: "cfg_ok config k'" using parse_args_result(1) [OF args] by blast
  then have p: "unat (ZoneSize config) = 2 ^ k'" by (simp add: cfg_ok_def)
  have "2 ^ 12 \<le> (2 :: nat) ^ k'" "(2 :: nat) ^ k' \<le> 2 ^ 27" using zs p by simp_all
  then have k': "12 \<le> k'" "k' \<le> 27" by (simp_all only: power_increasing_iff one_less_numeral_iff semiring_norm)
  have f: "format_device env config dev = Some (Ret dev')"
    using run args by (auto simp: mkfs_main_def split: option.splits sum.splits)
  note b = big_zones(1) [OF ok k']
  then show "unat (BlockSize config) = 4096" .
  obtain Z I rb where rb: "unat rb = cfg_root config"
    and B: "ReadBlock config dev' = formatted_blocks env config rb Z I (ReadBlock config dev)"
    and len: "length Z = 4096" "length I = 4096"
    and bits: "\<forall>j < 32768. le_test_bit Z j \<longleftrightarrow> j \<le> 1 \<or> unat (NumZones config) \<le> j"
      "\<forall>j < 32768. le_test_bit I j \<longleftrightarrow> j \<le> 1 \<or> cfg_inodes config \<le> j"
    using format_device_spec [OF ok less, of env dev] f b by auto
  show "\<exists>m' ai. aufs_fill_sb k a m = Ret (0, m') \<and> own_inv le_bitops (cfg_root config) (m_fs m') \<and> m_root m' = Some 1 \<and>
    icache (m_fs m') = [1 \<mapsto> ai] \<and> i_size ai = 128 \<and> i_mode ai = 0x41ED \<and> pages (m_fs m') = pages (m_fs m) \<and>
    s_blocksize (m_fs m') = 4096 \<and> unat (ai_zone_ptr ai ! 0) = cfg_root config"
    by (rule fill_sb_formatted [OF mk ok k' serves formatted_super [OF ok B rb] B rb _ len bits]) (use zero in auto)
  show "ReadBlock config dev' (cfg_root config) = blits root_entries (ReadBlock config dev (cfg_root config))"
    using B rb by (simp add: formatted_blocks_def)
qed

subsection \<open>An example device\<close>

definition demo_env :: mkfs_env where "demo_env = \<lparr>e_time1 = 7, e_time2 = 8, e_uid = 0, e_gid = 0\<rparr>"

definition demo_mount :: "(nat \<Rightarrow> bytes) \<Rightarrow> (nat \<Rightarrow> bytes) \<Rightarrow> mount" where
  "demo_mount B pg =
     \<lparr>m_fs = \<lparr>s_blocksize = 4096, s_fs_info = zeroed_asb, b_data = B, b_dirty = (\<lambda>_. False), icache = Map.empty, pages = (\<lambda>_. pg)\<rparr>,
      m_info = Null, m_refs = (\<lambda>_. 0), m_asb_mem = False, m_map_mem = False, m_root = None\<rparr>"

lemma demo_serves: "kernel_serves ref_kernel ref_mount B (demo_mount B pg)"
  by (simp add: kernel_serves_def demo_mount_def ref_mount_def)

lemma demo_zero_device: "ReadBlock demo_config (replicate 524288 0) n = replicate 4096 0"
  unfolding ReadBlock_eq by (rule read_at_eqI) (simp_all add: demo_config_def BlockSize_def byte_at_def)

lemma demo_sizes: "unat (NumZones demo_config) < 8 * unat (BlockSize demo_config)" "4096 \<le> unat (ZoneSize demo_config)"
    "unat (ZoneSize demo_config) \<le> 134217728" "cfg_root demo_config = 1026"
  by (simp_all add: demo_config_def NumZones_def BlockSize_def ZoneSize_def cfg_root_def NumInodeEntryBlocks_def align_up_def)

lemma demo_mkfs: "\<exists>dev'. mkfs_main demo_env [''-s'', ''8192'', ''img''] (replicate 524288 0) = Some (Ret (0, dev'))"
proof -
  obtain k where "cfg_ok demo_config k" using parse_args_result(1) [OF demo_device] by blast
  then obtain dev' where "format_device demo_env demo_config (replicate 524288 0) = Some (Ret dev')"
    using format_device_spec [OF _ demo_sizes(1)] by blast
  then have "mkfs_main demo_env [''-s'', ''8192'', ''img''] (replicate 524288 0) = Some (Ret (0, dev'))"
    unfolding mkfs_main_def demo_device by simp
  then show ?thesis by blast
qed

text \<open>The example device, mounted with any contents of the page cache.\<close>

lemma demo_mounted:
  obtains B where "\<And>pg. \<exists>m' ai. aufs_fill_sb ref_kernel ref_mount (demo_mount B pg) = Ret (0, m') \<and>
      own_inv le_bitops 1026 (m_fs m') \<and> m_root m' = Some 1 \<and> icache (m_fs m') = [1 \<mapsto> ai] \<and> i_size ai = 128 \<and>
      i_mode ai = 0x41ED \<and> pages (m_fs m') = (\<lambda>_. pg) \<and> s_blocksize (m_fs m') = 4096 \<and> unat (ai_zone_ptr ai ! 0) = 1026"
    and "B 1026 = blits root_entries (replicate 4096 0)"
proof -
  obtain dev' where run: "mkfs_main demo_env [''-s'', ''8192'', ''img''] (replicate 524288 0) = Some (Ret (0, dev'))"
    using demo_mkfs by blast
  have zero: "\<forall>n. 3 \<le> n \<and> n < 3 + unat (NumInodeEntryBlocks demo_config) \<longrightarrow>
      ReadBlock demo_config (replicate 524288 0) n = replicate 4096 0"
    using demo_zero_device by blast
  note mm = mkfs_mount [OF demo_device demo_sizes(1-3) zero run ref_mounts.mount_kernel_axioms demo_serves, unfolded demo_sizes(4)]
  have "pages (m_fs (demo_mount B pg)) = (\<lambda>_. pg)" for B pg by (simp add: demo_mount_def)
  then show ?thesis using mm(1,2) by (intro that [of "ReadBlock demo_config dev'"]) (simp_all add: demo_zero_device)
qed

subsection \<open>Properties\<close>

text \<open>
  C13: a device that \<^verbatim>\<open>mkfs\<close> formatted with fewer zones than the zone bitmap has bits and zones from 4096 bytes up to 128 megabytes, and whose inode table was zero before, mounts
  when the kernel's functions succeed: the mounted file system satisfies the ownership invariant with the root zone where the
  formatter put it, and the root is inode 1, a directory of 128 bytes whose first zone is the root zone.
\<close>

theorem mkfs_then_mount:
  assumes "ParseArgs (DeviceSize dev) args = Inr config" and "unat (NumZones config) < 8 * unat (BlockSize config)"
    and "4096 \<le> unat (ZoneSize config)" and "unat (ZoneSize config) \<le> 134217728"
    and "\<forall>n. 3 \<le> n \<and> n < 3 + unat (NumInodeEntryBlocks config) \<longrightarrow> ReadBlock config dev n = replicate 4096 0"
    and "mkfs_main env args dev = Some (Ret (0, dev'))"
    and "mount_kernel a" and "kernel_serves k a (ReadBlock config dev') m"
  shows "\<exists>m' ai. aufs_fill_sb k a m = Ret (0, m') \<and> own_inv le_bitops (cfg_root config) (m_fs m') \<and> m_root m' = Some 1 \<and>
    icache (m_fs m') = [1 \<mapsto> ai] \<and> i_size ai = 128 \<and> i_mode ai = 0x41ED \<and> unat (ai_zone_ptr ai ! 0) = cfg_root config"
  using mkfs_mount(1) [OF assms] by blast

theorem mkfs_then_mount_witness:
  "\<exists>dev' m'. mkfs_main demo_env [''-s'', ''8192'', ''img''] (replicate 524288 0) = Some (Ret (0, dev')) \<and>
     aufs_fill_sb ref_kernel ref_mount (demo_mount (ReadBlock demo_config dev') (\<lambda>_. [])) = Ret (0, m') \<and>
     own_inv le_bitops 1026 (m_fs m')"
proof -
  obtain dev' where run: "mkfs_main demo_env [''-s'', ''8192'', ''img''] (replicate 524288 0) = Some (Ret (0, dev'))"
    using demo_mkfs by blast
  have zero: "\<forall>n. 3 \<le> n \<and> n < 3 + unat (NumInodeEntryBlocks demo_config) \<longrightarrow>
      ReadBlock demo_config (replicate 524288 0) n = replicate 4096 0"
    using demo_zero_device by blast
  from mkfs_then_mount [OF demo_device demo_sizes(1-3) zero run ref_mounts.mount_kernel_axioms demo_serves [of _ "\<lambda>_. []"]]
  show ?thesis using run unfolding demo_sizes(4) by blast
qed


text \<open>The directory entries of the formatter as the module reads them.\<close>

lemma le32_at_blit_be32:
  assumes "off + 4 \<le> length d"
  shows "le32_at (blit off (be32_enc w) d) off =
    word32_of_bytes (ucast w) (ucast (drop_bit 8 w)) (ucast (drop_bit 16 w)) (ucast (drop_bit 24 w))"
  using assms nth_blit_same [of off "be32_enc w" d 0] nth_blit_same [of off "be32_enc w" d 1]
    nth_blit_same [of off "be32_enc w" d 2] nth_blit_same [of off "be32_enc w" d 3]
  by (simp add: le32_at_def be32_enc_def)

lemma root_entries_native:
  assumes "length d = 4096"
  defines "pg \<equiv> blits root_entries d"
  shows "le32_at pg 0 = 0x1000000" and "le32_at pg 64 = 0x1000000" and "length pg = 4096"
    and "slice 4 2 pg = [46, 0]" and "slice 68 3 pg = [46, 46, 0]"
proof -
  show "slice 4 2 pg = [46, 0]" "slice 68 3 pg = [46, 46, 0]" using entries_read [of d] assms by (auto simp: Let_def)
  have swap: "word32_of_bytes (ucast (1 :: u32)) (ucast (drop_bit 8 1 :: u32)) (ucast (drop_bit 16 1 :: u32)) (ucast (drop_bit 24 1 :: u32)) = 0x1000000"
    by (simp add: word32_of_bytes_def)
  show "length pg = 4096" unfolding pg_def using assms by (subst length_blits) (auto simp: root_entries_def)
  show "le32_at pg 0 = 0x1000000" "le32_at pg 64 = 0x1000000"
    unfolding pg_def root_entries_def using assms(1) swap by (simp_all add: le32_at_blit_other le32_at_blit_be32)
qed

lemma slice_nth: "slice off n pg = xs \<Longrightarrow> off + n \<le> length pg \<Longrightarrow> i < n \<Longrightarrow> pg ! (off + i) = xs ! i"
  using nth_slice [of off n pg i] by simp

lemma root_page_lookup:
  assumes "length d = 4096" and ai: "icache st 1 = Some ai" "i_size ai = 128"
    and pg: "k_read_page k 1 0 = 0" "pages st 1 0 = blits root_entries d"
  shows "minix_inode_by_name k 1 [46] st = Ret 0x1000000" and "minix_inode_by_name k 1 [46, 46] st = Ret 0x1000000"
    and "minix_inode_by_name k 1 [46, 98, 97, 100, 98, 108, 111, 99, 107, 115] st = Ret 0"
proof -
  let ?pg = "blits root_entries d"
  note e = root_entries_native [OF assms(1)]
  have dot: "?pg ! 4 = 46" "?pg ! 5 = 0" using slice_nth [OF e(4), of 0] slice_nth [OF e(4), of 1] e(3) by simp_all
  have dots: "?pg ! 68 = 46" "?pg ! 69 = 46" "?pg ! 70 = 0"
    using slice_nth [OF e(5), of 0] slice_nth [OF e(5), of 1] slice_nth [OF e(5), of 2] e(3) by (simp_all add: nth_Cons numeral_2_eq_2)
  have s: "slice off 1 ?pg = [?pg ! off]" "slice off 2 ?pg = [?pg ! off, ?pg ! (off + 1)]" if "off + 2 \<le> 4096" for off
    using that e(3) by (auto intro!: nth_equalityI simp: less_Suc_eq numeral_2_eq_2)
  have n: "slice off 10 ?pg ! 1 = ?pg ! (off + 1)" if "off + 10 \<le> 4096" for off using that e(3) by simp
  let ?bad = "[46, 98, 97, 100, 98, 108, 111, 99, 107, 115] :: bytes"
  have slot: "find_in_page name ?pg 128 0 = (case namecompare 60 name ?pg 4 of
        Inl f \<Rightarrow> Fault f | Inr True \<Rightarrow> Ret (Some 0) | Inr False \<Rightarrow> find_in_page name ?pg 128 64)"
    "find_in_page name ?pg 128 64 = (case namecompare 60 name ?pg 68 of
        Inl f \<Rightarrow> Fault f | Inr True \<Rightarrow> Ret (Some 64) | Inr False \<Rightarrow> Ret None)" for name
  proof -
    have "find_in_page name ?pg 128 128 = Ret None" by (subst find_in_page.simps) (simp add: AUFS_DIR_SIZE_def)
    then show "find_in_page name ?pg 128 64 = (case namecompare 60 name ?pg 68 of
        Inl f \<Rightarrow> Fault f | Inr True \<Rightarrow> Ret (Some 64) | Inr False \<Rightarrow> Ret None)"
      using e(2) by (subst find_in_page.simps) (simp add: AUFS_DIR_SIZE_def AUFS_NAME_LEN_def minix_next_entry_def split: sum.split bool.split)
    show "find_in_page name ?pg 128 0 = (case namecompare 60 name ?pg 4 of
        Inl f \<Rightarrow> Fault f | Inr True \<Rightarrow> Ret (Some 0) | Inr False \<Rightarrow> find_in_page name ?pg 128 64)"
      using e(1) by (subst find_in_page.simps) (simp add: AUFS_DIR_SIZE_def AUFS_NAME_LEN_def minix_next_entry_def split: sum.split bool.split)
  qed
  have len: "length [46 :: u8] = 1" "length [46, 46 :: u8] = 2" "length ?bad = 10" by simp_all
  have "slice 4 10 ?pg \<noteq> ?bad" "slice 68 10 ?pg \<noteq> ?bad" using n [of 4] n [of 68] dot(2) dots(2) by auto
  then have nc: "namecompare 60 [46] ?pg 4 = Ret True" "namecompare 60 [46, 46] ?pg 4 = Ret False"
    "namecompare 60 [46, 46] ?pg 68 = Ret True" "namecompare 60 ?bad ?pg 4 = Ret False" "namecompare 60 ?bad ?pg 68 = Ret False"
    unfolding namecompare_def len using dot dots s [of 4] s [of 68] e(3) by simp_all
  have one: "find_in_page [46] ?pg 128 0 = Ret (Some 0)" and two: "find_in_page [46, 46] ?pg 128 0 = Ret (Some 64)"
    and bad: "find_in_page ?bad ?pg 128 0 = Ret None"
    unfolding slot nc by simp_all
  have ps: "dir_pages ai = 1" "minix_last_byte ai 0 = 128" using ai(2) by (simp_all add: dir_pages_def minix_last_byte_def)
  have pages: "find_in_pages k st 1 ai name 0 = (case find_in_page name ?pg 128 0 of Inl f \<Rightarrow> Fault f
      | Inr (Some p) \<Rightarrow> Ret (Some (0, p)) | Inr None \<Rightarrow> Ret None)" for name
    using ps pg by (subst find_in_pages.simps, subst find_in_pages.simps) (simp add: dir_get_page_def)
  show "minix_inode_by_name k 1 [46] st = Ret 0x1000000" "minix_inode_by_name k 1 [46, 46] st = Ret 0x1000000"
    "minix_inode_by_name k 1 ?bad st = Ret 0"
    using e(1,2) ai(1) pg by (simp_all add: minix_inode_by_name_def minix_find_entry_def pages one two bad del: One_nat_def)
qed


text \<open>
  C36: the formatter stores the numbers of the root entries in big-endian order and the module reads them in the order of the
  machine. On a little-endian machine, for zones from 4096 bytes up to 128
  megabytes and a zeroed inode table, with the page cache holding the root block, looking up \<^verbatim>\<open>.\<close> and \<^verbatim>\<open>..\<close> in the root of a freshly
  formatted file system gives inode 16777216 instead of 1, and the entry \<^verbatim>\<open>.badblocks\<close> is behind the end of the directory.
\<close>

theorem mkfs_root_entries_swapped:
  assumes "ParseArgs (DeviceSize dev) args = Inr config" and "unat (NumZones config) < 8 * unat (BlockSize config)"
    and "4096 \<le> unat (ZoneSize config)" and "unat (ZoneSize config) \<le> 134217728"
    and "\<forall>n. 3 \<le> n \<and> n < 3 + unat (NumInodeEntryBlocks config) \<longrightarrow> ReadBlock config dev n = replicate 4096 0"
    and "mkfs_main env args dev = Some (Ret (0, dev'))"
    and "mount_kernel a" and "kernel_serves k a (ReadBlock config dev') m" and "aufs_fill_sb k a m = Ret (0, m')"
    and "pages (m_fs m') 1 0 = ReadBlock config dev' (cfg_root config)" and "k_read_page k 1 0 = 0"
  shows "minix_inode_by_name k 1 [46] (m_fs m') = Ret 0x1000000 \<and> minix_inode_by_name k 1 [46, 46] (m_fs m') = Ret 0x1000000 \<and>
    minix_inode_by_name k 1 [46, 98, 97, 100, 98, 108, 111, 99, 107, 115] (m_fs m') = Ret 0"
proof -
  note mm = mkfs_mount [OF assms(1-8)]
  obtain ai where "icache (m_fs m') = [1 \<mapsto> ai]" "i_size ai = 128" using mm(1) assms(9) by auto
  then have ai: "icache (m_fs m') 1 = Some ai" "i_size ai = 128" by simp_all
  have "length (ReadBlock config dev (cfg_root config)) = 4096" by (simp add: ReadBlock_eq mm(3))
  from root_page_lookup [OF this ai assms(11)] show ?thesis using assms(10) mm(2) by simp
qed

theorem mkfs_root_entries_swapped_witness:
  "\<exists>dev' m'. aufs_fill_sb ref_kernel ref_mount
       (demo_mount (ReadBlock demo_config dev') (\<lambda>_. ReadBlock demo_config dev' 1026)) = Ret (0, m') \<and>
     minix_inode_by_name ref_kernel 1 [46] (m_fs m') = Ret 0x1000000"
proof -
  obtain dev' where run: "mkfs_main demo_env [''-s'', ''8192'', ''img''] (replicate 524288 0) = Some (Ret (0, dev'))"
    using demo_mkfs by blast
  let ?m = "demo_mount (ReadBlock demo_config dev') (\<lambda>_. ReadBlock demo_config dev' 1026)"
  have zero: "\<forall>n. 3 \<le> n \<and> n < 3 + unat (NumInodeEntryBlocks demo_config) \<longrightarrow>
      ReadBlock demo_config (replicate 524288 0) n = replicate 4096 0"
    using demo_zero_device by blast
  note pre = demo_device demo_sizes(1-3) zero run ref_mounts.mount_kernel_axioms demo_serves [of _ "\<lambda>_. ReadBlock demo_config dev' 1026"]
  obtain m' where m': "aufs_fill_sb ref_kernel ref_mount ?m = Ret (0, m')" "pages (m_fs m') = pages (m_fs ?m)"
    using mkfs_mount(1) [OF pre] by blast
  have "pages (m_fs m') 1 0 = ReadBlock demo_config dev' (cfg_root demo_config)"
    unfolding demo_sizes(4) m'(2) by (simp add: demo_mount_def)
  from mkfs_root_entries_swapped [OF pre m'(1) this] show ?thesis using m'(1) by auto
qed

end
