(* ===== verification/Kern_Remount.thy ===== *)
theory Kern_Remount
  imports Mkfs_Mount Kern_Data
begin

text \<open>
  Mounting a file system again. A mount reads the super block and the bitmaps; after any activity
  of the module, and once the zone pointers of the cached inodes are on disk, another mount of the
  same blocks gives the same files. No unmount lies between the two mounts: \<^verbatim>\<open>aufs_put_super\<close> never
  completes, so this is a device that was synced before the machine stopped.
\<close>

subsection \<open>What steps of the file system keep\<close>

definition keeps_super :: "bitops \<Rightarrow> fs \<Rightarrow> fs \<Rightarrow> bool" where
  "keeps_super bo st st' \<longleftrightarrow>
     s_fs_info st' = s_fs_info st \<and> s_blocksize st' = s_blocksize st \<and> b_data st' 0 = b_data st 0 \<and>
     live_inodes bo st \<subseteq> live_inodes bo st'"

text \<open>Both bitmaps have at least one block: their first bits are set.\<close>

lemma map_counts:
  assumes "layout_inv bo rb st"
  shows "0 < unat (asb_zone_map_blocks (AUFS_SB st))" and "0 < unat (asb_inode_map_blocks (AUFS_SB st))"
proof -
  have u: "0 \<in> used_zones bo st" "0 \<in> used_inodes bo st" and "asb_ok (AUFS_SB st)"
    using assms by (auto simp: layout_inv_def maps_ok_def)
  then have "length (s_zmap (AUFS_SB st)) = unat (asb_zone_map_blocks (AUFS_SB st))"
    "length (s_imap (AUFS_SB st)) = unat (asb_inode_map_blocks (AUFS_SB st))" by (simp_all add: asb_ok_def)
  moreover have "0 < length (s_zmap (AUFS_SB st))" "0 < length (s_imap (AUFS_SB st))"
    using u by (auto simp: used_zones_def used_inodes_def area_used_def)
  ultimately show "0 < unat (asb_zone_map_blocks (AUFS_SB st))" "0 < unat (asb_inode_map_blocks (AUFS_SB st))" by simp_all
qed

lemma map_not_zero:
  assumes "layout_inv bo rb st"
  shows "0 \<notin> set (s_zmap (AUFS_SB st))" and "0 \<notin> set (s_imap (AUFS_SB st))"
  using assms by (auto simp: layout_inv_def)

lemma get_block_keeps_super:
  assumes bm: "minix_bitmap bo" and lay: "layout_inv bo rb st"
    and run: "aufs_get_block bo no ib (s_blocksize st) create st = Ret (e, m, st')"
  shows "keeps_super bo st st'"
  using bm lay run
proof (cases rule: get_block_cases)
  case (alloc ai idx z st1 p)
  then show ?thesis
    using map_not_zero [OF lay] live_inodes_frame [OF alloc(10) frame_zones(2) [OF lay alloc(12) disjI1 [OF refl]]]
    by (simp add: keeps_super_def map_frame_def)
qed (simp add: keeps_super_def)

lemma new_inode_keeps_super:
  assumes bm: "minix_bitmap (k_bits k)" and lay: "layout_inv (k_bits k) rb st"
    and run: "aufs_new_inode k dir mode st = (r, e, st')"
  shows "keeps_super (k_bits k) st st'"
  using bm lay run
proof (cases rule: new_inode_cases)
  case (alloc ino0 z st1)
  then show ?thesis
    using map_not_zero [OF lay] frame_zones(2) [OF lay alloc(10) disjI2 [OF refl]]
    by (auto simp: keeps_super_def map_frame_def live_inodes_def)
qed (simp add: keeps_super_def)

lemma step_keeps_super:
  assumes "fs_step bo st st'" and bm: "minix_bitmap bo" and inv: "own_inv bo rb st"
  shows "keeps_super bo st st'"
  using assms
proof (induction rule: fs_step.induct)
  case (step_get_block no ib st create e m st')
  then show ?case using get_block_keeps_super [OF bm] by (auto simp: own_inv_def)
next
  case (step_new_inode k dir mode st r e st')
  then show ?case using new_inode_keeps_super by (auto simp: own_inv_def)
next
  case (step_inode_get no st k r st')
  then have lay: "layout_inv bo rb st" by (simp add: own_inv_def)
  from lay step_inode_get(1,2) show ?case
    by (cases rule: inode_get_cases) (simp_all add: keeps_super_def)
next
  case (step_writeback k no sync_all st e st')
  from \<open>own_inv bo rb st\<close> step_writeback(1) show ?case
  proof (cases rule: writeback_cases)
    case (written ai)
    have lay: "layout_inv bo rb st" using step_writeback(3) by (simp add: own_inv_def)
    have "inode_blk (AUFS_SB st) no \<noteq> 0" by (simp add: inode_blk_def)
    then show ?thesis
      using written layout_other_buffer(4) [OF lay inode_blk_not_map [OF lay] written(3-5)]
      by (simp add: keeps_super_def)
  qed (simp add: keeps_super_def)
next
  case (step_data st bh d)
  have lay: "layout_inv bo rb st" using step_data(3) by (simp add: own_inv_def)
  have "bh \<notin> set (s_zmap (AUFS_SB st))" "bh \<notin> set (s_imap (AUFS_SB st))"
    using map_below_meta [OF lay] step_data(1) by (metis leD)+
  from layout_other_buffer(4) [OF lay this put_buffer_sel(1,4,3)] step_data(1) show ?case
    by (auto simp: keeps_super_def meta_end_def)
qed (auto simp: keeps_super_def live_inodes_def used_inodes_def area_used_def AUFS_SB_def zone_bits_def)

lemma steps_keep_super:
  assumes "(fs_step bo)\<^sup>*\<^sup>* st0 st" and "minix_bitmap bo" and "own_inv bo rb st0"
  shows "keeps_super bo st0 st"
  using assms
proof (induction rule: rtranclp_induct)
  case base
  then show ?case by (simp add: keeps_super_def)
next
  case (step st1 st2)
  have "own_inv bo rb st1" using reachable_own_inv [OF step.hyps(1) step.prems] .
  from step_keeps_super [OF step.hyps(2) step.prems(1) this] step.IH [OF step.prems] show ?case
    by (auto simp: keeps_super_def)
qed

subsection \<open>The cold state\<close>

text \<open>Dropping all inodes and setting a set bit keeps the invariant and the files.\<close>

lemma cold_own_inv:
  assumes inv: "own_inv bo rb st" and stored: "\<And>no. icache st no \<noteq> None \<Longrightarrow> zones_stored st no"
    and sb: "AUFS_SB st' = AUFS_SB st" "s_blocksize st' = s_blocksize st" and maps: "maps_ok st'"
    and used: "used_zones bo st' = used_zones bo st" "used_inodes bo st' = used_inodes bo st"
    and dz: "\<And>no i. disk_zone st' no i = disk_zone st no i" and cold: "icache st' = Map.empty"
  shows "own_inv bo rb st'" and "i < ZONE_PTR_IN_INODE_NUM \<Longrightarrow> zone_of st' no i = zone_of st no i"
    and "live_inodes bo st' = live_inodes bo st"
proof -
  show live: "live_inodes bo st' = live_inodes bo st" using used(2) sb(1) by (rule live_inodes_frame)
  have zo: "zone_of st' no i = zone_of st no i" if "i < ZONE_PTR_IN_INODE_NUM" for no i
  proof (cases "icache st no")
    case None
    then show ?thesis using cold dz by (simp add: zone_of_def)
  next
    case (Some ai)
    then have "zone_of st no i = disk_zone st no i" using stored [of no] that by (simp add: zones_stored_def)
    then show ?thesis using cold dz by (simp add: zone_of_def)
  qed
  then show "i < ZONE_PTR_IN_INODE_NUM \<Longrightarrow> zone_of st' no i = zone_of st no i" .
  have zb: "zone_bits st' = zone_bits st" "n_zones st' = n_zones st" "n_inodes st' = n_inodes st"
    "geometry_ok st' = geometry_ok st"
    using sb by (simp_all add: zone_bits_def n_zones_def n_inodes_def geometry_ok_def)
  have "layout_inv bo rb st'" using inv maps by (simp add: own_inv_def layout_inv_def sb zb used)
  moreover have "owner_inv bo rb st'" using inv by (simp add: own_inv_def owner_inv_def live zo used sb)
  moreover have "cache_inv bo st'" using cold by (simp add: cache_inv_def)
  moreover have "blank_inv bo st'" using inv by (simp add: own_inv_def blank_inv_def used sb dz)
  ultimately show "own_inv bo rb st'" by (simp add: own_inv_def)
qed

context minix_bitmap
begin

lemma mark_used:
  assumes maps: "maps_ok st" and used: "0 \<in> used_zones bo st" "0 \<in> used_inodes bo st"
    and z: "zb = s_zmap (AUFS_SB st) ! 0" and i: "ib = s_imap (AUFS_SB st) ! 0"
    and st': "b_data st' = (b_data st)(zb := set_map_bit bo 0 (b_data st zb), ib := set_map_bit bo 0 (b_data st ib))"
      "AUFS_SB st' = AUFS_SB st" "s_blocksize st' = s_blocksize st"
  shows "maps_ok st'" and "used_zones bo st' = used_zones bo st" and "used_inodes bo st' = used_inodes bo st"
proof -
  let ?zm = "s_zmap (AUFS_SB st)" and ?im = "s_imap (AUFS_SB st)" and ?n = "zone_bits st"
  have n: "0 < ?n" using maps by (rule maps_ok_zone_bits)
  have ok: "area_ok st ?zm ?n" "area_ok st ?im ?n" and disj: "set ?zm \<inter> set ?im = {}"
    using maps by (auto simp: maps_ok_def)
  have len: "0 < length ?zm" "0 < length ?im"
    using used by (auto simp: used_zones_def used_inodes_def area_used_def)
  then have mem: "zb \<in> set ?zm" "ib \<in> set ?im" using z i by simp_all
  then have ne: "zb \<notin> set ?im" "ib \<notin> set ?zm" "zb \<noteq> ib" using disj by auto
  define s1 where "s1 = put_buffer zb (set_map_bit bo 0 (b_data st zb)) st"
  define s2 where "s2 = put_buffer ib (set_map_bit bo 0 (b_data s1 ib)) s1"
  have s1: "b_data s1 ib = b_data st ib" using ne by (simp add: s1_def)
  have b: "b_data st' = b_data s2" using st'(1) s1 ne by (simp add: s2_def s1_def fun_upd_twist)
  have zbuf: "map_ok (b_data st zb)" "8 * length (b_data st zb) = ?n" using ok(1) mem by (auto simp: area_ok_def)
  have ibuf: "map_ok (b_data s1 ib)" "8 * length (b_data s1 ib) = ?n" using ok(2) mem s1 by (auto simp: area_ok_def)
  have z1: "area_used bo s1 ?zm ?n = area_used bo st ?zm ?n" "area_ok s1 ?zm ?n"
    using area_used_mark [OF ok(1) len(1) n z] area_ok_mark [OF ok(1) zbuf n] used(1)
    by (auto simp: s1_def used_zones_def)
  have i1: "area_used bo s1 ?im ?n = area_used bo st ?im ?n" "area_ok s1 ?im ?n"
    using area_other [OF ne(1) n] ok(2) by (simp_all add: s1_def)
  have z2: "area_used bo s2 ?zm ?n = area_used bo st ?zm ?n" "area_ok s2 ?zm ?n"
    using area_other [OF ne(2) n] z1 by (simp_all add: s2_def)
  have i2: "area_used bo s2 ?im ?n = area_used bo st ?im ?n" "area_ok s2 ?im ?n"
    using area_used_mark [OF i1(2) len(2) n i] area_ok_mark [OF i1(2) ibuf n] used(2) i1(1)
    by (auto simp: s2_def used_inodes_def)
  have eq: "area_used bo st' bhs ?n = area_used bo s2 bhs ?n" "area_ok st' bhs ?n = area_ok s2 bhs ?n" for bhs
    by (simp_all add: area_used_def area_ok_def b)
  have zbs: "zone_bits st' = ?n" using st'(3) by (simp add: zone_bits_def)
  show "used_zones bo st' = used_zones bo st" "used_inodes bo st' = used_inodes bo st"
    by (simp_all add: used_zones_def used_inodes_def st'(2) zbs eq z2 i2)
  show "maps_ok st'" using maps z2(2) i2(2) by (simp add: maps_ok_def st'(2,3) zbs eq)
qed

end

subsection \<open>The super block in memory and on disk\<close>

text \<open>The block size a mount sets.\<close>

definition mount_blocksize :: "aufs_super_block \<Rightarrow> u64" where
  "mount_blocksize asb = (if 4096 < asb_zone_size asb then 4096 else scast (ucast (asb_zone_size asb) :: u32))"

text \<open>The super block structure is what a mount makes of block 0.\<close>

definition super_matches :: "fs \<Rightarrow> bool" where
  "super_matches st \<longleftrightarrow>
     28 \<le> length (b_data st 0) \<and> asb_magic (AUFS_SB st) = AUFS_MAGIC \<and>
     s_blocksize st = mount_blocksize (AUFS_SB st) \<and>
     AUFS_SB st = (aufs_super_block_fill zeroed_asb (read_disk_super (b_data st 0)))
       \<lparr>s_zmap := s_zmap (AUFS_SB st), s_imap := s_imap (AUFS_SB st), s_sbh := 0\<rparr>"

lemma super_matches_keep: "keeps_super bo st st' \<Longrightarrow> super_matches st \<Longrightarrow> super_matches st'"
  by (simp add: keeps_super_def super_matches_def AUFS_SB_def)

lemma super_read_zone_maps:
  assumes "aufs_super_block_read k a m = Ret (Some asb, m')"
  shows "asb_zone_map_blocks asb = asb_zone_map_blocks (disk_asb m)"
proof -
  obtain z i where zi: "map_blocks_of m = (z, i)" by fastforce
  show ?thesis
    using assms super_block_read_eq [OF super_block_read_prereq [OF assms] zi]
    by (auto simp: super_block_finish_def Let_def simp del: disk_asb_sel upt_Suc split: if_splits)
qed

text \<open>A mount without a change of the block size leaves the buffers but for the two reserved bits.\<close>

lemma mount_super_matches:
  assumes mk: "mount_kernel a" and run: "aufs_fill_sb k a m = Ret (0, m')"
    and bs: "s_blocksize (m_fs m') = s_blocksize (m_fs m)"
    and z: "0 < unat (asb_zone_map_blocks (AUFS_SB (m_fs m')))"
  shows "super_matches (m_fs m')" and "m_root m' = Some (unat (asb_root_inode (AUFS_SB (m_fs m'))))"
    and "icache (m_fs m') (unat (asb_root_inode (AUFS_SB (m_fs m')))) \<noteq> None"
proof -
  obtain asb m1 where r: "aufs_super_block_read k a m = Ret (Some asb, m1)"
    and f: "s_fs_info (m_fs m') = asb" "m_root m' = Some (unat (asb_root_inode asb))"
      "icache (m_fs m') (unat (asb_root_inode asb)) \<noteq> None"
      "s_blocksize (m_fs m') = (if 4096 < asb_zone_size asb then 4096 else scast (ucast (asb_zone_size asb) :: u32))"
    by (rule fill_sb_zero [OF mk run])
  show "m_root m' = Some (unat (asb_root_inode (AUFS_SB (m_fs m'))))"
    "icache (m_fs m') (unat (asb_root_inode (AUFS_SB (m_fs m')))) \<noteq> None"
    using f by (simp_all add: AUFS_SB_def)
  obtain z i where zi: "map_blocks_of m = (z, i)" by fastforce
  have "0 < z" using z super_read_zone_maps [OF r] f(1) zi by (simp add: map_blocks_of_def AUFS_SB_def del: disk_asb_sel)
  note s = super_block_read_Some [OF r zi this]
  let ?st = "(m_fs m1)\<lparr>s_fs_info := asb\<rparr>"
  let ?w = "(if 4096 < asb_zone_size asb then 4096 else ucast (asb_zone_size asb)) :: u32"
  have w: "(scast ?w :: u64) = mount_blocksize asb" by (simp add: mount_blocksize_def)
  have bs1: "s_blocksize ?st = mount_blocksize asb" using bs f(4) s(4) by (simp add: mount_blocksize_def)
  obtain st where b: "ma_set_blocksize a (mount_blocksize asb) ?st = Some st"
    and g: "\<exists>r st1. aufs_inode_get k (asb_root_inode asb) st = Ret (r, st1) \<and> m_fs m' = st1"
    using run r w by (auto simp: aufs_fill_sb_def Let_def split: option.splits sum.splits if_splits)
  have "st = ?st" using mount_kernel.set_blocksize_same [OF mk] b bs1 by metis
  then have data: "b_data (m_fs m') = b_data (m_fs m1)" using g inode_get_frame(3) by fastforce
  have "b_data (m_fs m') 0 = b_data (m_fs m) 0" unfolding data s(4) using \<open>0 < z\<close> by simp
  moreover have "28 \<le> length (b_data (m_fs m) 0)"
    using super_block_read_prereq [OF r] by (simp add: read_prereq_def)
  ultimately show "super_matches (m_fs m')"
    using f(1,4) s(1,3) by (simp add: super_matches_def AUFS_SB_def mount_blocksize_def disk_asb_def del: upt_Suc)
qed

subsection \<open>Mounting the blocks again\<close>

text \<open>A kernel whose functions succeed, and a mount of the blocks of a state.\<close>

definition kernel_up :: "kapi \<Rightarrow> mount_api \<Rightarrow> bool" where
  "kernel_up k a \<longleftrightarrow>
     (\<forall>b. k_bread k b) \<and> (\<forall>n. k_iget k n \<noteq> None) \<and> ma_alloc_asb a \<and> (\<forall>n. ma_alloc_map a n) \<and>
     (\<forall>bs st. ma_set_blocksize a bs st \<noteq> None) \<and> (\<forall>r. ma_make_root a r)"

definition blocks_of :: "fs \<Rightarrow> mount \<Rightarrow> bool" where
  "blocks_of st m \<longleftrightarrow>
     b_data (m_fs m) = b_data st \<and> s_blocksize (m_fs m) = s_blocksize st \<and> icache (m_fs m) = Map.empty"

text \<open>The record of an inode.\<close>

definition disk_record :: "fs \<Rightarrow> nat \<Rightarrow> aufs_disk_inode" where
  "disk_record st no = read_disk_inode (b_data st (inode_blk (AUFS_SB st) no)) (inode_off no)"

text \<open>The record of the root inode, with a type \<^verbatim>\<open>aufs_inode_get\<close> accepts.\<close>

definition root_on_disk :: "fs \<Rightarrow> bool" where
  "root_on_disk st \<longleftrightarrow>
     (let r = unat (asb_root_inode (AUFS_SB st)); b = inode_blk (AUFS_SB st) r
      in inode_off r + sizeof_disk_inode \<le> length (b_data st b) \<and>
         (let mode = ucast (di_mode (read_disk_inode (b_data st b) (inode_off r)))
          in S_ISREG mode \<or> S_ISDIR mode))"

lemma remount_reads_super:
  assumes lay: "layout_inv bo rb st" and sm: "super_matches st" and up: "kernel_up k a" and bl: "blocks_of st m"
    and bo: "k_bits k = bo"
  obtains m1 where "aufs_super_block_read k a m = Ret (Some (AUFS_SB st), m1)"
    and "b_data (m_fs m1) = (b_data st)(s_zmap (AUFS_SB st) ! 0 := set_map_bit bo 0 (b_data st (s_zmap (AUFS_SB st) ! 0)),
           s_imap (AUFS_SB st) ! 0 := set_map_bit bo 0 (b_data st (s_imap (AUFS_SB st) ! 0)))"
    and "s_blocksize (m_fs m1) = s_blocksize st" and "icache (m_fs m1) = Map.empty"
proof -
  let ?z = "unat (asb_zone_map_blocks (AUFS_SB st))" and ?i = "unat (asb_inode_map_blocks (AUFS_SB st))"
  have zm: "s_zmap (AUFS_SB st) = [1..<1 + ?z]" and im: "s_imap (AUFS_SB st) = [1 + ?z..<1 + ?z + ?i]"
    using lay by (simp_all add: layout_inv_def)
  note pos = map_counts [OF lay]
  have zi0: "s_zmap (AUFS_SB st) ! 0 = 1" "s_imap (AUFS_SB st) ! 0 = 1 + ?z"
    unfolding zm im using pos by (simp_all add: nth_upt del: upt_Suc)
  have d: "(disk_asb m)\<lparr>s_zmap := s_zmap (AUFS_SB st), s_imap := s_imap (AUFS_SB st), s_sbh := 0\<rparr> = AUFS_SB st"
    using sm bl by (simp add: super_matches_def blocks_of_def disk_asb_def)
  have fields: "asb_zone_map_blocks (disk_asb m) = asb_zone_map_blocks (AUFS_SB st)"
      "asb_inode_map_blocks (disk_asb m) = asb_inode_map_blocks (AUFS_SB st)"
      "asb_magic (disk_asb m) = asb_magic (AUFS_SB st)"
    using arg_cong [OF d, of asb_zone_map_blocks] arg_cong [OF d, of asb_inode_map_blocks] arg_cong [OF d, of asb_magic]
    by (simp_all del: disk_asb_sel)
  have dims: "map_blocks_of m = (?z, ?i)" by (simp add: map_blocks_of_def fields del: disk_asb_sel)
  have pre: "read_prereq k a m"
    using up sm bl by (simp add: read_prereq_def kernel_up_def super_matches_def blocks_of_def)
  have "\<not> (\<exists>b \<in> {1..<1 + ?z + ?i}. \<not> k_bread k b)" using up by (simp add: kernel_up_def)
  then have fin: "aufs_super_block_read k a m = super_block_finish k ((disk_asb m)\<lparr>s_sbh := 0\<rparr>) [1..<1 + ?z + ?i]
      (refs_plus {1..<1 + ?z + ?i} 1 (m\<lparr>m_asb_mem := True, m_map_mem := True\<rparr>))"
    using super_block_read_eq [OF pre dims] by (simp only: if_False)
  have asb: "(disk_asb m)\<lparr>s_sbh := 0, s_zmap := [1..<1 + ?z], s_imap := [1 + ?z..<1 + ?z + ?i]\<rparr> = AUFS_SB st"
  proof -
    have "A\<lparr>s_sbh := 0, s_zmap := X, s_imap := Y\<rparr> = A\<lparr>s_zmap := X, s_imap := Y, s_sbh := 0\<rparr>" for A :: aufs_super_block and X Y
      by (rule aufs_super_block.equality) simp_all
    then show ?thesis using d unfolding zm im by (simp only:)
  qed
  have z': "?z = unat (asb_zone_map_blocks ((disk_asb m)\<lparr>s_sbh := 0\<rparr>))" by (simp add: fields del: disk_asb_sel)
  have magic: "asb_magic ((disk_asb m)\<lparr>s_sbh := 0\<rparr>) = AUFS_MAGIC"
    using sm by (simp add: fields super_matches_def del: disk_asb_sel)
  have "aufs_super_block_read k a m = Ret (Some (AUFS_SB st),
      (refs_plus {1..<1 + ?z + ?i} 1 (m\<lparr>m_asb_mem := True, m_map_mem := True\<rparr>))\<lparr>m_fs :=
        put_buffer (1 + ?z) (set_map_bit bo 0 (b_data st (1 + ?z))) (put_buffer 1 (set_map_bit bo 0 (b_data st 1)) (m_fs m))\<rparr>)"
    using fin super_block_finish_eq [OF z' pos(1), of k ?i] magic asb bo pos(2) bl
    by (simp add: Let_def blocks_of_def del: disk_asb_sel upt_Suc)
  from that [OF this] show ?thesis using bl by (simp add: zi0 blocks_of_def)
qed


lemma contents_cong:
  assumes inv: "own_inv bo rb st" and "AUFS_SB st' = AUFS_SB st" and "live_inodes bo st' = live_inodes bo st"
    and "\<And>no i. i < ZONE_PTR_IN_INODE_NUM \<Longrightarrow> zone_of st' no i = zone_of st no i"
    and "\<And>b. meta_end (AUFS_SB st) \<le> b \<Longrightarrow> b_data st' b = b_data st b"
  shows "contents bo st' = contents bo st"
proof (intro ext)
  fix p :: "nat \<times> nat"
  obtain no ib where p: "p = (no, ib)" by (cases p)
  have m: "mapped st' no ib = mapped st no ib" using assms(2,4) by (auto simp: mapped_def)
  show "contents bo st' p = contents bo st p"
  proof (cases "no \<in> live_inodes bo st \<and> mapped st no ib")
    case True
    then have "file_block st' no ib = file_block st no ib" using assms(2,4) by (auto simp: mapped_def file_block_def)
    then show ?thesis using True p m assms(3) assms(5) file_block_not_meta [OF inv] by (simp add: contents_def)
  next
    case False
    then show ?thesis using p m assms(3) by (auto simp: contents_def)
  qed
qed

text \<open>The blocks a mount works on after it set the two reserved bits, and before the root is loaded.\<close>

lemma remount_cold:
  assumes bm: "minix_bitmap bo" and bo: "k_bits k = bo"
    and inv: "own_inv bo rb st" and sm: "super_matches st" and up: "kernel_up k a" and bl: "blocks_of st m"
    and stored: "\<And>no. icache st no \<noteq> None \<Longrightarrow> zones_stored st no"
  obtains m1 st1 where "aufs_super_block_read k a m = Ret (Some (AUFS_SB st), m1)"
    and "st1 = (m_fs m1)\<lparr>s_fs_info := AUFS_SB st\<rparr>" and "AUFS_SB st1 = AUFS_SB st" and "s_blocksize st1 = s_blocksize st"
    and "icache st1 = Map.empty" and "own_inv bo rb st1"
    and "used_zones bo st1 = used_zones bo st" and "used_inodes bo st1 = used_inodes bo st"
    and "\<And>no i. i < ZONE_PTR_IN_INODE_NUM \<Longrightarrow> zone_of st1 no i = zone_of st no i"
    and "\<And>b. b \<notin> set (s_zmap (AUFS_SB st)) \<Longrightarrow> b \<notin> set (s_imap (AUFS_SB st)) \<Longrightarrow> b_data st1 b = b_data st b"
proof -
  let ?sb = "AUFS_SB st"
  have lay: "layout_inv bo rb st" using inv by (simp add: own_inv_def)
  then have maps: "maps_ok st" and u: "0 \<in> used_zones bo st" "0 \<in> used_inodes bo st"
    by (auto simp: layout_inv_def)
  obtain m1 where rd: "aufs_super_block_read k a m = Ret (Some ?sb, m1)"
    and b1: "b_data (m_fs m1) = (b_data st)(s_zmap ?sb ! 0 := set_map_bit bo 0 (b_data st (s_zmap ?sb ! 0)),
           s_imap ?sb ! 0 := set_map_bit bo 0 (b_data st (s_imap ?sb ! 0)))"
    and s1: "s_blocksize (m_fs m1) = s_blocksize st" "icache (m_fs m1) = Map.empty"
    by (rule remount_reads_super [OF lay sm up bl bo])
  define st1 where "st1 = (m_fs m1)\<lparr>s_fs_info := ?sb\<rparr>"
  have st1: "b_data st1 = b_data (m_fs m1)" "AUFS_SB st1 = ?sb" "s_blocksize st1 = s_blocksize st"
    "icache st1 = Map.empty"
    using s1 by (simp_all add: st1_def AUFS_SB_def)
  note mark = minix_bitmap.mark_used [OF bm maps u refl refl st1(1) [unfolded b1] st1(2,3)]
  have len: "0 < length (s_zmap ?sb)" "0 < length (s_imap ?sb)"
    using u by (auto simp: used_zones_def used_inodes_def area_used_def)
  have other: "b_data st1 b = b_data st b" if "b \<notin> set (s_zmap ?sb)" "b \<notin> set (s_imap ?sb)" for b
  proof -
    have "b \<noteq> s_zmap ?sb ! 0" "b \<noteq> s_imap ?sb ! 0" using that len nth_mem by metis+
    then show ?thesis by (simp add: st1(1) b1)
  qed
  have dz: "disk_zone st1 no i = disk_zone st no i" for no i
    using other [OF inode_blk_not_map [OF lay]] by (simp add: disk_zone_def st1(2))
  note cold = cold_own_inv [OF inv stored st1(2,3) mark dz st1(4)]
  show ?thesis by (rule that [OF rd st1_def st1(2-4) cold(1) mark(2,3) cold(2) other])
qed

text \<open>Loading the root directory into an empty inode cache.\<close>

lemma load_root:
  assumes inv: "own_inv bo rb st" and cold: "icache st = Map.empty" and up: "kernel_up k a"
    and root: "unat (asb_root_inode (AUFS_SB st)) \<in> live_inodes bo st" "root_on_disk st"
  obtains ai where "aufs_inode_get k (asb_root_inode (AUFS_SB st)) st =
      Ret (Inr (unat (asb_root_inode (AUFS_SB st))), put_inode (unat (asb_root_inode (AUFS_SB st))) ai st)"
    and "own_inv bo rb (put_inode (unat (asb_root_inode (AUFS_SB st))) ai st)"
    and "\<And>no i. i < ZONE_PTR_IN_INODE_NUM \<Longrightarrow>
      zone_of (put_inode (unat (asb_root_inode (AUFS_SB st))) ai st) no i = zone_of st no i"
    and "i_size ai = unat (di_size (disk_record st (unat (asb_root_inode (AUFS_SB st)))))"
proof -
  let ?r = "unat (asb_root_inode (AUFS_SB st))" and ?b = "inode_blk (AUFS_SB st) (unat (asb_root_inode (AUFS_SB st)))"
  have lay: "layout_inv bo rb st" using inv by (simp add: own_inv_def)
  have rn: "?r < 2147483648" using live_bound(1) [OF lay root(1)] .
  have ok: "asb_ok (AUFS_SB st)" using lay by (simp add: layout_inv_def maps_ok_def)
  have "k_iget k ?r \<noteq> None" using up unfolding kernel_up_def by blast
  then obtain new where new: "k_iget k ?r = Some new" by blast
  define ai where "ai = aufs_inode_fill new (read_disk_inode (b_data st ?b) (inode_off ?r))"
  have mode: "S_ISREG (i_mode ai) \<or> S_ISDIR (i_mode ai)"
    and len: "inode_off ?r + sizeof_disk_inode \<le> length (b_data st ?b)"
    using root(2) by (simp_all add: ai_def root_on_disk_def Let_def aufs_inode_fill_def)
  have br: "k_bread k ?b" using up by (simp add: kernel_up_def)
  let ?ai = "ops_for (ai\<lparr>i_ino := of_nat ?r\<rparr>)"
  have get: "aufs_inode_get k (of_nat ?r) st = Ret (Inr ?r, put_inode ?r ?ai st)"
    using inode_get_miss [OF ok rn _ new br len ai_def mode] cold by simp
  have z: "unat (ai_zone_ptr ?ai ! i) = disk_zone st ?r i" if "i < ZONE_PTR_IN_INODE_NUM" for i
    using that by (simp add: ops_for_def ai_def fill_disk_zones disk_zone_def)
  show ?thesis
  proof (rule that)
    show "aufs_inode_get k (asb_root_inode (AUFS_SB st)) st = Ret (Inr ?r, put_inode ?r ?ai st)" using get by simp
    show "own_inv bo rb (put_inode ?r ?ai st)" using inode_get_own_inv [OF inv root(1) get] .
    show "zone_of (put_inode ?r ?ai st) no i = zone_of st no i" if "i < ZONE_PTR_IN_INODE_NUM" for no i
      using z [OF that] cold by (simp add: zone_of_def [of st ?r])
    show "i_size ?ai = unat (di_size (disk_record st ?r))"
      by (simp add: ops_for_def ai_def aufs_inode_fill_def disk_record_def)
  qed
qed

lemma remount_keeps:
  assumes bm: "minix_bitmap bo" and mk: "mount_kernel a" and bo: "k_bits k = bo"
    and inv: "own_inv bo rb st" and sm: "super_matches st" and up: "kernel_up k a" and bl: "blocks_of st m"
    and stored: "\<And>no. icache st no \<noteq> None \<Longrightarrow> zones_stored st no"
    and root: "unat (asb_root_inode (AUFS_SB st)) \<in> live_inodes bo st" "root_on_disk st"
  shows "\<exists>m'. aufs_fill_sb k a m = Ret (0, m') \<and> own_inv bo rb (m_fs m') \<and>
    contents bo (m_fs m') = contents bo st \<and> used_zones bo (m_fs m') = used_zones bo st \<and>
    used_inodes bo (m_fs m') = used_inodes bo st \<and> m_root m' = Some (unat (asb_root_inode (AUFS_SB st))) \<and>
    AUFS_SB (m_fs m') = AUFS_SB st \<and> s_blocksize (m_fs m') = s_blocksize st \<and>
    (\<forall>no. b_data (m_fs m') (inode_blk (AUFS_SB st) no) = b_data st (inode_blk (AUFS_SB st) no)) \<and>
    (\<forall>no ai. icache (m_fs m') no = Some ai \<longrightarrow> i_size ai = unat (di_size (disk_record st no)))"
proof -
  let ?sb = "AUFS_SB st" and ?r = "unat (asb_root_inode (AUFS_SB st))"
  have lay: "layout_inv bo rb st" using inv by (simp add: own_inv_def)
  obtain m1 st1 where rd: "aufs_super_block_read k a m = Ret (Some ?sb, m1)"
    and st1_eq: "st1 = (m_fs m1)\<lparr>s_fs_info := ?sb\<rparr>"
    and st1: "AUFS_SB st1 = ?sb" "s_blocksize st1 = s_blocksize st" "icache st1 = Map.empty" "own_inv bo rb st1"
    and used: "used_zones bo st1 = used_zones bo st" "used_inodes bo st1 = used_inodes bo st"
    and zo: "\<And>no i. i < ZONE_PTR_IN_INODE_NUM \<Longrightarrow> zone_of st1 no i = zone_of st no i"
    and other: "\<And>b. b \<notin> set (s_zmap ?sb) \<Longrightarrow> b \<notin> set (s_imap ?sb) \<Longrightarrow> b_data st1 b = b_data st b"
    using remount_cold [OF bm bo inv sm up bl stored] by blast
  have live: "live_inodes bo st1 = live_inodes bo st" using used(2) st1(1) by (rule live_inodes_frame)
  have root1: "unat (asb_root_inode (AUFS_SB st1)) \<in> live_inodes bo st1" "root_on_disk st1"
    using root live other [OF inode_blk_not_map [OF lay]] by (simp_all add: st1(1) root_on_disk_def)
  obtain ai where get: "aufs_inode_get k (asb_root_inode ?sb) st1 = Ret (Inr ?r, put_inode ?r ai st1)"
    and inv2: "own_inv bo rb (put_inode ?r ai st1)"
    and keep: "\<And>no i. i < ZONE_PTR_IN_INODE_NUM \<Longrightarrow> zone_of (put_inode ?r ai st1) no i = zone_of st1 no i"
    and size: "i_size ai = unat (di_size (disk_record st1 ?r))"
    using load_root [OF st1(4,3) up root1, unfolded st1(1)] by metis
  have data: "b_data st1 b = b_data st b" if "meta_end ?sb \<le> b" for b
    using that other [of b] map_below_meta [OF lay, of b] by (meson leD)
  have cont: "contents bo (put_inode ?r ai st1) = contents bo st"
    by (rule contents_cong [OF inv]) (use keep zo data live st1(1) in \<open>simp_all del: zone_of_put_inode\<close>)
  have "ma_set_blocksize a (s_blocksize st1) st1 \<noteq> None" using up unfolding kernel_up_def by blast
  then obtain st1' where set: "ma_set_blocksize a (s_blocksize st1) st1 = Some st1'" by blast
  then have "st1' = st1" by (rule mount_kernel.set_blocksize_same [OF mk])
  moreover have "mount_blocksize ?sb = s_blocksize st1" using sm st1(2) by (simp add: super_matches_def)
  ultimately have set': "ma_set_blocksize a (mount_blocksize ?sb) st1 = Some st1" using set by simp
  have w: "(scast ((if 4096 < asb_zone_size ?sb then 4096 else ucast (asb_zone_size ?sb)) :: u32) :: u64) = mount_blocksize ?sb"
    by (simp add: mount_blocksize_def)
  have "aufs_fill_sb k a m = Ret (0, m1\<lparr>m_info := Live ?sb, m_fs := put_inode ?r ai st1, m_root := Some ?r\<rparr>)"
    using rd set' get up w by (simp add: aufs_fill_sb_def Let_def st1_eq [symmetric] kernel_up_def)
  moreover have "b_data st1 (inode_blk ?sb no) = b_data st (inode_blk ?sb no)" for no
    using other [OF inode_blk_not_map [OF lay]] .
  moreover from this have "i_size ai' = unat (di_size (disk_record st no))"
    if "icache (put_inode ?r ai st1) no = Some ai'" for no ai'
    using that size st1(1,3) by (auto simp: disk_record_def split: if_splits)
  ultimately show ?thesis using inv2 cont used st1(1,2) by (intro exI conjI) (assumption | simp)+
qed


text \<open>A mount that succeeds found the record of the root.\<close>

lemma mount_root_on_disk:
  assumes mk: "mount_kernel a" and run: "aufs_fill_sb k a m = Ret (0, m')" and cold: "icache (m_fs m) = Map.empty"
    and bs: "s_blocksize (m_fs m') = s_blocksize (m_fs m)" and inv: "own_inv bo rb (m_fs m')"
  shows "root_on_disk (m_fs m')"
proof -
  have lay: "layout_inv bo rb (m_fs m')" using inv by (simp add: own_inv_def)
  note z = map_counts(1) [OF lay]
  obtain asb m1 where r: "aufs_super_block_read k a m = Ret (Some asb, m1)" and sb: "s_fs_info (m_fs m') = asb"
    using fill_sb_zero [OF mk run] by metis
  have sb': "AUFS_SB (m_fs m') = asb" using sb by (simp add: AUFS_SB_def)
  let ?st = "(m_fs m1)\<lparr>s_fs_info := asb\<rparr>" and ?r = "unat (asb_root_inode asb)"
  have "?r \<in> live_inodes bo (m_fs m')"
    using mount_super_matches(3) [OF mk run bs z] inv by (auto simp: sb' own_inv_def cache_inv_def)
  then have rn: "?r < 2147483648" using live_bound(1) [OF lay] by blast
  have ok: "asb_ok asb" using lay by (simp add: layout_inv_def maps_ok_def sb')
  obtain z' i where zi: "map_blocks_of m = (z', i)" by fastforce
  have "0 < z'" using z super_read_zone_maps [OF r] sb' zi by (simp add: map_blocks_of_def del: disk_asb_sel)
  note s = super_block_read_Some [OF r zi this]
  have bs1: "s_blocksize ?st = mount_blocksize asb"
    using bs mount_super_matches(1) [OF mk run bs z] s(4) by (simp add: super_matches_def sb')
  have w: "(scast ((if 4096 < asb_zone_size asb then 4096 else ucast (asb_zone_size asb)) :: u32) :: u64) = mount_blocksize asb"
    by (simp add: mount_blocksize_def)
  obtain st root st1 where b: "ma_set_blocksize a (mount_blocksize asb) ?st = Some st"
    and g: "aufs_inode_get k (asb_root_inode asb) st = Ret (Inr root, st1)" and m': "m_fs m' = st1"
    using run r w by (auto simp: aufs_fill_sb_def Let_def split: option.splits sum.splits if_splits dest: inode_get_error)
  have st: "st = ?st" using mount_kernel.set_blocksize_same [OF mk] b bs1 by metis
  have none: "icache st ?r = None" unfolding st using cold s(4) by simp
  have sbst: "AUFS_SB st = asb" by (simp add: st AUFS_SB_def)
  have "asb_ok (AUFS_SB st)" using ok sbst by simp
  note loc = unat_inode_location [OF this rn, unfolded sbst]
  have data: "b_data st1 = b_data st" using inode_get_frame(3) [OF g] .
  show ?thesis
    using g none loc
    by (auto simp: root_on_disk_def sb' m' data aufs_inode_get_def sbst Let_def aufs_inode_fill_def
        split: option.splits if_splits)
qed

text \<open>What holds while a mounted file system is in use.\<close>

lemma mounted_use:
  assumes bm: "minix_bitmap bo" and mk: "mount_kernel a"
    and first: "aufs_fill_sb k a m = Ret (0, m1)" "s_blocksize (m_fs m1) = s_blocksize (m_fs m)" "own_inv bo rb (m_fs m1)"
    and use: "(fs_step bo)\<^sup>*\<^sup>* (m_fs m1) st"
  shows "own_inv bo rb st" and "super_matches st" and "s_blocksize st = s_blocksize (m_fs m1)"
    and "m_root m1 = Some (unat (asb_root_inode (AUFS_SB st)))" and "unat (asb_root_inode (AUFS_SB st)) \<in> live_inodes bo st"
proof -
  have lay: "layout_inv bo rb (m_fs m1)" using first(3) by (simp add: own_inv_def)
  note m = mount_super_matches [OF mk first(1,2) map_counts(1) [OF lay]]
  have ks: "keeps_super bo (m_fs m1) st" using steps_keep_super [OF use bm first(3)] .
  then have sb: "AUFS_SB st = AUFS_SB (m_fs m1)" by (simp add: keeps_super_def AUFS_SB_def)
  show "own_inv bo rb st" using reachable_own_inv [OF use bm first(3)] .
  show "super_matches st" using super_matches_keep [OF ks m(1)] .
  show "s_blocksize st = s_blocksize (m_fs m1)" using ks by (simp add: keeps_super_def)
  show "m_root m1 = Some (unat (asb_root_inode (AUFS_SB st)))" using m(2) sb by simp
  have "unat (asb_root_inode (AUFS_SB (m_fs m1))) \<in> live_inodes bo (m_fs m1)"
    using m(3) first(3) by (auto simp: own_inv_def cache_inv_def)
  then show "unat (asb_root_inode (AUFS_SB st)) \<in> live_inodes bo st" using ks by (auto simp: sb keeps_super_def)
qed

subsection \<open>Properties\<close>

text \<open>
  C7: files survive a second mount. The first mount succeeded, did not change the block size it found, and its state satisfies the
  ownership invariant (as after formatting; a mount does not establish it on any device). Then the file system is used by steps of
  \<open>fs_step\<close>: data is written behind the metadata and inode numbers that are looked up are in use. When at the end the zone pointers of all
  cached inodes are on disk, and the record of the root is that of a directory or a file, mounting the blocks again succeeds with a kernel
  whose functions succeed: the ownership invariant holds again, the same zones and inode numbers are in use and every block of every file has
  the contents it had.
\<close>

theorem remount_keeps_files:
  assumes bm: "minix_bitmap (k_bits k)" and mk: "mount_kernel a" and up: "kernel_up k a"
    and first: "aufs_fill_sb k a m = Ret (0, m1)" "s_blocksize (m_fs m1) = s_blocksize (m_fs m)"
      "own_inv (k_bits k) rb (m_fs m1)"
    and use: "(fs_step (k_bits k))\<^sup>*\<^sup>* (m_fs m1) st"
    and stored: "\<forall>no. icache st no \<noteq> None \<longrightarrow> zones_stored st no" and root: "root_on_disk st"
    and bl: "blocks_of st m2"
  shows "\<exists>m3. aufs_fill_sb k a m2 = Ret (0, m3) \<and> own_inv (k_bits k) rb (m_fs m3) \<and>
    contents (k_bits k) (m_fs m3) = contents (k_bits k) st \<and>
    used_zones (k_bits k) (m_fs m3) = used_zones (k_bits k) st \<and>
    used_inodes (k_bits k) (m_fs m3) = used_inodes (k_bits k) st \<and> m_root m3 = m_root m1"
proof -
  note u = mounted_use [OF bm mk first use]
  from remount_keeps [OF bm mk refl u(1,2) up bl _ u(5) root] stored u(4) show ?thesis by auto
qed

theorem remount_keeps_files_witness:
  "\<exists>m m1 m2 m3 st. aufs_fill_sb ref_kernel ref_mount m = Ret (0, m1) \<and> (fs_step le_bitops)\<^sup>*\<^sup>* (m_fs m1) st \<and>
     icache (m_fs m1) 1 \<noteq> None \<and> icache st 1 = None \<and> b_data (m_fs m2) = b_data st \<and>
     aufs_fill_sb ref_kernel ref_mount m2 = Ret (0, m3) \<and> contents le_bitops (m_fs m3) = contents le_bitops st"
proof -
  obtain B where mounted: "\<And>pg. \<exists>m' ai. aufs_fill_sb ref_kernel ref_mount (demo_mount B pg) = Ret (0, m') \<and>
      own_inv le_bitops 1026 (m_fs m') \<and> icache (m_fs m') = [1 \<mapsto> ai] \<and> s_blocksize (m_fs m') = 4096"
    by (rule demo_mounted) blast
  let ?m = "demo_mount B (\<lambda>_. [])"
  obtain m1 ai where m1: "aufs_fill_sb ref_kernel ref_mount ?m = Ret (0, m1)" "own_inv le_bitops 1026 (m_fs m1)"
    "icache (m_fs m1) = [1 \<mapsto> ai]" "s_blocksize (m_fs m1) = 4096"
    using mounted by blast
  let ?st = "evict_inode 1 (m_fs m1)" and ?m2 = "demo_mount (b_data (m_fs m1)) (\<lambda>_. [])"
  have step: "(fs_step le_bitops)\<^sup>*\<^sup>* (m_fs m1) ?st" using step_evict by blast
  have cold: "icache (m_fs ?m) = Map.empty" "s_blocksize (m_fs m1) = s_blocksize (m_fs ?m)"
    using m1(4) by (simp_all add: demo_mount_def)
  have "root_on_disk (m_fs m1)"
    using mount_root_on_disk [OF ref_mounts.mount_kernel_axioms m1(1) cold m1(2)] .
  then have root: "root_on_disk ?st" by (simp add: root_on_disk_def AUFS_SB_def)
  have up: "kernel_up ref_kernel ref_mount" by (simp add: kernel_up_def ref_mount_def)
  have bl: "blocks_of ?st ?m2" using m1(4) by (simp add: blocks_of_def demo_mount_def)
  have stored: "\<forall>no. icache ?st no \<noteq> None \<longrightarrow> zones_stored ?st no" using m1(3) by simp
  have bm: "minix_bitmap (k_bits ref_kernel)" by (simp add: le_map.minix_bitmap_axioms)
  from remount_keeps_files [OF bm ref_mounts.mount_kernel_axioms up m1(1) cold(2) _ _ stored root bl, of 1026] m1(2) step
  obtain m3 where m3: "aufs_fill_sb ref_kernel ref_mount ?m2 = Ret (0, m3)" "contents le_bitops (m_fs m3) = contents le_bitops ?st"
    by auto
  have "b_data (m_fs ?m2) = b_data ?st" "icache (m_fs m1) 1 \<noteq> None" "icache ?st 1 = None"
    using m1(3) by (simp_all add: demo_mount_def)
  with m1(1) step m3 show ?thesis by blast
qed

end
