(* ===== verification/Kern_Persist.thy ===== *)
theory Kern_Persist
  imports Kern_Remount
begin

text \<open>
  Directories on disk. The page cache is tied to the blocks: the kernel writes and reads whole pages through
  \<^verbatim>\<open>aufs_writepage\<close> and \<^verbatim>\<open>aufs_readpage\<close>, which call \<^verbatim>\<open>aufs_get_block\<close>. A directory that was written back is
  found again after another mount: every name leads to the same inode number.
\<close>

subsection \<open>Pages and blocks\<close>

text \<open>Writing back the pages of a file and then its inode, and reading the pages of a file, as the kernel does it.\<close>

fun write_pages :: "kapi \<Rightarrow> nat \<Rightarrow> nat list \<Rightarrow> fs \<Rightarrow> (int \<times> fs) cres" where
  "write_pages k no [] st = Ret (0, st)"
| "write_pages k no (n # ns) st =
     (case aufs_writepage k no n st of
        Inl f \<Rightarrow> Fault f
      | Inr (e, st1) \<Rightarrow> if e \<noteq> 0 then Ret (e, st1) else write_pages k no ns st1)"

fun read_pages :: "kapi \<Rightarrow> nat \<Rightarrow> nat list \<Rightarrow> fs \<Rightarrow> (int \<times> fs) cres" where
  "read_pages k no [] st = Ret (0, st)"
| "read_pages k no (n # ns) st =
     (case aufs_readpage k no n st of
        Inl f \<Rightarrow> Fault f
      | Inr (e, st1) \<Rightarrow> if e \<noteq> 0 then Ret (e, st1) else read_pages k no ns st1)"

definition sync_file :: "kapi \<Rightarrow> nat \<Rightarrow> fs \<Rightarrow> (int \<times> fs) cres" where
  "sync_file k no st =
     (case icache st no of
        None \<Rightarrow> Ret (0, st)
      | Some ai \<Rightarrow>
          (case write_pages k no [0..<dir_pages ai] st of
             Inl f \<Rightarrow> Fault f
           | Inr (e, st1) \<Rightarrow> if e \<noteq> 0 then Ret (e, st1) else writeback_inode k no True st1))"

lemma page_in_file: "n < dir_pages ai \<longleftrightarrow> n * PAGE_SIZE < i_size ai"
  by (simp add: dir_pages_def Suc_le_eq [symmetric] less_eq_div_iff_mult_less_eq)

lemma get_block_in_place:
  assumes inv: "own_inv bo rb st" and ai: "icache st no = Some ai" and m: "mapped st no ib"
  obtains b where "aufs_get_block bo no (of_nat ib) (s_blocksize st) create st = Ret (0, Some b, st)"
    and "unat b = file_block st no ib"
proof -
  let ?p = "ai_zone_ptr ai ! (ib div bpz st)"
  have idx: "ib div bpz st < ZONE_PTR_IN_INODE_NUM" using m by (simp add: mapped_def)
  have g: "geometry_ok st" using inv by (simp add: own_inv_def layout_inv_def)
  note live = cached_live [OF inv ai]
  note un = file_index_word [OF inv idx]
  have zq: "zone_of st no (ib div bpz st) = unat ?p" using ai by (simp add: zone_of_def)
  then have "?p \<noteq> 0" using m by (auto simp: mapped_def)
  with get_block_mapped [OF g ai, of "of_nat ib" bo create] idx un
  have "aufs_get_block bo no (of_nat ib) (s_blocksize st) create st = Ret (0, Some (of_nat (ib mod bpz st) + ?p), st)" by simp
  moreover have "unat (of_nat (ib mod bpz st) + ?p :: u64) = file_block st no ib"
    using file_block_word [OF inv live m] zq by (subst offset_word) (simp_all add: file_block_def add.commute)
  ultimately show ?thesis by (rule that)
qed

lemma contents_pages [simp]: "contents bo (put_page no n d st) = contents bo st"
  by (simp add: contents_def fun_eq_iff mapped_def file_block_def zone_of_def disk_zone_def AUFS_SB_def live_inodes_def
      used_inodes_def area_used_def zone_bits_def put_page_def split: option.split)

text \<open>Writing data blocks leaves the inode cache, the super block and the metadata blocks alone.\<close>

definition data_frame :: "fs \<Rightarrow> fs \<Rightarrow> bool" where
  "data_frame st st' \<longleftrightarrow>
     icache st' = icache st \<and> s_fs_info st' = s_fs_info st \<and> s_blocksize st' = s_blocksize st \<and>
     (\<forall>b < meta_end (AUFS_SB st). b_data st' b = b_data st b)"

context page_io
begin

lemma writepage_mapped:
  assumes inv: "own_inv (k_bits k) rb st" and bs: "s_blocksize st = 4096" and ai: "icache st no = Some ai"
    and m: "mapped st no n" and n: "n * PAGE_SIZE < i_size ai" and d: "d = eof_zeroed (i_size ai) n (pages st no n)"
  shows "aufs_writepage k no n st = Ret (0, put_buffer (file_block st no n) d (put_page no n d st))"
proof -
  obtain b where run: "aufs_get_block (k_bits k) no (of_nat n) (s_blocksize st) True st = Ret (0, Some b, st)"
    and b: "unat b = file_block st no n"
    by (rule get_block_in_place [OF inv ai m])
  show ?thesis using write_full [where gb = "aufs_get_block (k_bits k) no", OF bs ai n run d] b by (simp add: aufs_writepage_def)
qed

lemma readpage_mapped:
  assumes inv: "own_inv (k_bits k) rb st" and bs: "s_blocksize st = 4096" and ai: "icache st no = Some ai"
    and c: "contents (k_bits k) st (no, n) = Some d" and n: "n * PAGE_SIZE < i_size ai"
  shows "aufs_readpage k no n st = Ret (0, put_page no n d st)"
proof -
  have m: "mapped st no n" and d: "d = b_data st (file_block st no n)" using c by (auto simp: contents_def split: if_splits)
  obtain b where run: "aufs_get_block (k_bits k) no (of_nat n) (s_blocksize st) False st = Ret (0, Some b, st)"
    and b: "unat b = file_block st no n"
    by (rule get_block_in_place [OF inv ai m])
  show ?thesis using read_full [where gb = "aufs_get_block (k_bits k) no", OF bs ai n run] b d by (simp add: aufs_readpage_def)
qed

lemma write_pages_mapped:
  assumes bm: "minix_bitmap (k_bits k)" and "own_inv (k_bits k) rb st" and "s_blocksize st = 4096" and "icache st no = Some ai"
    and "\<forall>n \<in> set ns. mapped st no n \<and> n * PAGE_SIZE < i_size ai" and "distinct ns"
  shows "\<exists>st'. write_pages k no ns st = Ret (0, st') \<and> (fs_step (k_bits k))\<^sup>*\<^sup>* st st' \<and> data_frame st st' \<and>
    (\<forall>n \<in> set ns. contents (k_bits k) st' (no, n) = Some (eof_zeroed (i_size ai) n (pages st no n))) \<and>
    (\<forall>n. n \<notin> set ns \<longrightarrow> contents (k_bits k) st' (no, n) = contents (k_bits k) st (no, n))"
  using assms(2-)
proof (induction ns arbitrary: st)
  case Nil
  then show ?case by (auto simp: data_frame_def)
next
  case (Cons n ns)
  let ?d = "eof_zeroed (i_size ai) n (pages st no n)"
  let ?sp = "put_page no n ?d st"
  let ?st1 = "put_buffer (file_block st no n) ?d ?sp"
  note live = cached_live [OF Cons.prems(1,3)]
  have m: "mapped st no n" "n * PAGE_SIZE < i_size ai" using Cons.prems(4) by simp_all
  note w = writepage_mapped [OF Cons.prems(1-3) m refl]
  have same: "mapped ?sp no j = mapped st no j" "file_block ?sp no j = file_block st no j" "mapped ?st1 no j = mapped st no j" for j
    using Cons.prems(3) by (simp_all add: mapped_def file_block_def zone_of_def AUFS_SB_def)
  have meta: "meta_end (AUFS_SB st) \<le> file_block st no n" using file_block_not_meta [OF Cons.prems(1) live m(1)] .
  have steps: "fs_step (k_bits k) st ?sp" "fs_step (k_bits k) ?sp ?st1"
    using meta step_pages [of "k_bits k" st] step_data [of ?sp] by (simp_all add: put_page_def AUFS_SB_def)
  have inv1: "own_inv (k_bits k) rb ?sp" using step_own_inv [OF steps(1) bm Cons.prems(1)] .
  have live1: "no \<in> live_inodes (k_bits k) ?sp" using cached_live [OF inv1] Cons.prems(3) by simp
  have "mapped ?sp no n" using m(1) same(1) by simp
  note put = put_data_contents [OF inv1 live1 this, unfolded same(2)]
  have pre: "s_blocksize ?st1 = 4096" "icache ?st1 no = Some ai" "\<forall>j \<in> set ns. mapped ?st1 no j \<and> j * PAGE_SIZE < i_size ai"
    "distinct ns" "n \<notin> set ns"
    using Cons.prems(2-5) same(3) by simp_all
  from Cons.IH [OF put(1) pre(1-4)] obtain st' where st': "write_pages k no ns ?st1 = Ret (0, st')"
    "(fs_step (k_bits k))\<^sup>*\<^sup>* ?st1 st'" "data_frame ?st1 st'"
    "\<forall>j \<in> set ns. contents (k_bits k) st' (no, j) = Some (eof_zeroed (i_size ai) j (pages ?st1 no j))"
    "\<forall>j. j \<notin> set ns \<longrightarrow> contents (k_bits k) st' (no, j) = contents (k_bits k) ?st1 (no, j)"
    by blast
  have "(fs_step (k_bits k))\<^sup>*\<^sup>* st st'" using steps st'(2) by (meson converse_rtranclp_into_rtranclp)
  moreover have "data_frame st st'" using st'(3) meta by (auto simp: data_frame_def AUFS_SB_def)
  moreover have "\<forall>j \<in> set (n # ns). contents (k_bits k) st' (no, j) = Some (eof_zeroed (i_size ai) j (pages st no j))"
    using st'(4,5) pre(5) put(2) by auto
  moreover have "\<forall>j. j \<notin> set (n # ns) \<longrightarrow> contents (k_bits k) st' (no, j) = contents (k_bits k) st (no, j)"
    using st'(5) put(2) by simp
  ultimately show ?case using w st'(1) by (intro exI [of _ st']) simp
qed

end

subsection \<open>Writing back a file\<close>

lemma writeback_record:
  assumes inv: "own_inv bo rb st" and ai: "icache st no = Some ai"
    and io: "k_bread k (inode_blk (AUFS_SB st) no)" "\<not> k_sync_error k (inode_blk (AUFS_SB st) no)"
    and len: "inode_off no + sizeof_disk_inode \<le> length (b_data st (inode_blk (AUFS_SB st) no))"
  obtains st' where "writeback_inode k no True st = Ret (0, st')" and "icache st' = (icache st)(no \<mapsto> ai\<lparr>i_dirty := False\<rparr>)"
    and "s_fs_info st' = s_fs_info st" and "s_blocksize st' = s_blocksize st"
    and "disk_record st' no = raw_inode_of k ai" and "zones_stored st' no"
    and "length (b_data st' (inode_blk (AUFS_SB st) no)) = length (b_data st (inode_blk (AUFS_SB st) no))"
proof -
  let ?bh = "inode_blk (AUFS_SB st) no" and ?off = "inode_off no"
  let ?d = "blit ?off (disk_inode_enc (raw_inode_of k ai)) (b_data st ?bh)"
  have lay: "layout_inv bo rb st" using inv by (simp add: own_inv_def)
  then have ok: "asb_ok (AUFS_SB st)" by (simp add: layout_inv_def maps_ok_def)
  have cl: "no \<in> live_inodes bo st" "i_ino ai = of_nat no" "length (ai_zone_ptr ai) = ZONE_PTR_IN_INODE_NUM"
    using inv ai by (auto simp: own_inv_def cache_inv_def)
  note b = live_bound [OF lay cl(1)]
  have zl: "length (di_zone_ptr (raw_inode_of k ai)) = ZONE_PTR_IN_INODE_NUM" using cl(3) by (simp add: raw_inode_of_def)
  have upd: "V2_minix_update_inode k ai st = Ret (Some ?bh, mark_buffer_dirty ?bh (put_buffer ?bh ?d st))"
    using update_inode_eq [OF ok b(3,1,2) cl(2), of k] io(1) len by (simp add: Let_def)
  let ?st' = "put_inode no (ai\<lparr>i_dirty := False\<rparr>) (sync_dirty_buffer ?bh (mark_buffer_dirty ?bh (put_buffer ?bh ?d st)))"
  have run: "writeback_inode k no True st = Ret (0, ?st')"
    using ai upd io(2) by (simp add: writeback_inode_def minix_write_inode_def mark_buffer_dirty_def)
  have data: "b_data ?st' = (b_data st)(?bh := ?d)" "AUFS_SB ?st' = AUFS_SB st"
    by (simp_all add: sync_dirty_buffer_def AUFS_SB_def)
  have "zones_stored ?st' no"
    using written_zones [OF inv ai refl len data, of _ no] by (simp add: zones_stored_def)
  moreover have "disk_record ?st' no = raw_inode_of k ai"
    unfolding disk_record_def data using read_disk_inode_blit [OF zl len] by simp
  moreover have "length ?d = length (b_data st ?bh)" using length_disk_inode_enc [OF zl] len by simp
  ultimately show ?thesis
    by (intro that [OF run]) (simp_all add: data sync_dirty_buffer_def)
qed

subsection \<open>Searching pages that agree up to the end of the file\<close>

definition agree :: "nat \<Rightarrow> bytes \<Rightarrow> bytes \<Rightarrow> bool" where
  "agree n pg pg' \<longleftrightarrow> length pg' = length pg \<and> n \<le> length pg \<and> (\<forall>i < n. pg' ! i = pg ! i)"

lemma agree_inode: "agree n pg pg' \<Longrightarrow> p + 64 \<le> n \<Longrightarrow> dde_inode pg' p = dde_inode pg p"
  by (simp add: agree_def le32_at_def)

lemma agree_slice:
  assumes "agree n pg pg'" and "a + m \<le> n"
  shows "slice a m pg' = slice a m pg"
  using assms by (intro nth_equalityI) (auto simp: agree_def slice_def)

lemma agree_name:
  assumes "agree n pg pg'" and "p + 64 \<le> n" and "length name \<le> AUFS_NAME_LEN"
  shows "namecompare AUFS_NAME_LEN name pg' (dde_name p) = namecompare AUFS_NAME_LEN name pg (dde_name p)"
  using assms agree_slice [OF assms(1), of "p + 4" "length name"]
  by (auto simp: namecompare_def agree_def AUFS_NAME_LEN_def)

lemma find_in_page_agree:
  assumes "agree last_byte pg pg'" and "length name \<le> AUFS_NAME_LEN"
  shows "find_in_page name pg' last_byte p = find_in_page name pg last_byte p"
  using assms
proof (induction name pg last_byte p rule: find_in_page.induct)
  case (1 name pg last_byte p)
  show ?case
  proof (cases "last_byte < p + AUFS_DIR_SIZE")
    case True
    then show ?thesis by (simp add: find_in_page.simps)
  next
    case False
    then have "p + 64 \<le> last_byte" by (simp add: AUFS_DIR_SIZE_def)
    note same = agree_inode [OF "1.prems"(1) this] agree_name [OF "1.prems"(1) this "1.prems"(2)]
    show ?thesis
      using False "1.IH" "1.prems"
      by (subst (1 2) find_in_page.simps) (auto simp: same split: sum.split bool.split)
  qed
qed

lemma find_in_page_bound:
  "find_in_page name pg last_byte p = Ret (Some q) \<Longrightarrow> q + 64 \<le> last_byte"
proof (induction name pg last_byte p rule: find_in_page.induct)
  case (1 name pg last_byte p)
  from "1.prems" show ?case
    by (subst (asm) find_in_page.simps)
      (auto simp: AUFS_DIR_SIZE_def not_less split: if_splits sum.splits bool.splits intro: "1.IH" [unfolded AUFS_DIR_SIZE_def])
qed

lemma find_in_pages_bound:
  "find_in_pages k st dir ai name n = Ret (Some (m, p)) \<Longrightarrow> m < dir_pages ai \<and> p + 64 \<le> minix_last_byte ai m"
proof (induction k st dir ai name n rule: find_in_pages.induct)
  case (1 k st dir ai name n)
  from "1.prems" show ?case
    by (subst (asm) find_in_pages.simps)
      (auto split: if_splits sum.splits option.splits intro: find_in_page_bound dest: "1.IH")
qed

lemma find_in_pages_agree:
  assumes "i_size ai' = i_size ai" and "length name \<le> AUFS_NAME_LEN"
    and "\<forall>n < dir_pages ai. agree (minix_last_byte ai n) (pages st dir n) (pages st' dir n)"
  shows "find_in_pages k st' dir ai' name n = find_in_pages k st dir ai name n"
  using assms
proof (induction k st dir ai name n rule: find_in_pages.induct)
  case (1 k st dir ai name n)
  have same: "dir_pages ai' = dir_pages ai" "minix_last_byte ai' = minix_last_byte ai"
    using "1.prems"(1) by (simp_all add: dir_pages_def minix_last_byte_def fun_eq_iff)
  show ?case
  proof (cases "dir_pages ai \<le> n")
    case True
    then show ?thesis by (simp add: find_in_pages.simps same)
  next
    case False
    then have fp: "find_in_page name (pages st' dir n) (minix_last_byte ai n) 0 = find_in_page name (pages st dir n) (minix_last_byte ai n) 0"
      using find_in_page_agree "1.prems"(2,3) by simp
    show ?thesis
      using False "1.IH" "1.prems"
      by (subst (1 2) find_in_pages.simps) (auto simp: same fp dir_get_page_def split: sum.split option.split)
  qed
qed

text \<open>A lookup depends on the pages up to the end of the directory only.\<close>

lemma inode_by_name_agree:
  assumes ai: "icache st dir = Some ai" "icache st' dir = Some ai'" "i_size ai' = i_size ai"
    and name: "length name \<le> AUFS_NAME_LEN"
    and pg: "\<forall>n < dir_pages ai. agree (minix_last_byte ai n) (pages st dir n) (pages st' dir n)"
  shows "minix_inode_by_name k dir name st' = minix_inode_by_name k dir name st"
proof -
  note same = find_in_pages_agree [OF ai(3) name pg, of k 0]
  have "dde_inode (pages st' dir n) p = dde_inode (pages st dir n) p"
    if "find_in_pages k st dir ai name 0 = Ret (Some (n, p))" for n p
    using find_in_pages_bound [OF that] pg agree_inode by blast
  then show ?thesis
    using ai same by (auto simp: minix_inode_by_name_def minix_find_entry_def split: sum.split option.split)
qed

subsection \<open>From the page cache to the disk and back\<close>

lemma agree_eof_zeroed:
  assumes "n < dir_pages ai" and "length pg = PAGE_SIZE"
  shows "agree (minix_last_byte ai n) pg (eof_zeroed (i_size ai) n pg)"
proof -
  have "minix_last_byte ai n \<le> i_size ai - n * PAGE_SIZE" "minix_last_byte ai n \<le> PAGE_SIZE"
    using assms(1) unfolding page_in_file minix_last_byte_def
    by (auto simp: minus_mult_div_eq_mod [symmetric] mult.commute)
  then show ?thesis using assms(2) by (auto simp: agree_def eof_zeroed_def Let_def nth_append)
qed

context page_io
begin

lemma sync_file_stored:
  assumes bm: "minix_bitmap (k_bits k)" and inv: "own_inv (k_bits k) rb st" and bs: "s_blocksize st = 4096"
    and ai: "icache st no = Some ai" and blocks: "\<forall>n < dir_pages ai. mapped st no n"
    and io: "\<forall>b. k_bread k b \<and> \<not> k_sync_error k b"
    and len: "inode_off no + sizeof_disk_inode \<le> length (b_data st (inode_blk (AUFS_SB st) no))"
  obtains st2 where "sync_file k no st = Ret (0, st2)" and "(fs_step (k_bits k))\<^sup>*\<^sup>* st st2"
    and "disk_record st2 no = raw_inode_of k ai" and "zones_stored st2 no"
    and "icache st2 = (icache st)(no \<mapsto> ai\<lparr>i_dirty := False\<rparr>)" and "AUFS_SB st2 = AUFS_SB st"
    and "inode_off no + sizeof_disk_inode \<le> length (b_data st2 (inode_blk (AUFS_SB st2) no))"
    and "\<forall>n < dir_pages ai. contents (k_bits k) st2 (no, n) = Some (eof_zeroed (i_size ai) n (pages st no n))"
proof -
  obtain st1 where w: "write_pages k no [0..<dir_pages ai] st = Ret (0, st1)" "(fs_step (k_bits k))\<^sup>*\<^sup>* st st1" "data_frame st st1"
    "\<forall>n \<in> set [0..<dir_pages ai]. contents (k_bits k) st1 (no, n) = Some (eof_zeroed (i_size ai) n (pages st no n))"
    using write_pages_mapped [OF bm inv bs ai, of "[0..<dir_pages ai]"] blocks by (auto simp: page_in_file)
  have inv1: "own_inv (k_bits k) rb st1" using reachable_own_inv [OF w(2) bm inv] .
  have st1: "icache st1 = icache st" "AUFS_SB st1 = AUFS_SB st" "icache st1 no = Some ai" using w(3) ai by (simp_all add: data_frame_def AUFS_SB_def)
  have "b_data st1 (inode_blk (AUFS_SB st) no) = b_data st (inode_blk (AUFS_SB st) no)"
    using w(3) live_blk_below_meta [OF cached_live [OF inv ai]] by (auto simp: data_frame_def)
  with len have len1: "inode_off no + sizeof_disk_inode \<le> length (b_data st1 (inode_blk (AUFS_SB st1) no))" by (simp add: st1(2))
  obtain st2 where wb: "writeback_inode k no True st1 = Ret (0, st2)" "icache st2 = (icache st1)(no \<mapsto> ai\<lparr>i_dirty := False\<rparr>)"
    "s_fs_info st2 = s_fs_info st1" "disk_record st2 no = raw_inode_of k ai" "zones_stored st2 no"
    "length (b_data st2 (inode_blk (AUFS_SB st1) no)) = length (b_data st1 (inode_blk (AUFS_SB st1) no))"
    using writeback_record [OF inv1 st1(3) _ _ len1] io by metis
  have sb2: "AUFS_SB st2 = AUFS_SB st" using wb(3) st1(2) by (simp add: AUFS_SB_def)
  have step: "fs_step (k_bits k) st1 st2" using wb(1) by (rule step_writeback)
  have "contents (k_bits k) st1 \<subseteq>\<^sub>m contents (k_bits k) st2"
    using keeps_contents [OF inv1 keeps_writeback [OF inv1 wb(1)]] .
  then have "\<forall>n < dir_pages ai. contents (k_bits k) st2 (no, n) = Some (eof_zeroed (i_size ai) n (pages st no n))"
    using w(4) by (force simp: map_le_def dom_def)
  moreover have "sync_file k no st = Ret (0, st2)" using ai w(1) wb(1) by (simp add: sync_file_def)
  moreover have "(fs_step (k_bits k))\<^sup>*\<^sup>* st st2" using w(2) step by simp
  moreover have "inode_off no + sizeof_disk_inode \<le> length (b_data st2 (inode_blk (AUFS_SB st2) no))"
    using len1 wb(6) by (simp add: sb2 st1(2))
  ultimately show ?thesis using that wb(2,4,5) sb2 by (simp add: st1(1))
qed

lemma read_pages_stored:
  assumes inv: "own_inv (k_bits k) rb st" and bs: "s_blocksize st = 4096" and ai: "icache st no = Some ai"
    and c: "\<forall>n \<in> set ns. contents (k_bits k) st (no, n) = Some (f n) \<and> n * PAGE_SIZE < i_size ai" and bm: "minix_bitmap (k_bits k)"
  shows "\<exists>st'. read_pages k no ns st = Ret (0, st') \<and> icache st' = icache st \<and>
    (\<forall>n. pages st' no n = (if n \<in> set ns then f n else pages st no n))"
  using inv bs ai c
proof (induction ns arbitrary: st)
  case (Cons n ns)
  let ?st1 = "put_page no n (f n) st"
  have "aufs_readpage k no n st = Ret (0, ?st1)" using readpage_mapped [OF Cons.prems(1-3)] Cons.prems(4) by simp
  moreover have "own_inv (k_bits k) rb ?st1"
    using step_own_inv [OF step_pages bm Cons.prems(1)] by (simp add: put_page_def)
  then obtain st' where "read_pages k no ns ?st1 = Ret (0, st')" "icache st' = icache ?st1"
    "\<forall>j. pages st' no j = (if j \<in> set ns then f j else pages ?st1 no j)"
    using Cons.IH [of ?st1] Cons.prems by auto
  ultimately show ?case by (intro exI [of _ st']) auto
qed simp

end

text \<open>Loading an inode that is cached or has a record of a type \<^verbatim>\<open>aufs_inode_get\<close> accepts.\<close>

lemma load_inode:
  assumes inv: "own_inv (k_bits k) rb st" and up: "kernel_up k a" and no: "no \<in> live_inodes (k_bits k) st"
    and len: "inode_off no + sizeof_disk_inode \<le> length (b_data st (inode_blk (AUFS_SB st) no))"
    and mode: "S_ISREG (ucast (di_mode (disk_record st no))) \<or> S_ISDIR (ucast (di_mode (disk_record st no)))"
    and size: "\<forall>ai. icache st no = Some ai \<longrightarrow> i_size ai = unat (di_size (disk_record st no))"
  obtains st' ai where "aufs_inode_get k (of_nat no) st = Ret (Inr no, st')" and "own_inv (k_bits k) rb st'"
    and "icache st' no = Some ai" and "i_size ai = unat (di_size (disk_record st no))"
    and "contents (k_bits k) st \<subseteq>\<^sub>m contents (k_bits k) st'" and "s_blocksize st' = s_blocksize st"
proof -
  have lay: "layout_inv (k_bits k) rb st" using inv by (simp add: own_inv_def)
  note nb = live_bound(1) [OF lay no]
  have "\<exists>st' ai. aufs_inode_get k (of_nat no) st = Ret (Inr no, st') \<and> icache st' no = Some ai \<and>
      i_size ai = unat (di_size (disk_record st no))"
  proof (cases "icache st no")
    case None
    have ok: "asb_ok (AUFS_SB st)" using lay by (simp add: layout_inv_def maps_ok_def)
    have "k_iget k no \<noteq> None" and br: "k_bread k (inode_blk (AUFS_SB st) no)" using up unfolding kernel_up_def by blast+
    then obtain new where new: "k_iget k no = Some new" by blast
    have "S_ISREG (i_mode (aufs_inode_fill new (disk_record st no))) \<or> S_ISDIR (i_mode (aufs_inode_fill new (disk_record st no)))"
      using mode by (simp add: aufs_inode_fill_def)
    from inode_get_miss [OF ok nb None new br len disk_record_def [THEN arg_cong] this] show ?thesis
      by (simp add: ops_for_def aufs_inode_fill_def)
  next
    case (Some ai)
    have "unat (of_nat no :: u64) = no" using nb by (intro unat_of_nat_small) simp
    then show ?thesis using Some size by (simp add: aufs_inode_get_def)
  qed
  then obtain st' ai where g: "aufs_inode_get k (of_nat no) st = Ret (Inr no, st')" and ai: "icache st' no = Some ai"
      "i_size ai = unat (di_size (disk_record st no))" by blast
  show ?thesis
  proof (rule that [OF g _ ai])
    show "own_inv (k_bits k) rb st'" using inode_get_own_inv [OF inv no g] .
    show "contents (k_bits k) st \<subseteq>\<^sub>m contents (k_bits k) st'" using keeps_contents [OF inv keeps_inode_get [OF inv no g]] .
    show "s_blocksize st' = s_blocksize st" using inode_get_frame [OF g] by simp
  qed
qed

context page_io
begin

text \<open>What another mount finds of a file that was written back.\<close>

lemma remount_reads_pages:
  assumes bm: "minix_bitmap (k_bits k)" and mk: "mount_kernel a" and up: "kernel_up k a"
    and inv: "own_inv (k_bits k) rb st" and sm: "super_matches st" and bs: "s_blocksize st = 4096"
    and stored: "\<And>no. icache st no \<noteq> None \<Longrightarrow> zones_stored st no"
    and root: "unat (asb_root_inode (AUFS_SB st)) \<in> live_inodes (k_bits k) st" "root_on_disk st" and bl: "blocks_of st m"
    and no: "no \<in> live_inodes (k_bits k) st"
    and len: "inode_off no + sizeof_disk_inode \<le> length (b_data st (inode_blk (AUFS_SB st) no))"
    and mode: "S_ISREG (ucast (di_mode (disk_record st no))) \<or> S_ISDIR (ucast (di_mode (disk_record st no)))"
    and c: "\<forall>n < N. contents (k_bits k) st (no, n) = Some (f n) \<and> n * PAGE_SIZE < unat (di_size (disk_record st no))"
  obtains m' st1 st2 ai where "aufs_fill_sb k a m = Ret (0, m')" and "aufs_inode_get k (of_nat no) (m_fs m') = Ret (Inr no, st1)"
    and "read_pages k no [0..<N] st1 = Ret (0, st2)" and "icache st2 no = Some ai"
    and "i_size ai = unat (di_size (disk_record st no))" and "\<forall>n < N. pages st2 no n = f n"
proof -
  obtain m' where m': "aufs_fill_sb k a m = Ret (0, m')" "own_inv (k_bits k) rb (m_fs m')"
    "contents (k_bits k) (m_fs m') = contents (k_bits k) st" "used_inodes (k_bits k) (m_fs m') = used_inodes (k_bits k) st"
    "AUFS_SB (m_fs m') = AUFS_SB st" "s_blocksize (m_fs m') = s_blocksize st"
    "\<forall>no. b_data (m_fs m') (inode_blk (AUFS_SB st) no) = b_data st (inode_blk (AUFS_SB st) no)"
    "\<forall>no ai. icache (m_fs m') no = Some ai \<longrightarrow> i_size ai = unat (di_size (disk_record st no))"
    using remount_keeps [OF bm mk refl inv sm up bl stored root] by blast
  have rec: "disk_record (m_fs m') no = disk_record st no" using m'(5,7) by (simp add: disk_record_def)
  have no': "no \<in> live_inodes (k_bits k) (m_fs m')" using no live_inodes_frame [OF m'(4,5)] by simp
  have len': "inode_off no + sizeof_disk_inode \<le> length (b_data (m_fs m') (inode_blk (AUFS_SB (m_fs m')) no))"
    using len m'(5,7) by simp
  have size': "\<forall>ai. icache (m_fs m') no = Some ai \<longrightarrow> i_size ai = unat (di_size (disk_record (m_fs m') no))"
    using m'(8) rec by simp
  obtain st1 ai where st1: "aufs_inode_get k (of_nat no) (m_fs m') = Ret (Inr no, st1)" "own_inv (k_bits k) rb st1"
    "icache st1 no = Some ai" "i_size ai = unat (di_size (disk_record st no))"
    "contents (k_bits k) st \<subseteq>\<^sub>m contents (k_bits k) st1" "s_blocksize st1 = 4096"
    using load_inode [OF m'(2) up no' len' mode [folded rec] size', unfolded rec m'(3,6) bs] by metis
  have "\<forall>n \<in> set [0..<N]. contents (k_bits k) st1 (no, n) = Some (f n) \<and> n * PAGE_SIZE < i_size ai"
    using c st1(4,5) by (force simp: map_le_def dom_def)
  from read_pages_stored [OF st1(2,6,3) this bm] obtain st2 where "read_pages k no [0..<N] st1 = Ret (0, st2)"
    "icache st2 = icache st1" "\<forall>n. pages st2 no n = (if n \<in> set [0..<N] then f n else pages st1 no n)" by blast
  then show ?thesis using that [OF m'(1) st1(1)] st1(3,4) by simp
qed

end

subsection \<open>Properties\<close>

text \<open>
  C8: the names of a directory survive a mount, on blocks of 4096 bytes and with a kernel whose functions succeed. The first mount did
  not change the block size and its state satisfies the ownership invariant; then the file system is used by steps of \<open>fs_step\<close> (data
  is written behind the metadata and inode numbers that are looked up are in use). A cached directory below 4 GiB, whose pages all
  have a block, is written back, its pages and its inode. When after that the zone pointers of every cached inode are on disk, and the record of
  the root is that of a directory or a file, another mount of the blocks succeeds, \<^verbatim>\<open>aufs_inode_get\<close> loads the directory, its pages
  are read, and every lookup of a name of at most 60 bytes gives the result it gave before the directory was written back.
\<close>

theorem names_survive_remount:
  assumes bm: "minix_bitmap (k_bits k)" and mk: "mount_kernel a" and up: "kernel_up k a" and io: "page_io k"
    and sync: "\<forall>b. \<not> k_sync_error k b"
    and first: "aufs_fill_sb k a m = Ret (0, m1)" "s_blocksize (m_fs m1) = s_blocksize (m_fs m)"
      "own_inv (k_bits k) rb (m_fs m1)" "s_blocksize (m_fs m1) = 4096"
    and use: "(fs_step (k_bits k))\<^sup>*\<^sup>* (m_fs m1) st"
    and dir: "icache st no = Some ai" "S_ISDIR (i_mode ai)" "i_size ai < 2 ^ 32"
    and pg: "\<forall>n < dir_pages ai. mapped st no n \<and> length (pages st no n) = PAGE_SIZE"
    and len: "inode_off no + sizeof_disk_inode \<le> length (b_data st (inode_blk (AUFS_SB st) no))"
    and written: "sync_file k no st = Ret (e, st2)"
    and stored: "\<forall>i. icache st2 i \<noteq> None \<longrightarrow> zones_stored st2 i" and root: "root_on_disk st2"
    and bl: "blocks_of st2 m2"
  shows "e = 0 \<and> (\<exists>m3 st3 st4. aufs_fill_sb k a m2 = Ret (0, m3) \<and>
    aufs_inode_get k (of_nat no) (m_fs m3) = Ret (Inr no, st3) \<and> read_pages k no [0..<dir_pages ai] st3 = Ret (0, st4) \<and>
    (\<forall>name. length name \<le> AUFS_NAME_LEN \<longrightarrow> minix_inode_by_name k no name st4 = minix_inode_by_name k no name st))"
proof -
  note u = mounted_use [OF bm mk first(1-3) use]
  have bs: "s_blocksize st = 4096" using u(3) first(4) by simp
  have blocks: "\<forall>n < dir_pages ai. mapped st no n" using pg by blast
  have ios: "\<forall>b. k_bread k b \<and> \<not> k_sync_error k b" using up sync by (simp add: kernel_up_def)
  obtain st2' where s: "sync_file k no st = Ret (0, st2')" "(fs_step (k_bits k))\<^sup>*\<^sup>* st st2'"
    "disk_record st2' no = raw_inode_of k ai" "icache st2' = (icache st)(no \<mapsto> ai\<lparr>i_dirty := False\<rparr>)"
    "inode_off no + sizeof_disk_inode \<le> length (b_data st2' (inode_blk (AUFS_SB st2') no))"
    "\<forall>n < dir_pages ai. contents (k_bits k) st2' (no, n) = Some (eof_zeroed (i_size ai) n (pages st no n))"
    by (rule page_io.sync_file_stored [OF io bm u(1) bs dir(1) blocks ios len]) blast
  have e: "e = 0" and st2: "st2' = st2" using s(1) written by simp_all
  have "(fs_step (k_bits k))\<^sup>*\<^sup>* (m_fs m1) st2" using use s(2) st2 by simp
  note u2 = mounted_use [OF bm mk first(1-3) this]
  have bs2: "s_blocksize st2 = 4096" using u2(3) first(4) by simp
  have no2: "no \<in> live_inodes (k_bits k) st2" using cached_live [OF u2(1)] s(4) st2 by simp
  have rec: "S_ISDIR (ucast (di_mode (disk_record st2 no)))" "unat (di_size (disk_record st2 no)) = i_size ai"
    using s(3) dir(2,3) st2 by (simp_all add: raw_inode_of_def unat_of_nat take_bit_eq_mod mode_word)
  have c: "\<forall>n < dir_pages ai. contents (k_bits k) st2 (no, n) = Some (eof_zeroed (i_size ai) n (pages st no n)) \<and>
      n * PAGE_SIZE < unat (di_size (disk_record st2 no))"
    using s(6) st2 rec(2) by (simp add: page_in_file)
  obtain m3 st3 st4 ai4 where r: "aufs_fill_sb k a m2 = Ret (0, m3)" "aufs_inode_get k (of_nat no) (m_fs m3) = Ret (Inr no, st3)"
    "read_pages k no [0..<dir_pages ai] st3 = Ret (0, st4)" "icache st4 no = Some ai4" "i_size ai4 = i_size ai"
    "\<forall>n < dir_pages ai. pages st4 no n = eof_zeroed (i_size ai) n (pages st no n)"
    using page_io.remount_reads_pages [OF io bm mk up u2(1,2) bs2 _ u2(5) root bl no2
        s(5) [unfolded st2] disjI2 [OF rec(1)] c, unfolded rec(2)] stored by metis
  have "\<forall>n < dir_pages ai. agree (minix_last_byte ai n) (pages st no n) (pages st4 no n)"
    using r(6) pg agree_eof_zeroed by simp
  from inode_by_name_agree [OF dir(1) r(4,5) _ this] e r(1-3) show ?thesis by blast
qed

theorem names_survive_remount_witness:
  "\<exists>m m1 m2 m3 st2 st3 st4. aufs_fill_sb ref_kernel ref_mount m = Ret (0, m1) \<and>
     sync_file ref_kernel 1 (m_fs m1) = Ret (0, st2) \<and> b_data (m_fs m2) = b_data st2 \<and>
     aufs_fill_sb ref_kernel ref_mount m2 = Ret (0, m3) \<and> aufs_inode_get ref_kernel 1 (m_fs m3) = Ret (Inr 1, st3) \<and>
     read_pages ref_kernel 1 [0] st3 = Ret (0, st4) \<and> minix_inode_by_name ref_kernel 1 [46] st4 = Ret 0x1000000"
proof -
  obtain B where mounted: "\<And>pg. \<exists>m' ai. aufs_fill_sb ref_kernel ref_mount (demo_mount B pg) = Ret (0, m') \<and>
      own_inv le_bitops 1026 (m_fs m') \<and> m_root m' = Some 1 \<and> icache (m_fs m') = [1 \<mapsto> ai] \<and> i_size ai = 128 \<and>
      i_mode ai = 0x41ED \<and> pages (m_fs m') = (\<lambda>_. pg) \<and> s_blocksize (m_fs m') = 4096 \<and> unat (ai_zone_ptr ai ! 0) = 1026"
    and B: "B 1026 = blits root_entries (replicate 4096 0)"
    by (rule demo_mounted) blast
  let ?m = "demo_mount B (\<lambda>_. B 1026)"
  obtain m1 ai where m1: "aufs_fill_sb ref_kernel ref_mount ?m = Ret (0, m1)" "own_inv le_bitops 1026 (m_fs m1)"
    "m_root m1 = Some 1" "icache (m_fs m1) = [1 \<mapsto> ai]" "i_size ai = 128" "i_mode ai = 0x41ED"
    "pages (m_fs m1) = (\<lambda>_ _. B 1026)" "s_blocksize (m_fs m1) = 4096" "unat (ai_zone_ptr ai ! 0) = 1026"
    using mounted by blast
  let ?st = "m_fs m1"
  have bm: "minix_bitmap (k_bits ref_kernel)" and up: "kernel_up ref_kernel ref_mount"
    by (simp_all add: le_map.minix_bitmap_axioms kernel_up_def ref_mount_def)
  note mk = ref_mounts.mount_kernel_axioms
  have cold: "icache (m_fs ?m) = Map.empty" "s_blocksize ?st = s_blocksize (m_fs ?m)" using m1(8) by (simp_all add: demo_mount_def)
  have inv: "own_inv (k_bits ref_kernel) 1026 ?st" using m1(2) by simp
  have r: "unat (asb_root_inode (AUFS_SB ?st)) = 1" using mounted_use(4) [OF bm mk m1(1) cold(2) inv rtranclp.rtrancl_refl] m1(3) by simp
  have len: "inode_off 1 + sizeof_disk_inode \<le> length (b_data ?st (inode_blk (AUFS_SB ?st) 1))"
    using mount_root_on_disk [OF mk m1(1) cold inv] by (simp add: root_on_disk_def r Let_def)
  have ai: "icache ?st 1 = Some ai" "dir_pages ai = 1" "i_size ai < 2 ^ 32" using m1(4,5) by (simp_all add: dir_pages_def)
  have dir: "S_ISDIR (i_mode ai)" unfolding m1(6) by code_simp
  have lp: "length (pages ?st 1 n) = PAGE_SIZE" for n
    using root_entries_native(3) [of "replicate 4096 0"] by (simp add: m1(7) B)
  have pg: "\<forall>n < dir_pages ai. mapped ?st 1 n \<and> length (pages ?st 1 n) = PAGE_SIZE"
    using m1(4,9) lp by (simp add: ai(2) mapped_def zone_of_def ZONE_PTR_IN_INODE_NUM_def)
  obtain st2 where s: "sync_file ref_kernel 1 ?st = Ret (0, st2)" "(fs_step (k_bits ref_kernel))\<^sup>*\<^sup>* ?st st2"
    "disk_record st2 1 = raw_inode_of ref_kernel ai" "zones_stored st2 1" "icache st2 = (icache ?st)(1 \<mapsto> ai\<lparr>i_dirty := False\<rparr>)"
    "AUFS_SB st2 = AUFS_SB ?st" "inode_off 1 + sizeof_disk_inode \<le> length (b_data st2 (inode_blk (AUFS_SB st2) 1))"
    by (rule ref_pages.sync_file_stored [OF bm inv m1(8) ai(1) _ _ len]) (use pg in auto)
  have root: "root_on_disk st2"
    using s(3,7) dir by (simp add: root_on_disk_def Let_def s(6) r disk_record_def raw_inode_of_def mode_word)
  have stored: "\<forall>i. icache st2 i \<noteq> None \<longrightarrow> zones_stored st2 i" using s(4,5) m1(4) by simp
  let ?m2 = "demo_mount (b_data st2) (\<lambda>_. [])"
  have "s_blocksize st2 = 4096" using mounted_use(3) [OF bm mk m1(1) cold(2) inv s(2)] m1(8) by simp
  then have bl: "blocks_of st2 ?m2" by (simp add: blocks_of_def demo_mount_def)
  have "\<forall>b. \<not> k_sync_error ref_kernel b" by simp
  from names_survive_remount [OF bm mk up ref_pages.page_io_axioms this m1(1) cold(2) inv m1(8) rtranclp.rtrancl_refl
      ai(1) dir ai(3) pg len s(1) stored root bl]
  obtain m3 st3 st4 where m3: "aufs_fill_sb ref_kernel ref_mount ?m2 = Ret (0, m3)"
    "aufs_inode_get ref_kernel 1 (m_fs m3) = Ret (Inr 1, st3)" "read_pages ref_kernel 1 [0] st3 = Ret (0, st4)"
    "minix_inode_by_name ref_kernel 1 [46] st4 = minix_inode_by_name ref_kernel 1 [46] ?st"
    by (auto simp: ai(2) AUFS_NAME_LEN_def)
  have "minix_inode_by_name ref_kernel 1 [46] ?st = Ret 0x1000000"
    by (rule root_page_lookup(1) [OF _ ai(1) m1(5), of "replicate 4096 0"]) (simp_all add: m1(7) B)
  moreover have "b_data (m_fs ?m2) = b_data st2" by (simp add: demo_mount_def)
  ultimately show ?thesis using m1(1) s(1) m3 by metis
qed

end
