(* ===== verification/Kern_Pages.thy ===== *)
theory Kern_Pages
  imports Kern_Dir
begin

text \<open>
  How the directory code of \<^verbatim>\<open>kern/dir.c\<close> uses pages of the page cache. The operations of \<open>Kern_Dir\<close> are
  written once more with the trace of what they do to pages: getting a reference, mapping the page into
  memory, taking its lock, reading and writing its bytes, and giving all of it back. The results are those of
  \<open>Kern_Dir\<close>, no page is used without being held, and everything is given back on every path that returns.
\<close>

subsection \<open>Uses of pages\<close>

datatype page_event =
  Get_page nat | Kmap nat | Lock_page nat | Read_page nat | Write_page nat | Unlock_page nat | Kunmap nat | Put_page nat

record page_use =
  pu_refs :: nat
  pu_maps :: nat
  pu_locked :: bool

definition unused :: page_use where
  "unused = \<lparr>pu_refs = 0, pu_maps = 0, pu_locked = False\<rparr>"

definition held :: "bool \<Rightarrow> page_use" where
  "held locked = \<lparr>pu_refs = 1, pu_maps = 1, pu_locked = locked\<rparr>"

abbreviation idle :: "nat \<Rightarrow> page_use" where "idle \<equiv> (\<lambda>_. unused)"

text \<open>
  The effect of an event; \<open>None\<close> is a wrong use: a page without a reference, an access without a mapping, a
  write or an unlock without the lock, a second lock by the same caller, or the last reference given back while
  the page is locked or mapped.
\<close>

fun use_event :: "page_event \<Rightarrow> (nat \<Rightarrow> page_use) \<Rightarrow> (nat \<Rightarrow> page_use) option" where
  "use_event (Get_page n) u = Some (u(n := (u n)\<lparr>pu_refs := pu_refs (u n) + 1\<rparr>))"
| "use_event (Kmap n) u =
     (if pu_refs (u n) = 0 then None else Some (u(n := (u n)\<lparr>pu_maps := pu_maps (u n) + 1\<rparr>)))"
| "use_event (Lock_page n) u =
     (if pu_refs (u n) = 0 \<or> pu_locked (u n) then None else Some (u(n := (u n)\<lparr>pu_locked := True\<rparr>)))"
| "use_event (Read_page n) u = (if pu_maps (u n) = 0 then None else Some u)"
| "use_event (Write_page n) u = (if pu_maps (u n) = 0 \<or> \<not> pu_locked (u n) then None else Some u)"
| "use_event (Unlock_page n) u =
     (if pu_locked (u n) then Some (u(n := (u n)\<lparr>pu_locked := False\<rparr>)) else None)"
| "use_event (Kunmap n) u =
     (if pu_maps (u n) = 0 then None else Some (u(n := (u n)\<lparr>pu_maps := pu_maps (u n) - 1\<rparr>)))"
| "use_event (Put_page n) u =
     (if pu_refs (u n) = 0 \<or> pu_refs (u n) = 1 \<and> (pu_locked (u n) \<or> pu_maps (u n) \<noteq> 0) then None
      else Some (u(n := (u n)\<lparr>pu_refs := pu_refs (u n) - 1\<rparr>)))"

fun use_events :: "page_event list \<Rightarrow> (nat \<Rightarrow> page_use) \<Rightarrow> (nat \<Rightarrow> page_use) option" where
  "use_events [] u = Some u"
| "use_events (e # es) u = (case use_event e u of None \<Rightarrow> None | Some v \<Rightarrow> use_events es v)"

lemma use_events_append:
  "use_events (xs @ ys) u = (case use_events xs u of None \<Rightarrow> None | Some v \<Rightarrow> use_events ys v)"
  by (induction xs arbitrary: u) (auto split: option.split)

subsection \<open>The operations with their traces\<close>

definition aufs_put_page :: "nat \<Rightarrow> page_event list" where
  "aufs_put_page page = [Kunmap page, Put_page page]"

text \<open>The events of a \<^verbatim>\<open>dir_get_page\<close> that succeeds.\<close>

definition got_page :: "nat \<Rightarrow> page_event list" where
  "got_page n = [Get_page n, Kmap n]"

function find_in_pages_t ::
    "kapi \<Rightarrow> fs \<Rightarrow> nat \<Rightarrow> aufs_inode \<Rightarrow> bytes \<Rightarrow> nat \<Rightarrow> (nat \<times> nat) option cres \<times> page_event list" where
  "find_in_pages_t k st dir ai name n =
     (if dir_pages ai \<le> n then (Ret None, [])
      else (case dir_get_page k dir n st of
              Inl _ \<Rightarrow> find_in_pages_t k st dir ai name (n + 1)
            | Inr pg \<Rightarrow>
                (case find_in_page name pg (minix_last_byte ai n) 0 of
                   Inl f \<Rightarrow> (Fault f, got_page n @ [Read_page n])
                 | Inr (Some p) \<Rightarrow> (Ret (Some (n, p)), got_page n @ [Read_page n])
                 | Inr None \<Rightarrow>
                     (case find_in_pages_t k st dir ai name (n + 1) of
                        (r, tr) \<Rightarrow> (r, got_page n @ [Read_page n] @ aufs_put_page n @ tr)))))"
  by pat_completeness auto
termination
  by (relation "measure (\<lambda>(k, st, dir, ai, name, n). dir_pages ai - n)") auto

declare find_in_pages_t.simps [simp del]

definition minix_find_entry_t ::
    "kapi \<Rightarrow> nat \<Rightarrow> bytes \<Rightarrow> fs \<Rightarrow> (nat \<times> nat) option cres \<times> page_event list" where
  "minix_find_entry_t k dir name st =
     (case icache st dir of
        None \<Rightarrow> (Fault NullDeref, [])
      | Some ai \<Rightarrow> find_in_pages_t k st dir ai name 0)"

definition minix_inode_by_name_t :: "kapi \<Rightarrow> nat \<Rightarrow> bytes \<Rightarrow> fs \<Rightarrow> u64 cres \<times> page_event list" where
  "minix_inode_by_name_t k dir name st =
     (case minix_find_entry_t k dir name st of
        (Inl f, tr) \<Rightarrow> (Fault f, tr)
      | (Inr None, tr) \<Rightarrow> (Ret 0, tr)
      | (Inr (Some (n, p)), tr) \<Rightarrow>
          (Ret (ucast (dde_inode (pages st dir n) p)), tr @ [Read_page n] @ aufs_put_page n))"

text \<open>The search of \<^verbatim>\<open>minix_add_link\<close>, which locks every page it looks at and keeps the last one locked.\<close>

function add_link_pages_t ::
    "kapi \<Rightarrow> fs \<Rightarrow> nat \<Rightarrow> aufs_inode \<Rightarrow> bytes \<Rightarrow> nat \<Rightarrow> (int + nat \<times> slot) cres \<times> page_event list" where
  "add_link_pages_t k st dir ai name n =
     (if dir_pages ai < n then (Fault BugOn, [])
      else (case dir_get_page k dir n st of
              Inl e \<Rightarrow> (Ret (Inl e), [])
            | Inr pg \<Rightarrow>
                (case add_link_page name pg (minix_last_byte ai n) 0 of
                   Inl f \<Rightarrow> (Fault f, got_page n @ [Lock_page n, Read_page n])
                 | Inr (Some s) \<Rightarrow> (Ret (Inr (n, s)), got_page n @ [Lock_page n, Read_page n])
                 | Inr None \<Rightarrow>
                     (case add_link_pages_t k st dir ai name (n + 1) of
                        (r, tr) \<Rightarrow>
                          (r, got_page n @ [Lock_page n, Read_page n] @ [Unlock_page n] @ aufs_put_page n @ tr)))))"
  by pat_completeness auto
termination
  by (relation "measure (\<lambda>(k, st, dir, ai, name, n). Suc (dir_pages ai) - n)") auto

declare add_link_pages_t.simps [simp del]

text \<open>
  \<^verbatim>\<open>dir_commit_chunk\<close> releases the lock of the page: \<^verbatim>\<open>write_one_page\<close> unlocks the page it writes, otherwise
  \<^verbatim>\<open>unlock_page\<close> is called.
\<close>

definition dir_commit_chunk_t ::
    "kapi \<Rightarrow> nat \<Rightarrow> nat \<Rightarrow> nat \<Rightarrow> nat \<Rightarrow> fs \<Rightarrow> (int \<times> fs) cres \<times> page_event list" where
  "dir_commit_chunk_t k dir n pos len st =
     (case icache st dir of
        None \<Rightarrow> (Fault NullDeref, [])
      | Some ai \<Rightarrow>
          let st1 = (if i_size ai < pos + len
                     then mark_inode_dirty dir (put_inode dir (ai\<lparr>i_size := pos + len\<rparr>) st)
                     else st)
          in if k_dirsync k dir then (Ret (k_write_page k dir n, st1), [Unlock_page n])
             else (Ret (0, st1), [Unlock_page n]))"

definition add_link_at_t ::
    "kapi \<Rightarrow> nat \<Rightarrow> bytes \<Rightarrow> u64 \<Rightarrow> nat \<Rightarrow> nat \<Rightarrow> fs \<Rightarrow> (int \<times> fs) cres \<times> page_event list" where
  "add_link_at_t k dir name ino n p st =
     (let pos = n * PAGE_SIZE + p
      in case minix_prepare_chunk k dir pos AUFS_DIR_SIZE st of
           Inl f \<Rightarrow> (Fault f, [])
         | Inr (err, st1) \<Rightarrow>
             if err \<noteq> 0 then (Ret (err, st1), [Unlock_page n] @ aufs_put_page n)
             else if AUFS_DIR_SIZE - 4 < length name then (Fault OutOfBounds, [])
             else
               let pg = pages st1 dir n;
                   pg1 = blit (dde_name p) name pg;
                   pg2 = blit (dde_name p + length name) (replicate (AUFS_DIR_SIZE - length name - 4) 0) pg1;
                   pg3 = write_slot_inode p (ucast ino) pg2
               in case dir_commit_chunk_t k dir n pos AUFS_DIR_SIZE (put_page dir n pg3 st1) of
                    (Inl f, tr) \<Rightarrow> (Fault f, Write_page n # tr)
                  | (Inr (err2, st2), tr) \<Rightarrow>
                      (case icache st2 dir of
                         None \<Rightarrow> (Fault NullDeref, Write_page n # tr)
                       | Some ai2 \<Rightarrow>
                           (Ret (err2, mark_inode_dirty dir
                              (put_inode dir (ai2\<lparr>i_mtime := k_time k, i_ctime := k_time k\<rparr>) st2)),
                            Write_page n # tr @ aufs_put_page n)))"

definition minix_add_link_t :: "kapi \<Rightarrow> nat \<Rightarrow> bytes \<Rightarrow> u64 \<Rightarrow> fs \<Rightarrow> (int \<times> fs) cres \<times> page_event list" where
  "minix_add_link_t k dir name ino st =
     (case icache st dir of
        None \<Rightarrow> (Fault NullDeref, [])
      | Some ai \<Rightarrow>
          (case add_link_pages_t k st dir ai name 0 of
             (Inl f, tr) \<Rightarrow> (Fault f, tr)
           | (Inr (Inl e), tr) \<Rightarrow> (Ret (e, st), tr)
           | (Inr (Inr (n, Name_exists)), tr) \<Rightarrow> (Ret (- EEXIST, st), tr @ [Unlock_page n] @ aufs_put_page n)
           | (Inr (Inr (n, Free_slot p)), tr) \<Rightarrow>
               (case add_link_at_t k dir name ino n p st of (r, tr') \<Rightarrow> (r, tr @ tr'))
           | (Inr (Inr (n, Dir_end p)), tr) \<Rightarrow>
               (case add_link_at_t k dir name ino n p
                       (put_page dir n (write_slot_inode p 0 (pages st dir n)) st) of
                  (r, tr') \<Rightarrow> (r, tr @ [Write_page n] @ tr'))))"

text \<open>\<^verbatim>\<open>minix_make_empty\<close>: \<^verbatim>\<open>grab_cache_page\<close> returns the page locked, and \<^verbatim>\<open>kmap_atomic\<close> maps it while it is filled.\<close>

definition minix_make_empty_t :: "kapi \<Rightarrow> nat \<Rightarrow> nat \<Rightarrow> fs \<Rightarrow> (int \<times> fs) cres \<times> page_event list" where
  "minix_make_empty_t k inode dir st =
     (case (icache st inode, icache st dir) of
        (Some ai, Some di) \<Rightarrow>
          if \<not> k_grab_page k inode 0 then (Ret (- ENOMEM, st), [])
          else
            (case minix_prepare_chunk k inode 0 (2 * AUFS_DIR_SIZE) st of
               Inl f \<Rightarrow> (Fault f, [Get_page 0, Lock_page 0])
             | Inr (err, st1) \<Rightarrow>
                 if err \<noteq> 0 then (Ret (err, st1), [Get_page 0, Lock_page 0, Unlock_page 0, Put_page 0])
                 else
                   let pg0 = replicate PAGE_SIZE 0;
                       pg1 = blit (dde_name 0) [46, 0] (write_slot_inode 0 (ucast (i_ino ai)) pg0);
                       de = minix_next_entry 0;
                       pg2 = blit (dde_name de) [46, 46, 0] (write_slot_inode de (ucast (i_ino di)) pg1)
                   in case dir_commit_chunk_t k inode 0 0 (2 * AUFS_DIR_SIZE) (put_page inode 0 pg2 st1) of
                        (r, tr) \<Rightarrow>
                          (r, [Get_page 0, Lock_page 0, Kmap 0, Write_page 0, Kunmap 0] @ tr @ [Put_page 0]))
      | _ \<Rightarrow> (Fault NullDeref, []))"

function readdir_pages_t ::
    "kapi \<Rightarrow> (dirent list \<Rightarrow> dirent \<Rightarrow> bool) \<Rightarrow> fs \<Rightarrow> nat \<Rightarrow> aufs_inode \<Rightarrow> nat \<Rightarrow> nat \<Rightarrow> dir_context \<Rightarrow>
     dir_context \<times> page_event list" where
  "readdir_pages_t k actor st inode ai n offset ctx =
     (if dir_pages ai \<le> n then (ctx, [])
      else (case dir_get_page k inode n st of
              Inl _ \<Rightarrow> readdir_pages_t k actor st inode ai (n + 1) 0 ctx
            | Inr pg \<Rightarrow>
                (case readdir_page actor pg (minix_last_byte ai n) offset ctx of
                   (False, ctx1) \<Rightarrow> (ctx1, got_page n @ [Read_page n] @ aufs_put_page n)
                 | (True, ctx1) \<Rightarrow>
                     (case readdir_pages_t k actor st inode ai (n + 1) 0 ctx1 of
                        (ctx2, tr) \<Rightarrow> (ctx2, got_page n @ [Read_page n] @ aufs_put_page n @ tr)))))"
  by pat_completeness auto
termination
  by (relation "measure (\<lambda>(k, actor, st, inode, ai, n, offset, ctx). dir_pages ai - n)") auto

declare readdir_pages_t.simps [simp del]

definition minix_readdir_t ::
    "kapi \<Rightarrow> (dirent list \<Rightarrow> dirent \<Rightarrow> bool) \<Rightarrow> nat \<Rightarrow> dir_context \<Rightarrow> fs \<Rightarrow>
     (int \<times> dir_context) cres \<times> page_event list" where
  "minix_readdir_t k actor inode ctx st =
     (case icache st inode of
        None \<Rightarrow> (Fault NullDeref, [])
      | Some ai \<Rightarrow>
          let pos = align_up (ctx_pos ctx) AUFS_DIR_SIZE;
              ctx1 = ctx\<lparr>ctx_pos := pos\<rparr>
          in if i_size ai \<le> pos then (Ret (0, ctx1), [])
             else
               (case readdir_pages_t k actor st inode ai (pos div PAGE_SIZE) (pos mod PAGE_SIZE) ctx1 of
                  (ctx2, tr) \<Rightarrow> (Ret (0, ctx2), tr)))"

subsection \<open>Results and traces\<close>

text \<open>What the module gets, it gives back.\<close>

lemmas page_use_defs = got_page_def aufs_put_page_def unused_def held_def fun_upd_idem

lemma use_got_put [simp]:
  "use_events (got_page n @ Read_page n # aufs_put_page n @ tr) idle = use_events tr idle"
  "use_events (got_page n @ Lock_page n # Read_page n # Unlock_page n # aufs_put_page n @ tr) idle = use_events tr idle"
  "use_events (got_page n @ Read_page n # aufs_put_page n) idle = Some idle"
  by (simp_all add: page_use_defs)

lemma use_got [simp]:
  "use_events (got_page n @ [Read_page n]) idle = Some (idle(n := held False))"
  "use_events (got_page n @ [Lock_page n, Read_page n]) idle = Some (idle(n := held True))"
  by (simp_all add: page_use_defs)

lemma held_sel [simp]:
  "pu_refs (held b) = 1" "pu_maps (held b) = 1" "pu_locked (held b) = b" "(held b)\<lparr>pu_locked := c\<rparr> = held c"
  by (simp_all add: held_def)

lemma use_held [simp]: "use_events (aufs_put_page n) (idle(n := held False)) = Some idle"
  by (simp add: page_use_defs)

text \<open>The traces belong to the operations of \<open>Kern_Dir\<close>: forgetting them gives the same results.\<close>

lemma find_in_pages_t_fst: "fst (find_in_pages_t k st dir ai name n) = find_in_pages k st dir ai name n"
  by (induction k st dir ai name n rule: find_in_pages_t.induct)
    (subst find_in_pages_t.simps, subst find_in_pages.simps, auto split: sum.split option.split prod.split)

lemma add_link_pages_t_fst: "fst (add_link_pages_t k st dir ai name n) = add_link_pages k st dir ai name n"
  by (induction k st dir ai name n rule: add_link_pages_t.induct)
    (subst add_link_pages_t.simps, subst add_link_pages.simps, auto split: sum.split option.split prod.split)

text \<open>One round of the listing loop.\<close>

lemma readdir_pages_t_step:
  assumes "\<not> dir_pages ai \<le> n" and "dir_get_page k inode n st = Inr pg"
    and "readdir_page actor pg (minix_last_byte ai n) offset ctx = (b, ctx1)"
  shows "readdir_pages_t k actor st inode ai n offset ctx =
      (if b then
         (case readdir_pages_t k actor st inode ai (n + 1) 0 ctx1 of
            (ctx2, tr) \<Rightarrow> (ctx2, got_page n @ [Read_page n] @ aufs_put_page n @ tr))
       else (ctx1, got_page n @ [Read_page n] @ aufs_put_page n))"
  using assms by (subst readdir_pages_t.simps) (cases b; simp)

lemma readdir_pages_step:
  assumes "\<not> dir_pages ai \<le> n" and "dir_get_page k inode n st = Inr pg"
    and "readdir_page actor pg (minix_last_byte ai n) offset ctx = (b, ctx1)"
  shows "readdir_pages k actor st inode ai n offset ctx =
      (if b then readdir_pages k actor st inode ai (n + 1) 0 ctx1 else ctx1)"
  using assms by (subst readdir_pages.simps) (cases b; simp)

lemma readdir_pages_skip:
  assumes "\<not> dir_pages ai \<le> n" and "dir_get_page k inode n st = Inl e"
  shows "readdir_pages_t k actor st inode ai n offset ctx = readdir_pages_t k actor st inode ai (n + 1) 0 ctx"
    and "readdir_pages k actor st inode ai n offset ctx = readdir_pages k actor st inode ai (n + 1) 0 ctx"
  by (subst readdir_pages_t.simps, simp add: assms, subst readdir_pages.simps, simp add: assms)

lemma readdir_pages_end:
  assumes "dir_pages ai \<le> n"
  shows "readdir_pages_t k actor st inode ai n offset ctx = (ctx, [])"
    and "readdir_pages k actor st inode ai n offset ctx = ctx"
  by (subst readdir_pages_t.simps, simp add: assms, subst readdir_pages.simps, simp add: assms)

lemma readdir_pages_t_both:
  "fst (readdir_pages_t k actor st inode ai n offset ctx) = readdir_pages k actor st inode ai n offset ctx \<and>
   use_events (snd (readdir_pages_t k actor st inode ai n offset ctx)) idle = Some idle"
proof (induction "dir_pages ai - n" arbitrary: n offset ctx)
  case 0
  then show ?case by (simp add: readdir_pages_end)
next
  case (Suc d)
  then have n: "\<not> dir_pages ai \<le> n" and ih: "\<And>offset ctx.
      fst (readdir_pages_t k actor st inode ai (n + 1) offset ctx) = readdir_pages k actor st inode ai (n + 1) offset ctx \<and>
      use_events (snd (readdir_pages_t k actor st inode ai (n + 1) offset ctx)) idle = Some idle"
    by simp_all
  show ?case
  proof (cases "dir_get_page k inode n st")
    case (Inl e)
    show ?thesis using ih [of 0 ctx] by (simp only: readdir_pages_skip [OF n Inl])
  next
    case (Inr pg)
    obtain b ctx1 where rp: "readdir_page actor pg (minix_last_byte ai n) offset ctx = (b, ctx1)" by force
    obtain c tr where t: "readdir_pages_t k actor st inode ai (n + 1) 0 ctx1 = (c, tr)" by force
    show ?thesis
      using ih [of 0 ctx1] t unfolding readdir_pages_t_step [OF n Inr rp] readdir_pages_step [OF n Inr rp]
      by (cases b) simp_all
  qed
qed

lemma find_in_pages_t_use:
  "case find_in_pages_t k st dir ai name n of
     (Inl f, tr) \<Rightarrow> True
   | (Inr None, tr) \<Rightarrow> use_events tr idle = Some idle
   | (Inr (Some (m, p)), tr) \<Rightarrow> use_events tr idle = Some (idle(m := held False))"
proof (induction k st dir ai name n rule: find_in_pages_t.induct)
  case (1 k st dir ai name n)
  then show ?case
    by (subst find_in_pages_t.simps) (auto split: sum.split option.split prod.splits)
qed

lemma add_link_pages_t_use:
  "case add_link_pages_t k st dir ai name n of
     (Inl f, tr) \<Rightarrow> True
   | (Inr (Inl e), tr) \<Rightarrow> use_events tr idle = Some idle
   | (Inr (Inr (m, s)), tr) \<Rightarrow> use_events tr idle = Some (idle(m := held True))"
proof (induction k st dir ai name n rule: add_link_pages_t.induct)
  case (1 k st dir ai name n)
  then show ?case
    by (subst add_link_pages_t.simps) (auto split: sum.split option.split prod.splits)
qed

lemma commit_t:
  "fst (dir_commit_chunk_t k dir n pos len st) = dir_commit_chunk k dir n pos len st"
  "dir_commit_chunk_t k dir n pos len st = (Inr x, tr) \<Longrightarrow> tr = [Unlock_page n]"
  by (auto simp: dir_commit_chunk_t_def dir_commit_chunk_def Let_def split: option.splits if_splits)

lemma add_link_at_t_fst: "fst (add_link_at_t k dir name ino n p st) = add_link_at k dir name ino n p st"
  unfolding add_link_at_t_def add_link_at_def Let_def commit_t(1) [symmetric]
  by (auto split: sum.split option.split prod.split)

lemma add_link_at_t_use:
  "add_link_at_t k dir name ino n p st = (Inr x, tr) \<Longrightarrow> use_events tr (idle(n := held True)) = Some idle"
  by (auto simp: add_link_at_t_def Let_def split: sum.splits if_splits prod.splits option.splits dest!: commit_t(2))

subsection \<open>Properties\<close>

text \<open>An operation with its trace: the result is that of the operation, and a run that returns gives all pages back.\<close>

definition releases :: "'a cres \<times> page_event list \<Rightarrow> 'a cres \<Rightarrow> bool" where
  "releases run r \<longleftrightarrow> fst run = r \<and> (\<forall>x. r = Ret x \<longrightarrow> use_events (snd run) idle = Some idle)"

lemma inode_by_name_releases: "releases (minix_inode_by_name_t k dir name st) (minix_inode_by_name k dir name st)"
proof (cases "icache st dir")
  case None
  then show ?thesis
    by (simp add: releases_def minix_inode_by_name_t_def minix_inode_by_name_def minix_find_entry_t_def minix_find_entry_def)
next
  case (Some ai)
  obtain r tr where t: "find_in_pages_t k st dir ai name 0 = (r, tr)" by force
  then have "find_in_pages k st dir ai name 0 = r" using find_in_pages_t_fst [of k st dir ai name 0] by simp
  then show ?thesis
    using Some t find_in_pages_t_use [of k st dir ai name 0]
    by (auto simp: releases_def minix_inode_by_name_t_def minix_inode_by_name_def minix_find_entry_t_def
        minix_find_entry_def use_events_append split: sum.splits option.splits)
qed

lemma add_link_releases: "releases (minix_add_link_t k dir name ino st) (minix_add_link k dir name ino st)"
proof (cases "icache st dir")
  case None
  then show ?thesis by (simp add: releases_def minix_add_link_t_def minix_add_link_def)
next
  case (Some ai)
  obtain r tr where t: "add_link_pages_t k st dir ai name 0 = (r, tr)" by force
  then have r: "add_link_pages k st dir ai name 0 = r" using add_link_pages_t_fst [of k st dir ai name 0] by simp
  have at: "add_link_at_t k dir name ino n p s = (q, es) \<Longrightarrow> add_link_at k dir name ino n p s = q" for n p s q es
    using add_link_at_t_fst [of k dir name ino n p s] by simp
  have use: "use_events es (idle(n := held True)) = Some idle"
    if "add_link_at_t k dir name ino n p s = (q, es)" "add_link_at k dir name ino n p s = Ret x" for n p s q es x
    using add_link_at_t_use [of k dir name ino n p s x es] at [OF that(1)] that by simp
  show ?thesis
    using Some t r add_link_pages_t_use [of k st dir ai name 0]
    by (auto simp: releases_def minix_add_link_t_def minix_add_link_def use_events_append
        split: sum.splits slot.splits prod.splits dest: at use)
qed

lemma make_empty_releases: "releases (minix_make_empty_t k inode dir st) (minix_make_empty k inode dir st)"
  unfolding releases_def minix_make_empty_t_def minix_make_empty_def Let_def commit_t(1) [symmetric]
  by (auto simp: page_use_defs split: option.splits sum.splits prod.splits dest!: commit_t(2))

lemma readdir_releases: "releases (minix_readdir_t k actor inode ctx st) (minix_readdir k actor inode ctx st)"
proof (cases "icache st inode")
  case None
  then show ?thesis by (simp add: releases_def minix_readdir_t_def minix_readdir_def)
next
  case (Some ai)
  let ?pos = "align_up (ctx_pos ctx) AUFS_DIR_SIZE"
  show ?thesis
    using readdir_pages_t_both [of k actor st inode ai "?pos div PAGE_SIZE" "?pos mod PAGE_SIZE" "ctx\<lparr>ctx_pos := ?pos\<rparr>"]
    by (auto simp: releases_def minix_readdir_t_def minix_readdir_def Some Let_def split: prod.splits)
qed

text \<open>
  C15: the directory operations use pages correctly on every path. With the trace of page events the results are
  those of the plain operations; no page is mapped, locked, read or written without being held, no page is locked twice,
  every write is under the page lock, and when the operation returns every reference, mapping and lock is given
  back. Only \<^verbatim>\<open>minix_find_entry\<close> hands the page of the entry it found to its caller, mapped and unlocked.
\<close>

theorem directory_pages_released:
  "releases (minix_inode_by_name_t k dir name st) (minix_inode_by_name k dir name st) \<and>
   releases (minix_add_link_t k dir name ino st) (minix_add_link k dir name ino st) \<and>
   releases (minix_make_empty_t k new dir st) (minix_make_empty k new dir st) \<and>
   releases (minix_readdir_t k actor dir ctx st) (minix_readdir k actor dir ctx st) \<and>
   fst (minix_find_entry_t k dir name st) = minix_find_entry k dir name st \<and>
   (case minix_find_entry_t k dir name st of
      (Inl f, tr) \<Rightarrow> True
    | (Inr None, tr) \<Rightarrow> use_events tr idle = Some idle
    | (Inr (Some (n, p)), tr) \<Rightarrow> use_events tr idle = Some (idle(n := held False)))"
proof -
  have "fst (minix_find_entry_t k dir name st) = minix_find_entry k dir name st"
    using find_in_pages_t_fst by (simp add: minix_find_entry_t_def minix_find_entry_def split: option.split)
  moreover have "case minix_find_entry_t k dir name st of
      (Inl f, tr) \<Rightarrow> True
    | (Inr None, tr) \<Rightarrow> use_events tr idle = Some idle
    | (Inr (Some (n, p)), tr) \<Rightarrow> use_events tr idle = Some (idle(n := held False))"
    using find_in_pages_t_use by (auto simp: minix_find_entry_t_def split: option.split)
  ultimately show ?thesis
    using inode_by_name_releases add_link_releases make_empty_releases readdir_releases by blast
qed

end
