(* ===== verification/Spec2Isabelle.thy ===== *)
theory Spec2Isabelle
  imports Kern_File Kern_Module Kern_Data Kern_Locking Kern_Persist Kern_Pages
begin

text \<open>
  \<^bold>\<open>The aufs file system: kernel module and formatter.\<close> The repository holds two programs that share a disk format: a Linux kernel
  module in C (\<^verbatim>\<open>src/kern\<close>) that mounts the file system, and \<^verbatim>\<open>mkfs.aufs\<close> in C++ (\<^verbatim>\<open>src/user\<close>) that formats a device. This theory imports the
  whole development; the theories below hold the model and its theorems.

  \<^bold>\<open>The disk.\<close> Block 0 is the super block (seven big-endian words), then come the blocks of the zone bitmap, of the inode bitmap and of the
  inode table (64-byte records, all fields big-endian), then the zones. A zone is one block or a number of blocks of 4096 bytes. An inode has
  nine direct zone pointers, which are block numbers. A directory is a file of 64-byte slots: an inode number and 60 bytes of name.

  \<^bold>\<open>Theories of the kernel module.\<close>
  \<^item> \<open>Aufs_Prelude\<close>: machine types, faults, error numbers, byte buffers with in-place writes, codecs of 32 and 64 bit words, alignment.
  \<^item> \<open>Minix_Bitops\<close> (\<^verbatim>\<open>minix.h\<close>): the macro families for bitmaps. The contract of a family is the locale \<open>minix_bitmap\<close>; it holds for the
    little-endian family, for the native family over the kernel's word operations (locale \<open>native_words\<close>) and for the 16-bit routines written
    out in the header (locale \<open>long_bitops\<close>).
  \<^item> \<open>Kern_State\<close> (\<^verbatim>\<open>aufs.h\<close>): structures on disk and in memory, the state \<open>fs\<close> (buffers, cached inodes, pages of the page cache, mounted
    super block) and the record \<open>kapi\<close> of kernel functions the module calls. A pointer of the C code is the key into its store.
  \<^item> \<open>Kern_Bitmap\<close> (\<^verbatim>\<open>bitmap.c\<close>): allocation of zones and inodes. Both take the least unused number and mark it.
  \<^item> \<open>Kern_Inode\<close> (\<^verbatim>\<open>inode.c\<close>): block mapping, loading and storing inodes, address space operations.
  \<^item> \<open>Zone_Ownership\<close>: the invariant \<open>own_inv\<close> (every zone pointer of a live inode is the place of a used zone and no two pointers are
    equal) and two step relations. \<open>module_step\<close> holds every step the code can make: data goes to whatever block \<^verbatim>\<open>aufs_get_block\<close> returns,
    lookups ask for any inode number. Its steps keep the invariant except two named ones: \<open>overrun_step\<close>, a write without a zone while
    every zone is used, and \<open>stray_lookup\<close>, a lookup of a number that is not in use. \<open>fs_step\<close> holds the regular steps, without these two.
  \<^item> \<open>Kern_Block_Props\<close>: the properties of allocation and block mapping, also those of the failing branches.
  \<^item> \<open>Kern_Locking\<close> (\<^verbatim>\<open>bitmap.c\<close>): concurrent allocations. A call is a thread whose steps are the accesses to the bitmaps and to
    \<^verbatim>\<open>bitmap_lock\<close>; every interleaving finishes, has the outcome (also the error numbers) of the sequential calls in some order, and gives no number twice.
  \<^item> \<open>Kern_Data\<close>: the contents of files as a map from file blocks to bytes. Writes through the block mapping, with regular steps
    between them, are updates of that map (locale \<open>block_files\<close>) for all files outside a set of lost inodes: those evicted before their
    zone pointers were on disk. Reading a hole is not a read of that map.
  \<^item> \<open>Kern_Dir\<close> (\<^verbatim>\<open>dir.c\<close>): search, insertion, listing and creation of directory entries on pages, refined to the list of entries \<open>dir_list\<close>.
  \<^item> \<open>Kern_Pages\<close> (\<^verbatim>\<open>dir.c\<close>): the same operations with the trace of page references, mappings and locks; no page is used without being
    held, and every path that returns gives all of it back.
  \<^item> \<open>Kern_Namei\<close>, \<open>Kern_Name_Props\<close> (\<^verbatim>\<open>namei.c\<close>): create, mknod, mkdir, tmpfile and lookup; what the module relies on of \<^verbatim>\<open>iput\<close> and \<^verbatim>\<open>d_tmpfile\<close> is the
    locale \<open>name_effects\<close>; \<open>name_kernel\<close> adds that pages can be read (\<open>dir_kernel\<close>). Name operations are sequences of steps of the block
    layer, also when pages cannot be read, so they keep the ownership invariant with the same two exceptions.
  \<^item> \<open>Kern_File\<close> (\<^verbatim>\<open>file.c\<close>, \<^verbatim>\<open>itree_common.c\<close>, \<^verbatim>\<open>inode.c\<close>): attributes and operation tables.
  \<^item> \<open>Kern_Super\<close> (\<^verbatim>\<open>super.c\<close>): mounting and unmounting with buffer references and freed pointers; what a mount establishes, and which
    values of the super block it accepts without a check.
  \<^item> \<open>Kern_Module\<close> (\<^verbatim>\<open>super.c\<close>): the slab cache of inodes, deferred frees, loading and unloading as a state machine.
  \<^item> \<open>Kern_Remount\<close>: mounting, using and mounting again; the second mount finds the same files, zones and inodes.
  \<^item> \<open>Kern_Persist\<close>: pages of a directory through \<^verbatim>\<open>aufs_writepage\<close> to its blocks and back through \<^verbatim>\<open>aufs_readpage\<close> after another mount;
    what the kernel's page functions do is the locale \<open>page_io\<close> of \<open>Kern_Inode\<close>. Every name leads to the inode it led to before.

  \<^bold>\<open>Theories of the formatter.\<close>
  \<^item> \<open>Mkfs_Bits\<close> (\<^verbatim>\<open>bit_iterator.hpp\<close>): references and iterators to bits, and \<^verbatim>\<open>std::find\<close> and \<^verbatim>\<open>std::fill\<close> over them. The laws of a random access
    iterator are the locale \<open>random_access\<close>, interpreted on the iterator and on the constant iterator.
  \<^item> \<open>Mkfs_Config\<close> (\<^verbatim>\<open>block.hpp\<close>, \<^verbatim>\<open>mkfs.cpp\<close>): the configuration, its checks and the arguments of the command line; exactly which
    arguments are accepted, with the cuts to 32 bits the constructor makes.
  \<^item> \<open>Mkfs_Cache\<close> (\<^verbatim>\<open>block.cpp\<close>, \<^verbatim>\<open>block.hpp\<close>): the block cache over the device file; it implements the locale \<open>block_store\<close>, an array of blocks.
  \<^item> \<open>Mkfs_Format\<close> (\<^verbatim>\<open>format.cpp\<close>, \<^verbatim>\<open>aufs.hpp\<close>, \<^verbatim>\<open>mkfs.cpp\<close>): super block, bitmaps, root inode and root directory; how \<^verbatim>\<open>mkfs\<close> ends, which
    blocks it writes and what they hold.
  \<^item> \<open>Mkfs_Mount\<close>: both programs together. A freshly formatted device mounts and satisfies the ownership invariant, so the properties of the
    module hold from there on; the byte order of the root entries differs between the two programs.

  \<^bold>\<open>How code is modelled.\<close> Machine integers are words of their width; \<open>unat\<close> reads them and the lemmas show where they do not wrap. Undefined
  behaviour is a value: \<open>Fault\<close> of an access out of bounds, through a null or freed pointer, of a division by zero or a failed assertion. Errors
  of the kernel are the negative numbers the C code returns. Loops are recursive functions with termination proofs; the one loop that may not
  end (\<open>alloc_zones_loop\<close>) is a partial function whose value \<open>None\<close> stands for that. No definition uses fuel. File sizes (\<^verbatim>\<open>loff_t\<close>) are
  natural numbers: the kernel refuses negative sizes before it calls the module. The page cache is a part of the state: directory code
  changes its pages, and the transfer of pages from and to blocks is a step of its own (\<open>aufs_readpage\<close> and \<open>aufs_writepage\<close>), since the
  kernel decides when it happens; a page read that fails is a branch of the directory operations.

  \<^bold>\<open>Assumptions.\<close> The kernel functions are parameters (\<open>kapi\<close>, \<open>mount_api\<close>) and may fail; laws about them are locale assumptions, each with
  an interpretation on a reference kernel. The machine is little-endian with pages of 4096 bytes. The mount theorem needs zones from 4096 bytes
  up to 128 megabytes (above, block numbers of 32 bits overflow the sign bit), a device that \<^verbatim>\<open>mkfs\<close> found with a zeroed inode table, and fewer
  zones than the bitmap has bits (otherwise the formatter reads behind the bitmap).

  Concurrent threads see each other's writes in the order they are made.

  \<^bold>\<open>Not modelled.\<close> Messages to the log and the terminal, the generic functions of the kernel (they are parameters), null iterators and
  failures of C++ file streams, code that is commented out, the tests and the build files. Unmounting is modelled
  (\<open>aufs_put_super\<close>) but always ends in a use of freed memory, so \<open>Kern_Remount\<close> starts from the blocks the steps left on the device.

  \<^bold>\<open>Plan.\<close> Next: directory operations of several threads under the lock of the directory, and failures of the device
  during formatting.
\<close>

end
